(* ===== verification/Prelude.thy ===== *)
theory Prelude
  imports Main "HOL-Library.Multiset" "HOL-Library.Sublist"
begin

text \<open>
  What every component of the development shares: the collections of lemmas that carry the
  component proofs, the byte predicates of the C locale, the string algorithms of
  \<^verbatim>\<open>boost/algorithm/string\<close> that the program calls (translated from the headers in
  \<^verbatim>\<open>src/trunk/compiler/compiler/local/all/include/boost\<close>), the decimal output and input
  of \<^verbatim>\<open>stringstream\<close>, and the hashed containers of \<^verbatim>\<open>boost/unordered\<close>.

  A C++ \<^verbatim>\<open>std::string\<close> is a \<^typ>\<open>string\<close>: a list of bytes.
\<close>

named_theorems str_simps "evaluation and algebra of the string algorithms"
named_theorems tab_simps "laws of the hashed containers"
named_theorems inv_intros "preservation of the component invariants"

section \<open>Bytes in the C locale\<close>

definition code :: "char \<Rightarrow> nat" where
  "code c = of_char c"

definition is_digit :: "char \<Rightarrow> bool" where
  "is_digit c \<longleftrightarrow> 48 \<le> code c \<and> code c \<le> 57"

definition is_upper :: "char \<Rightarrow> bool" where
  "is_upper c \<longleftrightarrow> 65 \<le> code c \<and> code c \<le> 90"

definition is_lower_char :: "char \<Rightarrow> bool" where
  "is_lower_char c \<longleftrightarrow> 97 \<le> code c \<and> code c \<le> 122"

definition is_alpha :: "char \<Rightarrow> bool" where
  "is_alpha c \<longleftrightarrow> is_upper c \<or> is_lower_char c"

definition is_space :: "char \<Rightarrow> bool" where
  "is_space c \<longleftrightarrow> code c = 32 \<or> (9 \<le> code c \<and> code c \<le> 13)"

definition is_any_of :: "string \<Rightarrow> char \<Rightarrow> bool" where
  "is_any_of cs c \<longleftrightarrow> c \<in> set cs"

definition tolower :: "char \<Rightarrow> char" where
  "tolower c = (if is_upper c then char_of (code c + 32) else c)"

definition toupper :: "char \<Rightarrow> char" where
  "toupper c = (if is_lower_char c then char_of (code c - 32) else c)"

definition newline :: char where
  "newline = CHR 0x0A"

definition quote :: char where
  "quote = CHR 0x22"

lemma code_less: "code c < 256"
  by (simp add: code_def)

lemma code_char_of: "n < 256 \<Longrightarrow> code (char_of n) = n"
  by (simp add: code_def)

lemma code_inject: "code c = code d \<longleftrightarrow> c = d"
  by (simp add: code_def)

lemma tolower_idem: "tolower (tolower c) = tolower c"
proof (cases "is_upper c")
  case True
  then have "code c + 32 < 256" and "90 < code c + 32"
    by (simp_all add: is_upper_def)
  then show ?thesis
    by (simp add: tolower_def is_upper_def code_char_of)
next
  case False
  then show ?thesis by (simp add: tolower_def)
qed

lemma toupper_tolower: "is_alpha c \<Longrightarrow> tolower (toupper c) = tolower c"
  by (auto simp: is_alpha_def toupper_def tolower_def is_upper_def is_lower_char_def
      code_char_of code_def)

section \<open>String algorithms\<close>

text \<open>\<^verbatim>\<open>starts_with\<close>, \<^verbatim>\<open>ends_with\<close>, \<^verbatim>\<open>contains\<close> (and \<^verbatim>\<open>std::string::find\<close> against
  \<^verbatim>\<open>npos\<close>).\<close>

definition starts_with :: "string \<Rightarrow> string \<Rightarrow> bool" where
  "starts_with s t = prefix t s"

definition ends_with :: "string \<Rightarrow> string \<Rightarrow> bool" where
  "ends_with s t = prefix (rev t) (rev s)"

fun str_contains :: "'a list \<Rightarrow> 'a list \<Rightarrow> bool" where
  "str_contains [] t = (t = [])"
| "str_contains (c # s) t = (prefix t (c # s) \<or> str_contains s t)"

lemma starts_with_simps [simp, str_simps]:
  "starts_with s []"
  "starts_with [] (d # t) = False"
  "starts_with (c # s) (d # t) = (c = d \<and> starts_with s t)"
  by (auto simp: starts_with_def)

lemma starts_with_append [simp]: "starts_with (t @ s) t"
  by (simp add: starts_with_def)

lemma starts_with_iff: "starts_with s t \<longleftrightarrow> (\<exists>u. s = t @ u)"
  by (auto simp: starts_with_def prefix_def)

lemma ends_with_iff: "ends_with s t \<longleftrightarrow> (\<exists>u. s = u @ t)"
  by (simp add: ends_with_def suffix_to_prefix [symmetric] suffix_def)

lemma str_contains_sublist: "str_contains s t \<longleftrightarrow> sublist t s"
  by (induction s) (auto simp: sublist_Cons_right)

text \<open>\<^verbatim>\<open>trim_left_if\<close>, \<^verbatim>\<open>trim_right_if\<close>, \<^verbatim>\<open>trim_if\<close>, \<^verbatim>\<open>trim\<close>
  (\<^verbatim>\<open>algorithm/string/detail/trim.hpp\<close>).\<close>

definition trim_left_if :: "(char \<Rightarrow> bool) \<Rightarrow> string \<Rightarrow> string" where
  "trim_left_if p s = dropWhile p s"

definition trim_right_if :: "(char \<Rightarrow> bool) \<Rightarrow> string \<Rightarrow> string" where
  "trim_right_if p s = rev (dropWhile p (rev s))"

definition trim_if :: "(char \<Rightarrow> bool) \<Rightarrow> string \<Rightarrow> string" where
  "trim_if p s = trim_left_if p (trim_right_if p s)"

definition trim :: "string \<Rightarrow> string" where
  "trim s = trim_if is_space s"

lemma trim_if_Nil [simp, str_simps]: "trim_if p [] = []"
  by (simp add: trim_if_def trim_left_if_def trim_right_if_def)

lemma trim_right_if_cases:
  "trim_right_if p s = [] \<or> \<not> p (last (trim_right_if p s))"
  by (metis hd_dropWhile last_rev rev_is_Nil_conv trim_right_if_def rev_rev_ident)

lemma trim_right_if_prefix: "\<exists>t. s = trim_right_if p s @ t \<and> (\<forall>c \<in> set t. p c)"
proof -
  have "rev s = takeWhile p (rev s) @ dropWhile p (rev s)" by simp
  then have "s = rev (dropWhile p (rev s)) @ rev (takeWhile p (rev s))"
    by (metis rev_append rev_rev_ident)
  moreover have "\<forall>c \<in> set (rev (takeWhile p (rev s))). p c"
    by (auto dest: set_takeWhileD)
  ultimately show ?thesis unfolding trim_right_if_def by blast
qed

lemma trim_if_infix:
  "\<exists>a b. s = a @ trim_if p s @ b \<and> (\<forall>c \<in> set a. p c) \<and> (\<forall>c \<in> set b. p c)"
proof -
  obtain b where b: "s = trim_right_if p s @ b" "\<forall>c \<in> set b. p c"
    using trim_right_if_prefix by blast
  let ?u = "trim_right_if p s"
  have "?u = takeWhile p ?u @ trim_if p s"
    by (simp add: trim_if_def trim_left_if_def)
  moreover have "\<forall>c \<in> set (takeWhile p ?u). p c"
    by (auto dest: set_takeWhileD)
  ultimately show ?thesis using b by (metis append.assoc)
qed

lemma trim_if_id:
  assumes "s = [] \<or> (\<not> p (hd s) \<and> \<not> p (last s))"
  shows "trim_if p s = s"
proof (cases "s = []")
  case True
  then show ?thesis by simp
next
  case False
  with assms have "\<not> p (hd (rev s))" "rev s \<noteq> []" by (simp_all add: hd_rev)
  then have "dropWhile p (rev s) = rev s"
    by (cases "rev s") auto
  then have "trim_right_if p s = s" by (simp add: trim_right_if_def)
  moreover from False assms have "dropWhile p s = s" by (cases s) auto
  ultimately show ?thesis by (simp add: trim_if_def trim_left_if_def)
qed

lemma trim_if_shape:
  "trim_if p s = [] \<or> (\<not> p (hd (trim_if p s)) \<and> \<not> p (last (trim_if p s)))"
proof (cases "trim_if p s = []")
  case True
  then show ?thesis ..
next
  case False
  let ?u = "trim_right_if p s"
  have u: "?u = takeWhile p ?u @ trim_if p s"
    by (simp add: trim_if_def trim_left_if_def)
  with False have "?u \<noteq> []" by (metis append_is_Nil_conv)
  with trim_right_if_cases have "\<not> p (last ?u)" by blast
  with u False have "\<not> p (last (trim_if p s))" by (metis last_appendR)
  moreover from False have "\<not> p (hd (trim_if p s))"
    unfolding trim_if_def trim_left_if_def by (rule hd_dropWhile)
  ultimately show ?thesis by blast
qed

lemma trim_if_idem [simp]: "trim_if p (trim_if p s) = trim_if p s"
  by (rule trim_if_id [OF trim_if_shape])

lemma set_trim_if: "set (trim_if p s) \<subseteq> set s"
proof -
  obtain a b where "s = a @ trim_if p s @ b" using trim_if_infix by blast
  then show ?thesis by (metis Un_upper1 Un_upper2 set_append subset_trans)
qed


text \<open>\<^verbatim>\<open>algo::split\<close> with \<^verbatim>\<open>token_compress_off\<close>: every separator ends a token, so there is one
  more token than separators and tokens may be empty (\<^verbatim>\<open>find_iterator.hpp\<close>). With
  \<^verbatim>\<open>token_compress_on\<close> a run of separators counts as one.\<close>

fun split :: "(char \<Rightarrow> bool) \<Rightarrow> string \<Rightarrow> string list" where
  "split p [] = [[]]"
| "split p (c # s) =
    (if p c then [] # split p s
     else (case split p s of [] \<Rightarrow> [[c]] | w # ws \<Rightarrow> (c # w) # ws))"

function split_compress :: "(char \<Rightarrow> bool) \<Rightarrow> string \<Rightarrow> string list" where
  "split_compress p s =
    (case dropWhile (\<lambda>c. \<not> p c) s of
       [] \<Rightarrow> [s]
     | c # rest \<Rightarrow> takeWhile (\<lambda>c. \<not> p c) s # split_compress p (dropWhile p rest))"
  by pat_completeness auto
termination
proof (relation "measure (\<lambda>(p, s). length s)", goal_cases)
  case 1
  then show ?case by simp
next
  case (2 p s c rest)
  have "length (dropWhile p rest) \<le> length rest" by (rule length_dropWhile_le)
  also have "length rest < length (dropWhile (\<lambda>c. \<not> p c) s)" using 2 by simp
  also have "\<dots> \<le> length s" by (rule length_dropWhile_le)
  finally show ?case by simp
qed

declare split_compress.simps [simp del]

fun join :: "string \<Rightarrow> string list \<Rightarrow> string" where
  "join d [] = []"
| "join d [w] = w"
| "join d (w # ws) = w @ d @ join d ws"

lemma split_not_Nil [simp]: "split p s \<noteq> []"
  by (cases s) (auto split: list.splits)

lemma split_tokens: "\<forall>w \<in> set (split p s). \<forall>c \<in> set w. \<not> p c"
  by (induction s) (auto split: list.splits)

lemma split_token: "w \<in> set (split p s) \<Longrightarrow> c \<in> set w \<Longrightarrow> \<not> p c"
  using split_tokens by blast

lemma split_token_subset: "w \<in> set (split p s) \<Longrightarrow> set w \<subseteq> set s"
proof (induction s arbitrary: w)
  case Nil
  then show ?case by simp
next
  case (Cons c s)
  obtain v vs where v: "split p s = v # vs" by (cases "split p s") auto
  with Cons.IH [of v] Cons.IH [of w] Cons.prems show ?case by (auto split: if_splits)
qed

lemma split_no_sep: "\<forall>c \<in> set w. \<not> p c \<Longrightarrow> split p w = [w]"
  by (induction w) auto

lemma split_append_sep:
  "\<forall>c \<in> set w. \<not> p c \<Longrightarrow> p d \<Longrightarrow> split p (w @ d # s) = w # split p s"
  by (induction w) auto

lemma split_join:
  assumes "ws \<noteq> []" and "\<forall>w \<in> set ws. \<forall>c \<in> set w. \<not> p c" and "p d"
  shows "split p (join [d] ws) = ws"
  using assms by (induction "[d]" ws rule: join.induct) (auto simp: split_no_sep split_append_sep)

lemma join_Cons: "ws \<noteq> [] \<Longrightarrow> join d (w # ws) = w @ d @ join d ws"
  by (cases ws) auto

lemma join_split: "join [d] (split (\<lambda>c. c = d) s) = s"
proof (induction s)
  case Nil
  then show ?case by simp
next
  case (Cons c s)
  show ?case
  proof (cases "c = d")
    case True
    then show ?thesis using Cons.IH by (simp add: join_Cons)
  next
    case False
    obtain w ws where w: "split (\<lambda>c. c = d) s = w # ws"
      by (cases "split (\<lambda>c. c = d) s") auto
    with False Cons.IH show ?thesis by (cases ws) auto
  qed
qed

lemma length_split: "length (split p s) = Suc (length (filter p s))"
  by (induction s) (auto split: list.splits)

lemma split_append: "p d \<Longrightarrow> split p (s @ d # t) = split p s @ split p t"
proof (induction s)
  case Nil
  then show ?case by simp
next
  case (Cons c s)
  obtain w ws where "split p s = w # ws" by (cases "split p s") auto
  with Cons show ?case by simp
qed

text \<open>Words between single spaces: the form in which lists of symbols are searched.\<close>

definition spaced :: "string list \<Rightarrow> string" where
  "spaced ws = (if ws = [] then [] else '' '' @ concat (map (\<lambda>w. w @ '' '') ws))"

lemma spaced_join: "ws \<noteq> [] \<Longrightarrow> spaced ws = CHR '' '' # join '' '' ws @ '' ''"
proof -
  have "ws \<noteq> [] \<Longrightarrow> concat (map (\<lambda>w. w @ '' '') ws) = join '' '' ws @ '' ''"
  proof (induction ws)
    case (Cons w ws)
    then show ?case by (cases ws) simp_all
  qed simp
  then show "ws \<noteq> [] \<Longrightarrow> ?thesis" by (simp add: spaced_def)
qed

lemma split_spaced:
  assumes "ws \<noteq> []" and "\<forall>w \<in> set ws. CHR '' '' \<notin> set w"
  shows "split (\<lambda>c. c = CHR '' '') (a @ spaced ws @ b) =
    split (\<lambda>c. c = CHR '' '') a @ ws @ split (\<lambda>c. c = CHR '' '') b"
proof -
  let ?p = "\<lambda>c. c = CHR '' ''"
  have "split ?p (a @ spaced ws @ b) = split ?p (a @ CHR '' '' # (join '' '' ws @ CHR '' '' # b))"
    using assms(1) by (simp add: spaced_join)
  also have "\<dots> = split ?p a @ split ?p (join '' '' ws) @ split ?p b"
    by (simp add: split_append)
  also have "split ?p (join '' '' ws) = ws"
    using assms by (intro split_join) auto
  finally show ?thesis .
qed

lemma sublist_spaced:
  assumes us: "us \<noteq> []" "\<forall>w \<in> set us. CHR '' '' \<notin> set w" and ws: "\<forall>w \<in> set ws. CHR '' '' \<notin> set w"
  shows "sublist (spaced us) (spaced ws) \<longleftrightarrow> sublist us ws"
proof
  assume "sublist (spaced us) (spaced ws)"
  then obtain a b where ab: "spaced ws = a @ spaced us @ b" by (auto simp: sublist_def)
  let ?p = "\<lambda>c. c = CHR '' ''"
  have wne: "ws \<noteq> []" using ab us(1) by (auto simp: spaced_def)
  have "[[]] @ ws @ [[]] = split ?p a @ us @ split ?p b"
    using split_spaced [OF us, of a b] split_spaced [OF wne ws, of "[]" "[]"] ab by simp
  moreover obtain x xs where x: "split ?p a = x # xs" by (cases "split ?p a") auto
  moreover obtain y ys where y: "split ?p b = ys @ [y]" by (cases "split ?p b" rule: rev_cases) auto
  ultimately have "ws = xs @ us @ ys" by simp
  then show "sublist us ws" by (auto simp: sublist_def)
next
  assume "sublist us ws"
  then obtain x y where w: "ws = x @ us @ y" by (auto simp: sublist_def)
  let ?cat = "\<lambda>vs. concat (map (\<lambda>w. w @ '' '') vs)"
  let ?s = "'' '' @ ?cat x"
  have e: "?s = butlast ?s @ '' ''"
    by (cases x rule: rev_cases) (auto simp: butlast_append)
  have "spaced ws = ?s @ ?cat us @ ?cat y"
    using us(1) by (simp add: w spaced_def)
  also have "\<dots> = (butlast ?s @ '' '') @ ?cat us @ ?cat y"
    using e by (rule arg_cong)
  also have "\<dots> = butlast ?s @ spaced us @ ?cat y"
    using us(1) by (simp add: spaced_def)
  finally have "spaced ws = butlast ?s @ spaced us @ ?cat y" .
  then show "sublist (spaced us) (spaced ws)" by (metis sublist_appendI)
qed

text \<open>\<^verbatim>\<open>boost::replace_all\<close>: leftmost occurrences, not overlapping; an empty search string
  changes nothing (\<^verbatim>\<open>first_finder\<close> finds no empty match).\<close>

function replace_all :: "string \<Rightarrow> string \<Rightarrow> string \<Rightarrow> string" where
  "replace_all f r s =
    (if f = [] then s
     else case s of
       [] \<Rightarrow> []
     | c # s' \<Rightarrow> if prefix f s then r @ replace_all f r (drop (length f) s)
                else c # replace_all f r s')"
  by pat_completeness auto
termination
  by (relation "measure (\<lambda>(f, r, s). length s)") (auto simp: prefix_def)

declare replace_all.simps [simp del]

lemma replace_all_id: "\<not> sublist f s \<Longrightarrow> replace_all f r s = s"
proof (induction s)
  case Nil
  then show ?case by (simp add: replace_all.simps)
next
  case (Cons c s)
  then show ?case
    by (subst replace_all.simps) (auto simp: sublist_Cons_right)
qed

lemma replace_all_char_notin:
  "d \<notin> set r \<Longrightarrow> d \<notin> set (replace_all [d] r s)"
proof (induction s)
  case Nil
  then show ?case by (simp add: replace_all.simps)
next
  case (Cons c s)
  then show ?case by (subst replace_all.simps) auto
qed

text \<open>\<^verbatim>\<open>std::string::c_str\<close> as the functions of C read it: up to the first byte 0.\<close>

definition c_str :: "string \<Rightarrow> string" where
  "c_str s = takeWhile (\<lambda>c. code c \<noteq> 0) s"

section \<open>Numbers on streams\<close>

text \<open>\<^verbatim>\<open>stringstream << int\<close> and \<^verbatim>\<open>stringstream >> int\<close>. The latter skips white space, reads
  an optional sign and digits, leaves 0 when there is no digit and saturates at the ends of the
  32-bit range (libstdc++ 4.5, \<^verbatim>\<open>locale_facets.tcc\<close>).\<close>

fun show_nat :: "nat \<Rightarrow> string" where
  "show_nat n =
    (if n < 10 then [char_of (48 + n)] else show_nat (n div 10) @ [char_of (48 + n mod 10)])"

declare show_nat.simps [simp del]

definition show_int :: "int \<Rightarrow> string" where
  "show_int i = (if i < 0 then CHR ''-'' # show_nat (nat (- i)) else show_nat (nat i))"

definition digits_val :: "string \<Rightarrow> nat" where
  "digits_val ds = foldl (\<lambda>n c. 10 * n + (code c - 48)) 0 ds"

definition int_max :: int where
  "int_max = 2147483647"

definition int_min :: int where
  "int_min = - 2147483648"

definition stream_int :: "string \<Rightarrow> int" where
  "stream_int s =
    (let t = dropWhile is_space s;
         neg = (case t of c # _ \<Rightarrow> c = CHR ''-'' | [] \<Rightarrow> False);
         u = (case t of c # t' \<Rightarrow> if c = CHR ''-'' \<or> c = CHR ''+'' then t' else t | [] \<Rightarrow> []);
         n = int (digits_val (takeWhile is_digit u))
     in if neg then max int_min (- n) else min int_max n)"

text \<open>A number that is stored in a \<^verbatim>\<open>short\<close> wraps at 16 bits.\<close>

definition as_short :: "int \<Rightarrow> int" where
  "as_short i = (i + 32768) mod 65536 - 32768"

lemma show_nat_digits: "c \<in> set (show_nat n) \<Longrightarrow> is_digit c"
proof (induction n rule: show_nat.induct)
  case (1 n)
  show ?case
  proof (cases "n < 10")
    case True
    with 1 show ?thesis by (simp add: show_nat.simps [of n] is_digit_def code_char_of)
  next
    case False
    have "n mod 10 < 10" by simp
    then have "48 + n mod 10 < 256" "n mod 10 \<le> 9" by linarith+
    then have "is_digit (char_of (48 + n mod 10))"
      by (simp add: is_digit_def code_char_of)
    with False 1 show ?thesis by (auto simp: show_nat.simps [of n])
  qed
qed

lemma show_nat_not_Nil [simp]: "show_nat n \<noteq> []"
  by (subst show_nat.simps) simp

lemma digits_val_show_nat: "digits_val (show_nat n) = n"
proof (induction n rule: show_nat.induct)
  case (1 n)
  show ?case
  proof (cases "n < 10")
    case True
    then show ?thesis by (simp add: show_nat.simps [of n] digits_val_def code_char_of)
  next
    case False
    have "n mod 10 < 10" by simp
    then have "48 + n mod 10 < 256" by linarith
    with False 1 show ?thesis
      by (simp add: show_nat.simps [of n] digits_val_def code_char_of)
  qed
qed

lemma is_digit_not: "is_digit c \<Longrightarrow> \<not> is_space c \<and> c \<noteq> CHR ''-'' \<and> c \<noteq> CHR ''+'' \<and> c \<noteq> CHR ''/''"
  by (auto simp: is_digit_def is_space_def code_def)

lemma stream_int_show_nat:
  assumes "int n \<le> int_max"
  shows "stream_int (show_nat n) = int n"
proof -
  obtain c ds where s: "show_nat n = c # ds" by (cases "show_nat n") auto
  then have "is_digit c" using show_nat_digits [of c n] by simp
  then have "\<not> is_space c" "c \<noteq> CHR ''-''" "c \<noteq> CHR ''+''"
    by (simp_all add: is_digit_not)
  moreover have "takeWhile is_digit (show_nat n) = show_nat n"
    by (rule takeWhile_eq_all_conv [THEN iffD2]) (auto dest: show_nat_digits)
  ultimately show ?thesis
    using assms by (simp add: stream_int_def s Let_def) (simp add: s [symmetric] digits_val_show_nat)
qed

lemma stream_int_bounds: "int_min \<le> stream_int s \<and> stream_int s \<le> int_max"
  by (auto simp: stream_int_def Let_def int_min_def int_max_def)

lemma stream_int_digits: "s \<noteq> [] \<Longrightarrow> \<forall>c \<in> set s. is_digit c \<Longrightarrow> 0 \<le> stream_int s"
  by (cases s) (auto simp: stream_int_def Let_def int_max_def is_digit_not)

section \<open>Hashed containers\<close>

text \<open>
  \<^verbatim>\<open>boost::unordered_map\<close> and \<^verbatim>\<open>unordered_multimap\<close> with string keys: the entries in the order
  in which they were inserted. \<^verbatim>\<open>insert\<close> on a map keeps the entry that is there
  (\<^term>\<open>um_insert\<close>); equal keys of a multimap stay in insertion order
  (\<^verbatim>\<open>add_after_node\<close>, \<^verbatim>\<open>unordered/detail/equivalent.hpp\<close>), and a loop over the container visits
  the groups of equal keys in an order that depends on the hash function and is not specified:
  a parameter \<open>ord\<close>, which gets the keys in insertion order.
\<close>

type_synonym 'v hmap = "(string \<times> 'v) list"

type_synonym hash_order = "string list \<Rightarrow> string list"

definition um_find :: "'v hmap \<Rightarrow> string \<Rightarrow> 'v option" where
  "um_find m k = map_of m k"

definition um_insert :: "string \<Rightarrow> 'v \<Rightarrow> 'v hmap \<Rightarrow> 'v hmap" where
  "um_insert k v m = (case um_find m k of None \<Rightarrow> m @ [(k, v)] | Some _ \<Rightarrow> m)"

definition um_erase :: "string \<Rightarrow> 'v hmap \<Rightarrow> 'v hmap" where
  "um_erase k m = filter (\<lambda>e. fst e \<noteq> k) m"

definition um_set :: "string \<Rightarrow> 'v \<Rightarrow> 'v hmap \<Rightarrow> 'v hmap" where
  "um_set k v m =
    (if um_find m k = None then m @ [(k, v)]
     else map (\<lambda>e. if fst e = k then (k, v) else e) m)"

definition mm_insert :: "string \<Rightarrow> 'v \<Rightarrow> 'v hmap \<Rightarrow> 'v hmap" where
  "mm_insert k v m = m @ [(k, v)]"

definition mm_range :: "string \<Rightarrow> 'v hmap \<Rightarrow> 'v list" where
  "mm_range k m = map snd (filter (\<lambda>e. fst e = k) m)"

definition iterate :: "hash_order \<Rightarrow> 'v hmap \<Rightarrow> (string \<times> 'v) list" where
  "iterate ord m = concat (map (\<lambda>k. map (Pair k) (mm_range k m)) (ord (map fst m)))"

definition good_order :: "hash_order \<Rightarrow> bool" where
  "good_order ord \<longleftrightarrow> (\<forall>ks. distinct (ord ks) \<and> set (ord ks) = set ks)"

lemma good_order_remdups: "good_order remdups"
  by (simp add: good_order_def)

lemma good_order_rev: "good_order (rev \<circ> remdups)"
  by (simp add: good_order_def)

lemma um_find_insert:
  "um_find (um_insert k v m) k' = (if k = k' \<and> um_find m k = None then Some v else um_find m k')"
  by (auto simp: um_find_def um_insert_def map_add_def split: option.splits)

lemma um_find_Nil [simp]: "um_find [] k = None"
  by (simp add: um_find_def)

lemma set_um_insert: "set (um_insert k v m) \<subseteq> insert (k, v) (set m)"
  by (auto simp: um_insert_def split: option.splits)

lemma um_find_in_set: "um_find m k = Some v \<Longrightarrow> (k, v) \<in> set m"
  by (simp add: um_find_def map_of_SomeD)

lemma mm_range_insert [simp]:
  "mm_range k (mm_insert k' v m) = (if k = k' then mm_range k m @ [v] else mm_range k m)"
  by (simp add: mm_range_def mm_insert_def)

lemma set_mm_range: "set (mm_range k m) = {v. (k, v) \<in> set m}"
  by (force simp: mm_range_def)

lemma set_iterate: "good_order ord \<Longrightarrow> set (iterate ord m) = set m"
  by (force simp: iterate_def good_order_def set_mm_range)


lemma fold_invariant: "(\<And>x s. x \<in> set xs \<Longrightarrow> P s \<Longrightarrow> P (f x s)) \<Longrightarrow> P s \<Longrightarrow> P (fold f xs s)"
  by (induction xs arbitrary: s) auto

lemma keys_um_set: "fst ` set (um_set k v m) \<subseteq> insert k (fst ` set m)"
proof (cases "um_find m k")
  case None
  then show ?thesis by (simp add: um_set_def)
next
  case (Some w)
  then show ?thesis by (auto simp: um_set_def)
qed

lemma map_of_mm_range: "map_of m k = (case mm_range k m of [] \<Rightarrow> None | v # _ \<Rightarrow> Some v)"
  by (induction m) (auto simp: mm_range_def)

lemma map_of_groups:
  "distinct ks \<Longrightarrow> map_of (concat (map (\<lambda>k. map (Pair k) (f k)) ks)) k =
    (if k \<in> set ks then (case f k of [] \<Rightarrow> None | v # _ \<Rightarrow> Some v) else None)"
proof (induction ks)
  case Nil
  then show ?case by simp
next
  case (Cons j ks)
  have "map_of (map (Pair j) vs) k = (if j = k then (case vs of [] \<Rightarrow> None | v # _ \<Rightarrow> Some v) else None)" for vs :: "'b list"
    by (cases vs) (auto simp: map_of_eq_None_iff)
  with Cons show ?case by (auto simp: map_add_def split: option.splits list.splits)
qed

lemma map_of_iterate: "good_order ord \<Longrightarrow> map_of (iterate ord m) = map_of m"
proof (rule ext)
  fix k
  assume "good_order ord"
  then have o: "distinct (ord (map fst m))" "set (ord (map fst m)) = fst ` set m"
    by (simp_all add: good_order_def)
  show "map_of (iterate ord m) k = map_of m k"
    unfolding iterate_def map_of_groups [OF o(1)] o(2) map_of_mm_range [symmetric]
    using map_of_eq_None_iff [of m k] by auto
qed

lemma set_fold_um_insert:
  "set (fold (\<lambda>(k, v). um_insert k v) es m) \<subseteq> set m \<union> set es"
proof (induction es arbitrary: m)
  case Nil
  then show ?case by simp
next
  case (Cons e es)
  obtain k v where e: "e = (k, v)" by (cases e)
  show ?case using Cons [of "um_insert k v m"] set_um_insert [of k v m] by (auto simp: e)
qed

lemma concat_map_concat_map:
  "concat (map f (concat (map g xs))) = concat (map (\<lambda>x. concat (map f (g x))) xs)"
  by (induction xs) auto

lemma concat_concat_map: "concat (concat (map f xs)) = concat (map (\<lambda>x. concat (f x)) xs)"
  by (induction xs) auto

text \<open>The contract of a table to which entries are only added and where the first entry of a key
  stays: the symbol table of the grammar and the dictionaries of the tagger.\<close>

locale insert_only =
  fixes look :: "'t \<Rightarrow> 'k \<Rightarrow> 'v option"
    and ins :: "'k \<Rightarrow> 'v \<Rightarrow> 't \<Rightarrow> 't"
  assumes look_ins: "look (ins k v t) k' = (if k = k' \<and> look t k = None then Some v else look t k')"
begin

lemma look_ins_same: "look t k = Some w \<Longrightarrow> look (ins k v t) k = Some w"
  by (simp add: look_ins)

lemma look_ins_new: "look t k = None \<Longrightarrow> look (ins k v t) k = Some v"
  by (simp add: look_ins)

lemma look_ins_other: "k \<noteq> k' \<Longrightarrow> look (ins k v t) k' = look t k'"
  by (simp add: look_ins)

lemma look_mono: "look t k' = Some w \<Longrightarrow> look (ins k v t) k' = Some w"
  by (auto simp: look_ins)

lemma look_fold_mono: "look t k = Some w \<Longrightarrow> look (fold (\<lambda>(k, v). ins k v) es t) k = Some w"
  by (induction es arbitrary: t) (auto simp: look_mono)

lemma look_fold:
  "look (fold (\<lambda>(k, v). ins k v) es t) k = (case look t k of Some w \<Rightarrow> Some w | None \<Rightarrow> map_of es k)"
proof (induction es arbitrary: t)
  case Nil
  then show ?case by (simp split: option.splits)
next
  case (Cons e es)
  then show ?case by (cases e) (auto simp: look_ins split: option.splits)
qed

lemma look_fold_dom:
  "look (fold (\<lambda>(k, v). ins k v) es t) k = None \<longleftrightarrow> look t k = None \<and> k \<notin> fst ` set es"
  by (auto simp: look_fold map_of_eq_None_iff split: option.splits)

end

interpretation um: insert_only um_find um_insert
  by unfold_locales (simp add: um_find_insert)

lemma um_find_collect:
  "good_order ord \<Longrightarrow> um_find (fold (\<lambda>(k, v). um_insert k v) (iterate ord m) []) k = um_find m k"
proof -
  assume o: "good_order ord"
  then show ?thesis
    by (simp add: um.look_fold [of "iterate ord m" "[]"] map_of_iterate) (simp add: um_find_def)
qed

text \<open>The contract of a table where a new entry replaces the old one: the hashed maps written with
  \<^verbatim>\<open>operator[]\<close>, and the files on the disk.\<close>

locale overwriting =
  fixes look :: "'t \<Rightarrow> 'k \<Rightarrow> 'v option"
    and put :: "'k \<Rightarrow> 'v \<Rightarrow> 't \<Rightarrow> 't"
  assumes look_put: "look (put k v t) k' = (if k = k' then Some v else look t k')"
begin

lemma look_put_same: "look (put k v t) k = Some v"
  by (simp add: look_put)

lemma look_put_other: "k \<noteq> k' \<Longrightarrow> look (put k v t) k' = look t k'"
  by (simp add: look_put)

lemma look_fold_put_other:
  "k \<notin> fst ` set es \<Longrightarrow> look (fold (\<lambda>(k, v). put k v) es t) k = look t k"
  by (induction es arbitrary: t) (auto simp: look_put)

lemma look_fold_put:
  "distinct (map fst es) \<Longrightarrow> (k, v) \<in> set es \<Longrightarrow> look (fold (\<lambda>(k, v). put k v) es t) k = Some v"
proof (induction es arbitrary: t)
  case (Cons e es)
  obtain j w where e: "e = (j, w)" by (cases e)
  show ?case
  proof (cases "(k, v) = e")
    case True
    then have "k \<notin> fst ` set es" using Cons.prems(1) e by auto
    then show ?thesis using True e by (simp add: look_fold_put_other look_put)
  next
    case False
    then show ?thesis using Cons e by auto
  qed
qed simp

end

lemma um_find_um_set: "um_find (um_set k v m) k' = (if k = k' then Some v else um_find m k')"
proof (cases "um_find m k")
  case None
  then show ?thesis by (auto simp: um_set_def um_find_def map_add_def split: option.splits)
next
  case (Some w)
  have "map_of (map (\<lambda>e. if fst e = k then (k, v) else e) m) k'
      = (if k = k' \<and> map_of m k \<noteq> None then Some v else map_of m k')" for m :: "(string \<times> 'a) list"
    by (induction m) auto
  then show ?thesis using Some by (auto simp: um_set_def um_find_def)
qed

interpretation uo: overwriting um_find um_set
  by unfold_locales (rule um_find_um_set)

text \<open>Adding to a set that is kept as a list without repetitions.\<close>

definition set_add :: "'a \<Rightarrow> 'a list \<Rightarrow> 'a list" where
  "set_add x xs = (if x \<in> set xs then xs else xs @ [x])"

lemma set_set_add [simp]: "set (set_add x xs) = insert x (set xs)"
  by (auto simp: set_add_def)

lemma set_fold_set_add [simp]: "set (fold set_add ys xs) = set xs \<union> set ys"
  by (induction ys arbitrary: xs) auto

end
