(* ===== verification/Util2012.thy ===== *)
theory Util2012
  imports Prelude
begin

text \<open>
  \<^verbatim>\<open>hal2012-util2012.cpp\<close>: case conversion, line splitting, the debug printer of string vectors,
  the wrappers around \<^verbatim>\<open>boost::regex\<close> and the base class \<^verbatim>\<open>freehal_base\<close> with the settings
  that grammar, tagger, parser and database share.

  The regular expression engine is a parameter (\<^verbatim>\<open>rx\<close>): patterns come from the sources and
  from data files, and the engine is not code of the repository. Its three fields are what the
  wrappers ask of it. Files are not modelled here: the operations that read a file take its text.
\<close>

section \<open>Strings\<close>

definition is_invalid_char :: "char \<Rightarrow> bool" where
  "is_invalid_char c = (\<not> code c < 128)"

definition to_ascii :: "string \<Rightarrow> string" where
  "to_ascii s = filter (\<lambda>c. \<not> is_invalid_char c) s"

definition lc :: "string \<Rightarrow> string" where
  "lc s = map tolower s"

definition uc :: "string \<Rightarrow> string" where
  "uc s = map toupper s"

definition lcfirst :: "string \<Rightarrow> string" where
  "lcfirst s = (case s of [] \<Rightarrow> [] | c # t \<Rightarrow> tolower c # t)"

definition ucfirst :: "string \<Rightarrow> string" where
  "ucfirst s = (case lc s of [] \<Rightarrow> [] | c # t \<Rightarrow> toupper c # t)"

definition is_lower :: "string \<Rightarrow> bool" where
  "is_lower s = (lc s = s)"

definition str_replace :: "string \<Rightarrow> string \<Rightarrow> string \<Rightarrow> string" where
  "str_replace s f r = replace_all f r s"

definition print_strings :: "string list \<Rightarrow> string" where
  "print_strings v = ''['' @ join '', '' (map (\<lambda>w. quote # w @ [quote]) v) @ '']''"

text \<open>\<^verbatim>\<open>getline\<close> until it fails: at the end of the text there is no further line, so a text
  that ends in a line break has no empty last line.\<close>

function split_lines :: "string \<Rightarrow> string list" where
  "split_lines s =
    (if s = [] then []
     else takeWhile (\<lambda>c. c \<noteq> newline) s
          # split_lines (drop 1 (dropWhile (\<lambda>c. c \<noteq> newline) s)))"
  by pat_completeness auto
termination
proof (relation "measure length", goal_cases)
  case 1
  then show ?case by simp
next
  case (2 s)
  have "length (dropWhile (\<lambda>c. c \<noteq> newline) s) \<le> length s" by (rule length_dropWhile_le)
  moreover have "s = [] \<or> length (drop 1 (dropWhile (\<lambda>c. c \<noteq> newline) s)) < length s"
  proof (cases "dropWhile (\<lambda>c. c \<noteq> newline) s")
    case Nil
    then have "length (drop 1 (dropWhile (\<lambda>c. c \<noteq> newline) s)) = 0"
      by (simp only: Nil drop_Nil list.size)
    then show ?thesis by (cases s) simp_all
  next
    case (Cons c t)
    with calculation show ?thesis by simp
  qed
  ultimately show ?case using 2 by simp
qed

declare split_lines.simps [simp del]

section \<open>Regular expressions\<close>

text \<open>\<open>rx_valid e\<close>: the pattern compiles; \<open>rx_search icase e s\<close>: the captures of the first match,
  the whole match first; \<open>rx_subst icase e r s\<close>: \<^verbatim>\<open>regex_replace\<close> with \<^verbatim>\<open>format_perl\<close>.\<close>

record rx =
  rx_valid :: "string \<Rightarrow> bool"
  rx_search :: "bool \<Rightarrow> string \<Rightarrow> string \<Rightarrow> string list option"
  rx_subst :: "bool \<Rightarrow> string \<Rightarrow> string \<Rightarrow> string \<Rightarrow> string"

text \<open>Patterns and replacements are written with a percent sign for every backslash; the sources use no
  percent sign in them.\<close>

definition pattern :: "string \<Rightarrow> string" where
  "pattern s = map (\<lambda>c. if c = CHR ''%'' then CHR 0x5C else c) s"

datatype rx_error = Regex_error string

definition regex_find :: "rx \<Rightarrow> string \<Rightarrow> string \<Rightarrow> bool" where
  "regex_find r s e = (if rx_valid r e then rx_search r False e s \<noteq> None else False)"

definition regex_ifind :: "rx \<Rightarrow> string \<Rightarrow> string \<Rightarrow> bool" where
  "regex_ifind r s e = (if rx_valid r e then rx_search r True e s \<noteq> None else False)"

text \<open>The two overloads with a match object compile the pattern a first time outside the
  \<^verbatim>\<open>try\<close> block, so an invalid pattern is thrown to the caller.\<close>

definition regex_find_m :: "rx \<Rightarrow> string \<Rightarrow> string \<Rightarrow> rx_error + string list option" where
  "regex_find_m r s e =
    (if rx_valid r e then Inr (rx_search r False e s) else Inl (Regex_error e))"

definition regex_ifind_m :: "rx \<Rightarrow> string \<Rightarrow> string \<Rightarrow> rx_error + string list option" where
  "regex_ifind_m r s e =
    (if rx_valid r e then Inr (rx_search r True e s) else Inl (Regex_error e))"

definition regex_replace :: "rx \<Rightarrow> string \<Rightarrow> string \<Rightarrow> string \<Rightarrow> string" where
  "regex_replace r s e repl = (if rx_valid r e then rx_subst r False e repl s else s)"

definition regex_ireplace :: "rx \<Rightarrow> string \<Rightarrow> string \<Rightarrow> string \<Rightarrow> string" where
  "regex_ireplace r s e repl = (if rx_valid r e then rx_subst r True e repl s else s)"

section \<open>The base class\<close>

record freehal_base =
  verbose :: bool
  buffered :: bool
  lang :: string
  path :: string

definition freehal_base_new :: freehal_base where
  "freehal_base_new = \<lparr>verbose = True, buffered = False, lang = [], path = []\<rparr>"

definition set_verbose :: "bool \<Rightarrow> 'a freehal_base_scheme \<Rightarrow> 'a freehal_base_scheme" where
  "set_verbose v b = b\<lparr>verbose := v\<rparr>"

definition is_verbose :: "'a freehal_base_scheme \<Rightarrow> bool" where
  "is_verbose b = verbose b"

definition set_buffered :: "bool \<Rightarrow> 'a freehal_base_scheme \<Rightarrow> 'a freehal_base_scheme" where
  "set_buffered v b = b\<lparr>buffered := v\<rparr>"

definition is_buffered :: "'a freehal_base_scheme \<Rightarrow> bool" where
  "is_buffered b = buffered b"

definition set_lang :: "string \<Rightarrow> 'a freehal_base_scheme \<Rightarrow> 'a freehal_base_scheme" where
  "set_lang l b = b\<lparr>lang := l\<rparr>"

definition set_path :: "string \<Rightarrow> 'a freehal_base_scheme \<Rightarrow> 'a freehal_base_scheme" where
  "set_path p b = b\<lparr>path := p\<rparr>"

text \<open>\<^verbatim>\<open>fs::path::operator/\<close> with a relative right operand: one separator is added unless the
  left operand is empty or ends with one.\<close>

definition path_append :: "string \<Rightarrow> string \<Rightarrow> string" where
  "path_append p q = (if p = [] \<or> last p = CHR ''/'' then p @ q else p @ CHR ''/'' # q)"

definition get_language_directory :: "'a freehal_base_scheme \<Rightarrow> string" where
  "get_language_directory b = (if path b = [] then [] else path_append (path b) (''lang_'' @ lang b))"

definition get_cache_directory :: "'a freehal_base_scheme \<Rightarrow> string" where
  "get_cache_directory b = (if path b = [] then [] else path_append (path b) (''cache_'' @ lang b))"

definition is_configured :: "'a freehal_base_scheme \<Rightarrow> bool" where
  "is_configured b = (if lang b = [] then False else if path b = [] then False else True)"

section \<open>Lemmas\<close>

lemma lc_idem [simp]: "lc (lc s) = lc s"
  by (simp add: lc_def tolower_idem)

lemma lc_append [simp]: "lc (s @ t) = lc s @ lc t"
  by (simp add: lc_def)

lemma lc_Nil_iff [simp]: "lc s = [] \<longleftrightarrow> s = []"
  by (simp add: lc_def)

lemma length_lc [simp]: "length (lc s) = length s"
  by (simp add: lc_def)

lemma is_lower_lc [simp]: "is_lower (lc s)"
  by (simp add: is_lower_def)

lemma tolower_toupper_tolower: "tolower (toupper (tolower c)) = tolower c"
proof (cases "is_alpha (tolower c)")
  case True
  then show ?thesis using toupper_tolower [of "tolower c"] by (simp add: tolower_idem)
next
  case False
  then show ?thesis by (simp add: is_alpha_def toupper_def tolower_idem)
qed

lemma lc_ucfirst: "lc (ucfirst s) = lc s"
  by (cases s) (simp_all add: ucfirst_def lc_def tolower_toupper_tolower tolower_idem)

lemma to_ascii_idem [simp]: "to_ascii (to_ascii s) = to_ascii s"
  by (simp add: to_ascii_def)

lemma split_lines_Nil [simp]: "split_lines [] = []"
  by (simp add: split_lines.simps)

lemma split_lines_line:
  "\<forall>c \<in> set l. c \<noteq> newline \<Longrightarrow> split_lines (l @ newline # s) = l # split_lines s"
  by (subst split_lines.simps) (simp add: takeWhile_append2 dropWhile_append2)

lemma split_lines_unlines:
  "\<forall>l \<in> set ls. newline \<notin> set l \<Longrightarrow> split_lines (concat (map (\<lambda>l. l @ [newline]) ls)) = ls"
proof (induction ls)
  case Nil
  then show ?case by simp
next
  case (Cons l ls)
  then have "\<forall>c \<in> set l. c \<noteq> newline" by auto
  with Cons show ?case by (simp add: split_lines_line)
qed

lemma split_lines_append: "s = [] \<or> last s = newline \<Longrightarrow> split_lines (s @ t) = split_lines s @ split_lines t"
proof (induction s rule: split_lines.induct)
  case (1 s)
  show ?case
  proof (cases "s = []")
    case False
    then have "newline \<in> set s" using 1(2) last_in_set [of s] by auto
    then obtain l r where s: "s = l @ newline # r" "newline \<notin> set l" by (meson split_list_first)
    then have l: "\<forall>c \<in> set l. c \<noteq> newline" by auto
    have "r = [] \<or> last r = newline" using 1(2) s by (auto split: if_splits)
    moreover have "drop 1 (dropWhile (\<lambda>c. c \<noteq> newline) s) = r" using s l by (simp add: dropWhile_append2)
    ultimately have "split_lines (r @ t) = split_lines r @ split_lines t" using 1(1) False by simp
    then show ?thesis using s split_lines_line [OF l] by simp
  qed simp
qed

lemma split_lines_no_newline: "l \<in> set (split_lines s) \<Longrightarrow> newline \<notin> set l"
proof (induction s rule: split_lines.induct)
  case (1 s)
  then show ?case
    by (subst (asm) (2) split_lines.simps) (auto split: if_splits dest: set_takeWhileD)
qed

end
