(* ===== verification/Entity.thy ===== *)
theory Entity
  imports Util2012
begin

text \<open>
  Class \<^verbatim>\<open>entity\<close> of \<^verbatim>\<open>hal2012-grammar2012.cpp\<close>: the symbols of the grammar and the nodes
  of the parse trees. An entity is written as \<^verbatim>\<open>/\<close>-separated parts: one head, which is a
  terminal (\<^verbatim>\<open>d-\<close>), a non-terminal (\<^verbatim>\<open>s-\<close>) or a symbol that is replaced when the grammar
  is expanded (\<^verbatim>\<open>r-\<close>), a number that orders the rules, and virtual markers (\<^verbatim>\<open>v-\<close>).
  Entities are shared through pointers and only changed before they are shared, so they are
  values here.

  The lemmas give the invariant of the class (\<open>wf_entity\<close>), the round trip between \<^verbatim>\<open>to_str\<close>
  and \<^verbatim>\<open>init\<close>, and what \<^verbatim>\<open>add\<close> does to a key.
\<close>

section \<open>Data and operations\<close>

datatype entity =
  Entity (data: string) (symbol: string) (repl: string) (virt: "string list")
         (etext: string) (embed: "entity list") (eorder: int)

type_synonym entities = "entity list"

text \<open>The expression \<^verbatim>\<open>^([0-9]+)$\<close> of \<^verbatim>\<open>init\<close>. The engine lets \<^verbatim>\<open>^\<close> and \<^verbatim>\<open>$\<close> match at line
  separators too (\<^verbatim>\<open>perl_matcher_common.hpp\<close>), so one line of digits is enough.\<close>

definition is_separator :: "char \<Rightarrow> bool" where
  "is_separator c \<longleftrightarrow> code c = 10 \<or> code c = 12 \<or> code c = 13"

definition is_order_text :: "string \<Rightarrow> bool" where
  "is_order_text s \<longleftrightarrow> (\<exists>l \<in> set (split is_separator s). l \<noteq> [] \<and> (\<forall>c \<in> set l. is_digit c))"

fun init_part :: "entity \<Rightarrow> string \<Rightarrow> entity" where
  "init_part (Entity d s r v t em n) p =
    (if p = [] \<or> p = ''null'' then Entity d s r v t em n
     else if is_order_text p then Entity d s r v t em (stream_int p)
     else if s = [] \<and> r = [] \<and> d = [] then
       (if starts_with p ''s-'' then Entity d p r v t em n
        else if starts_with p ''r-'' then Entity d s p v t em n
        else if starts_with p ''d-'' then Entity p s r v t em n
        else Entity d s r (v @ [p]) t em n)
     else if starts_with p ''r-'' then Entity d s r v t em n
     else Entity d s r (v @ [p]) t em n)"

definition init :: "entity \<Rightarrow> string \<Rightarrow> entity" where
  "init e txt = foldl init_part e (split (is_any_of ''/'') txt)"

definition new_entity :: "string \<Rightarrow> entities \<Rightarrow> entity" where
  "new_entity txt em = init (Entity [] [] [] [] [] em (-1)) txt"

definition set_text :: "string \<Rightarrow> entity \<Rightarrow> entity" where
  "set_text txt e = Entity (data e) (symbol e) (repl e) (virt e) txt (embed e) (eorder e)"

definition to_key :: "entity \<Rightarrow> string" where
  "to_key e =
    (if data e \<noteq> [] then data e
     else if symbol e \<noteq> [] then symbol e
     else if repl e \<noteq> [] then repl e
     else ''null'')
    @ (if 0 \<le> eorder e then CHR ''/'' # show_int (eorder e) else [])"

definition slashed :: "string list \<Rightarrow> string" where
  "slashed v = concat (map (\<lambda>w. CHR ''/'' # w) v)"

lemma size_embed [termination_simp]:
  assumes "x \<in> set (embed e)"
  shows "size x < size e"
proof (cases e)
  case (Entity d s r v t em n)
  with assms have "size x \<le> size_list size em" by (auto intro: size_list_estimation')
  then show ?thesis by (simp add: Entity)
qed

fun to_str :: "entity \<Rightarrow> string" where
  "to_str e =
    to_key e @ slashed (virt e)
    @ (if embed e \<noteq> [] then '' < '' @ join '', '' (map to_str (embed e)) @ '' > '' else [])"

fun print :: "entity \<Rightarrow> string" where
  "print e =
    to_key e @ slashed (virt e)
    @ (if etext e \<noteq> [] then '': '' @ [CHR 0x27] @ etext e @ [CHR 0x27] else [])
    @ (if embed e \<noteq> [] then '' < '' @ join '', '' (map print (embed e)) @ '' > '' else [])"

fun print_long :: "string \<Rightarrow> entity \<Rightarrow> string" where
  "print_long left e =
    left @ to_key e @ slashed (virt e)
    @ (if embed e \<noteq> [] then '':'' @ [newline] @ concat (map (print_long (left @ ''  '')) (embed e))
       else '': '' @ [CHR 0x27] @ etext e @ [CHR 0x27, newline])"

declare to_str.simps [simp del] print.simps [simp del] print_long.simps [simp del]

definition print_entity :: "entity \<Rightarrow> string" where
  "print_entity e = ''{'' @ print e @ ''}''"

definition print_entities :: "entities \<Rightarrow> string" where
  "print_entities es = ''['' @ join '', '' (map print es) @ '']''"

text \<open>\<^verbatim>\<open>type()\<close> returns the letter of the head, or the null character for an empty entity.\<close>

definition type_of :: "entity \<Rightarrow> char" where
  "type_of e =
    (if data e = [] then
       (if symbol e = [] then
          (if repl e = [] then (if virt e = [] then CHR 0x00 else CHR ''v'') else CHR ''r'')
        else CHR ''s'')
     else CHR ''d'')"

definition get_marker :: "entity \<Rightarrow> string list" where
  "get_marker e = (if virt e \<noteq> [] then virt e else [to_str e])"

definition get_order :: "entity \<Rightarrow> int" where
  "get_order e = (if 0 \<le> eorder e then eorder e else 1)"

text \<open>\<^verbatim>\<open>modify_symbol\<close> up to the registration of the copy: a copy of the entity, extended by the
  markers.\<close>

definition modified :: "entity \<Rightarrow> string list \<Rightarrow> entity" where
  "modified e markers = init e (slashed markers)"


section \<open>The invariant\<close>

text \<open>What \<^verbatim>\<open>init\<close> guarantees: at most one head, with the letter of its field, and no part that
  could be read back as something else.\<close>

definition plain_part :: "string \<Rightarrow> bool" where
  "plain_part p \<longleftrightarrow> CHR ''/'' \<notin> set p \<and> p \<noteq> [] \<and> p \<noteq> ''null'' \<and> \<not> is_order_text p"

definition head_of :: "entity \<Rightarrow> string" where
  "head_of e = (if data e \<noteq> [] then data e else if symbol e \<noteq> [] then symbol e else repl e)"

definition wf_head :: "entity \<Rightarrow> bool" where
  "wf_head e \<longleftrightarrow>
    (data e \<noteq> [] \<longrightarrow> symbol e = [] \<and> repl e = [] \<and> starts_with (data e) ''d-'' \<and> plain_part (data e))
  \<and> (symbol e \<noteq> [] \<longrightarrow> data e = [] \<and> repl e = [] \<and> starts_with (symbol e) ''s-'' \<and> plain_part (symbol e))
  \<and> (repl e \<noteq> [] \<longrightarrow> data e = [] \<and> symbol e = [] \<and> starts_with (repl e) ''r-'' \<and> plain_part (repl e))"

definition wf_virt :: "entity \<Rightarrow> string \<Rightarrow> bool" where
  "wf_virt e w \<longleftrightarrow> plain_part w \<and> \<not> starts_with w ''r-''
    \<and> (head_of e = [] \<longrightarrow> \<not> starts_with w ''s-'' \<and> \<not> starts_with w ''d-'')"

definition wf_entity :: "entity \<Rightarrow> bool" where
  "wf_entity e \<longleftrightarrow>
    wf_head e \<and> (\<forall>w \<in> set (virt e). wf_virt e w) \<and> eorder e \<le> int_max"

lemma is_separator_not: "is_digit c \<Longrightarrow> \<not> is_separator c"
  by (auto simp: is_digit_def is_separator_def)

lemma is_order_text_digits:
  "w \<noteq> [] \<Longrightarrow> \<forall>c \<in> set w. is_digit c \<Longrightarrow> is_order_text w"
  by (auto simp: is_order_text_def split_no_sep is_separator_not)

lemma is_order_text_show_nat: "is_order_text (show_nat n)"
  by (rule is_order_text_digits) (auto dest: show_nat_digits)

lemma not_order_text:
  "\<forall>c \<in> set w. \<not> is_separator c \<Longrightarrow> \<exists>c \<in> set w. \<not> is_digit c \<Longrightarrow> \<not> is_order_text w"
  by (auto simp: is_order_text_def split_no_sep)

lemma init_part_cases:
  obtains (skip) "init_part e p = e"
  | (order) "is_order_text p"
      "init_part e p = Entity (data e) (symbol e) (repl e) (virt e) (etext e) (embed e) (stream_int p)"
  | (symbol) "plain_part p \<or> CHR ''/'' \<in> set p" "head_of e = []" "starts_with p ''s-''"
      "init_part e p = Entity [] p [] (virt e) (etext e) (embed e) (eorder e)"
  | (repl) "plain_part p \<or> CHR ''/'' \<in> set p" "head_of e = []" "starts_with p ''r-''"
      "init_part e p = Entity [] [] p (virt e) (etext e) (embed e) (eorder e)"
  | (data) "plain_part p \<or> CHR ''/'' \<in> set p" "head_of e = []" "starts_with p ''d-''"
      "init_part e p = Entity p [] [] (virt e) (etext e) (embed e) (eorder e)"
  | (virt) "plain_part p \<or> CHR ''/'' \<in> set p" "\<not> starts_with p ''r-''"
      "head_of e = [] \<longrightarrow> \<not> starts_with p ''s-'' \<and> \<not> starts_with p ''d-''"
      "init_part e p = Entity (data e) (symbol e) (repl e) (virt e @ [p]) (etext e) (embed e) (eorder e)"
proof (cases e)
  case (Entity d s r v t em n)
  show ?thesis
  proof (cases "p = [] \<or> p = ''null'' \<or> is_order_text p")
    case True
    then show ?thesis
      using skip order by (cases "p = [] \<or> p = ''null''") (auto simp: Entity)
  next
    case False
    then have pl: "plain_part p \<or> CHR ''/'' \<in> set p" by (auto simp: plain_part_def)
    show ?thesis
    proof (cases "s = [] \<and> r = [] \<and> d = []")
      case True
      then have h: "head_of e = []" by (simp add: head_of_def Entity)
      show ?thesis
        using False True symbol [OF pl h] repl [OF pl h] data [OF pl h] virt [OF pl]
        by (cases "starts_with p ''s-''"; cases "starts_with p ''r-''"; cases "starts_with p ''d-''")
          (simp_all add: Entity)
    next
      case notTrue: False
      then have "head_of e \<noteq> []" by (auto simp: head_of_def Entity)
      then show ?thesis
        using False notTrue skip virt [OF pl]
        by (cases "starts_with p ''r-''") (auto simp: Entity)
    qed
  qed
qed

lemma head_of_Nil: "head_of e = [] \<longleftrightarrow> data e = [] \<and> symbol e = [] \<and> repl e = []"
  by (auto simp: head_of_def)

lemma starts_with_not_Nil: "starts_with p (c # t) \<Longrightarrow> p \<noteq> []"
  by auto

lemma wf_head_new:
  assumes "plain_part p"
  shows "starts_with p ''s-'' \<Longrightarrow> wf_head (Entity [] p [] v t em n)"
    and "starts_with p ''r-'' \<Longrightarrow> wf_head (Entity [] [] p v t em n)"
    and "starts_with p ''d-'' \<Longrightarrow> wf_head (Entity p [] [] v t em n)"
  using assms by (simp_all add: wf_head_def)

lemma wf_virt_mono:
  "wf_virt e w \<Longrightarrow> head_of e = [] \<Longrightarrow> wf_virt e' w"
  by (simp add: wf_virt_def)

lemma wf_virt_head: "wf_virt e w \<Longrightarrow> head_of e' = head_of e \<Longrightarrow> wf_virt e' w"
  by (simp add: wf_virt_def)

lemma wf_entity_cong:
  assumes "wf_entity e" and eq: "data e' = data e" "symbol e' = symbol e" "repl e' = repl e"
    "virt e' = virt e" and "eorder e' \<le> int_max"
  shows "wf_entity e'"
proof -
  have h: "head_of e' = head_of e" by (simp only: head_of_def eq)
  have "wf_head e' = wf_head e" by (simp only: wf_head_def eq)
  moreover have "wf_virt e' w = wf_virt e w" for w by (simp only: wf_virt_def h)
  ultimately show ?thesis using assms(1,6) unfolding wf_entity_def eq by blast
qed

lemma wf_init_part:
  assumes e: "wf_entity e" and p: "CHR ''/'' \<notin> set p"
  shows "wf_entity (init_part e p)"
proof (cases rule: init_part_cases [of e p])
  case order
  with stream_int_bounds [of p] show ?thesis by (intro wf_entity_cong [OF e]) simp_all
next
  case symbol
  with e p show ?thesis by (auto simp: wf_entity_def intro: wf_head_new wf_virt_mono)
next
  case repl
  with e p show ?thesis by (auto simp: wf_entity_def intro: wf_head_new wf_virt_mono)
next
  case data
  with e p show ?thesis by (auto simp: wf_entity_def intro: wf_head_new wf_virt_mono)
next
  case virt
  let ?e = "init_part e p"
  have eq: "data ?e = data e" "symbol ?e = symbol e" "repl ?e = repl e" "eorder ?e = eorder e"
    "virt ?e = entity.virt e @ [p]"
    using virt by simp_all
  have h: "head_of ?e = head_of e" by (simp only: head_of_def eq)
  have "wf_virt e p" using virt p by (auto simp: wf_virt_def)
  moreover have "wf_head ?e = wf_head e" by (simp only: wf_head_def eq)
  moreover have "wf_virt ?e w = wf_virt e w" for w by (simp only: wf_virt_def h)
  ultimately show ?thesis using e unfolding wf_entity_def eq by auto
qed (use e in simp)

lemma wf_foldl_init_part:
  "wf_entity e \<Longrightarrow> \<forall>p \<in> set ps. CHR ''/'' \<notin> set p \<Longrightarrow> wf_entity (foldl init_part e ps)"
  by (induction ps arbitrary: e) (auto intro: wf_init_part)

lemma split_slash_parts: "p \<in> set (split (is_any_of ''/'') t) \<Longrightarrow> CHR ''/'' \<notin> set p"
  using split_token [of p "is_any_of ''/''" t "CHR ''/''"] by (auto simp: is_any_of_def)

lemma wf_init [inv_intros]: "wf_entity e \<Longrightarrow> wf_entity (init e t)"
  unfolding init_def by (rule wf_foldl_init_part) (auto dest: split_slash_parts)

lemma wf_new_entity [inv_intros]: "wf_entity (new_entity t em)"
  unfolding new_entity_def by (rule wf_init) (simp add: wf_entity_def wf_head_def int_max_def)

lemma wf_set_text [inv_intros]: "wf_entity e \<Longrightarrow> wf_entity (set_text t e)"
  by (rule wf_entity_cong [of e]) (simp_all add: set_text_def wf_entity_def)

lemma wf_modified [inv_intros]: "wf_entity e \<Longrightarrow> wf_entity (modified e ms)"
  unfolding modified_def by (rule wf_init)


section \<open>Reading back what was printed\<close>

definition parts_of :: "entity \<Rightarrow> string list" where
  "parts_of e =
    (if head_of e = [] then ''null'' else head_of e)
    # (if 0 \<le> eorder e then [show_int (eorder e)] else []) @ virt e"

definition add_virt :: "entity \<Rightarrow> string list \<Rightarrow> entity" where
  "add_virt e ws = Entity (data e) (symbol e) (repl e) (virt e @ ws) (etext e) (embed e) (eorder e)"

definition fresh :: "entities \<Rightarrow> entity" where
  "fresh em = Entity [] [] [] [] [] em (-1)"

lemma join_slash_Cons: "join ''/'' (w # ws) = w @ slashed ws"
  by (induction ws arbitrary: w) (auto simp: slashed_def)

lemma slashed_append: "slashed (v @ w) = slashed v @ slashed w"
  by (simp add: slashed_def)

lemma join_parts_of: "join ''/'' (parts_of e) = to_key e @ slashed (virt e)"
  unfolding parts_of_def join_slash_Cons
  by (simp add: to_key_def head_of_def slashed_def)

lemma plain_no_slash: "plain_part p \<Longrightarrow> CHR ''/'' \<notin> set p"
  by (simp add: plain_part_def)

lemma plain_head: "wf_entity e \<Longrightarrow> head_of e \<noteq> [] \<Longrightarrow> plain_part (head_of e)"
  unfolding wf_entity_def wf_head_def head_of_def by metis

lemma plain_virt: "wf_entity e \<Longrightarrow> w \<in> set (virt e) \<Longrightarrow> plain_part w"
  by (simp add: wf_entity_def wf_virt_def)

lemma show_int_nat: "0 \<le> i \<Longrightarrow> show_int i = show_nat (nat i)"
  by (simp add: show_int_def)

lemma show_int_no_slash: "0 \<le> i \<Longrightarrow> CHR ''/'' \<notin> set (show_int i)"
  using show_nat_digits is_digit_not by (fastforce simp: show_int_nat)

lemma parts_of_no_slash:
  assumes "wf_entity e" and "w \<in> set (parts_of e)"
  shows "CHR ''/'' \<notin> set w"
  using assms plain_no_slash [OF plain_head [OF assms(1)]] plain_no_slash [OF plain_virt [OF assms(1)]]
    show_int_no_slash
  by (auto simp: parts_of_def split: if_splits)

lemma split_parts_of:
  assumes "wf_entity e"
  shows "split (is_any_of ''/'') (to_key e @ slashed (virt e)) = parts_of e"
proof -
  have "split (is_any_of ''/'') (join [CHR ''/''] (parts_of e)) = parts_of e"
    using parts_of_no_slash [OF assms]
    by (intro split_join) (auto simp: is_any_of_def parts_of_def [of e])
  then show ?thesis by (simp add: join_parts_of)
qed

lemma init_part_skip [simp]: "init_part e [] = e" "init_part e ''null'' = e"
  by (cases e; simp)+

lemma init_part_order:
  "0 \<le> i \<Longrightarrow> i \<le> int_max \<Longrightarrow>
    init_part e (show_int i) = Entity (data e) (symbol e) (repl e) (virt e) (etext e) (embed e) i"
proof (cases e)
  case (Entity d s r v t em n)
  assume i: "0 \<le> i" "i \<le> int_max"
  have "show_nat (nat i) \<noteq> ''null''"
    using show_nat_digits [of "CHR ''n''" "nat i"] by (auto simp: is_digit_def code_def)
  then show ?thesis
    using i by (simp add: Entity show_int_nat is_order_text_show_nat stream_int_show_nat)
qed

lemma init_part_virt: "wf_virt e w \<Longrightarrow> init_part e w = add_virt e [w]"
  by (cases e) (auto simp: wf_virt_def plain_part_def head_of_Nil add_virt_def)

lemma add_virt_head [simp]: "head_of (add_virt e ws) = head_of e"
  by (simp add: head_of_def add_virt_def)

lemma foldl_init_part_virt:
  "\<forall>w \<in> set ws. wf_virt e w \<Longrightarrow> foldl init_part e ws = add_virt e ws"
proof (induction ws arbitrary: e)
  case Nil
  then show ?case by (simp add: add_virt_def)
next
  case (Cons w ws)
  have "\<forall>u \<in> set ws. wf_virt (add_virt e [w]) u"
    using Cons.prems wf_virt_head by fastforce
  then have "foldl init_part (add_virt e [w]) ws = add_virt (add_virt e [w]) ws" by (rule Cons.IH)
  with Cons.prems show ?case by (simp add: init_part_virt) (simp add: add_virt_def)
qed

lemma init_part_head:
  assumes "wf_entity e" and "head_of e \<noteq> []"
  shows "init_part (fresh em) (head_of e) = Entity (data e) (symbol e) (repl e) [] [] em (-1)"
proof -
  have p: "head_of e \<noteq> []" "head_of e \<noteq> ''null''" "\<not> is_order_text (head_of e)"
    using plain_head [OF assms] by (simp_all add: plain_part_def)
  have wf: "wf_head e" using assms(1) by (simp add: wf_entity_def)
  consider "data e \<noteq> []" | "data e = []" "symbol e \<noteq> []" | "data e = []" "symbol e = []" "repl e \<noteq> []"
    using assms(2) by (auto simp: head_of_def split: if_splits)
  then show ?thesis
  proof cases
    case 1
    with wf p show ?thesis
      by (auto simp: wf_head_def fresh_def head_of_def starts_with_iff)
  next
    case 2
    with wf p show ?thesis
      by (auto simp: wf_head_def fresh_def head_of_def starts_with_iff)
  next
    case 3
    with wf p show ?thesis
      by (auto simp: wf_head_def fresh_def head_of_def starts_with_iff)
  qed
qed

declare init_part.simps [simp del]

lemma new_entity_printed:
  assumes "wf_entity e"
  shows "new_entity (to_key e @ slashed (virt e)) em =
    Entity (data e) (symbol e) (repl e) (virt e) [] em (if 0 \<le> eorder e then eorder e else -1)"
proof -
  let ?h = "Entity (data e) (symbol e) (repl e) [] [] em (-1)"
  let ?o = "Entity (data e) (symbol e) (repl e) [] [] em (if 0 \<le> eorder e then eorder e else -1)"
  have h: "init_part (fresh em) (if head_of e = [] then ''null'' else head_of e) = ?h"
  proof (cases "head_of e = []")
    case True
    then show ?thesis by (simp add: fresh_def head_of_Nil)
  next
    case False
    then show ?thesis by (simp only: if_False init_part_head [OF assms False])
  qed
  have "eorder e \<le> int_max" using assms by (simp add: wf_entity_def)
  then have o: "foldl init_part ?h (if 0 \<le> eorder e then [show_int (eorder e)] else []) = ?o"
    by (simp add: init_part_order)
  have "head_of ?o = head_of e" by (simp add: head_of_def)
  then have v: "foldl init_part ?o (virt e) = add_virt ?o (virt e)"
    using assms by (intro foldl_init_part_virt) (auto simp: wf_entity_def intro: wf_virt_head)
  show ?thesis
    unfolding new_entity_def init_def split_parts_of [OF assms] fresh_def [symmetric]
    by (simp only: parts_of_def foldl_Cons foldl_append h o v) (simp add: add_virt_def)
qed

lemma to_key_cong:
  "data e' = data e \<Longrightarrow> symbol e' = symbol e \<Longrightarrow> repl e' = repl e \<Longrightarrow>
    (if 0 \<le> eorder e' then eorder e' else -1) = (if 0 \<le> eorder e then eorder e else -1) \<Longrightarrow>
    to_key e' = to_key e"
  by (simp add: to_key_def split: if_splits)

lemma to_str_leaf: "embed e = [] \<Longrightarrow> to_str e = to_key e @ slashed (virt e)"
  by (subst to_str.simps) simp

lemma to_key_new_entity_printed:
  "wf_entity e \<Longrightarrow> to_key (new_entity (to_key e @ slashed (virt e)) em) = to_key e"
  unfolding new_entity_printed by (rule to_key_cong) simp_all


section \<open>Extending an entity by markers\<close>

text \<open>Every parse node keeps its text and its children, gets the markers appended, and keeps its
  key when the markers are those of a rule symbol with the same key.\<close>

lemma init_part_frame [simp]:
  "etext (init_part e p) = etext e" "embed (init_part e p) = embed e"
  by (cases rule: init_part_cases [of e p]; simp)+

lemma init_frame [simp]: "etext (init e t) = etext e" "embed (init e t) = embed e"
proof -
  have "etext (foldl init_part e ps) = etext e \<and> embed (foldl init_part e ps) = embed e" for ps
    by (induction ps arbitrary: e) auto
  then show "etext (init e t) = etext e" "embed (init e t) = embed e" by (simp_all add: init_def)
qed

lemma modified_frame [simp]: "etext (modified e ms) = etext e" "embed (modified e ms) = embed e"
  by (simp_all add: modified_def)

lemma new_entity_frame [simp]: "etext (new_entity t em) = []" "embed (new_entity t em) = em"
  by (simp_all add: new_entity_def)

lemma set_text_frame [simp]:
  "etext (set_text t e) = t" "embed (set_text t e) = embed e" "virt (set_text t e) = virt e"
  "to_key (set_text t e) = to_key e" "head_of (set_text t e) = head_of e"
  by (simp_all add: set_text_def to_key_def head_of_def)

lemma split_slashed:
  "\<forall>w \<in> set ws. CHR ''/'' \<notin> set w \<Longrightarrow> split (is_any_of ''/'') (slashed ws) = [] # ws"
proof -
  assume a: "\<forall>w \<in> set ws. CHR ''/'' \<notin> set w"
  then have "split (is_any_of ''/'') (join [CHR ''/''] ([] # ws)) = [] # ws"
    by (intro split_join) (auto simp: is_any_of_def)
  then show ?thesis by (simp only: join_slash_Cons append_Nil)
qed

lemma modified_parts:
  "\<forall>w \<in> set ms. CHR ''/'' \<notin> set w \<Longrightarrow> modified e ms = foldl init_part e ms"
  by (simp add: modified_def init_def split_slashed)

lemma modified_virt:
  "\<forall>w \<in> set ms. wf_virt e w \<Longrightarrow> modified e ms = add_virt e ms"
proof -
  assume a: "\<forall>w \<in> set ms. wf_virt e w"
  then have "\<forall>w \<in> set ms. CHR ''/'' \<notin> set w" by (auto simp: wf_virt_def plain_part_def)
  with a show ?thesis by (simp add: modified_parts foldl_init_part_virt)
qed

lemma head_of_no_slash: "wf_entity e \<Longrightarrow> CHR ''/'' \<notin> set (head_of e)"
  using plain_head plain_no_slash by fastforce

definition head_text :: "entity \<Rightarrow> string" where
  "head_text e = (if head_of e = [] then ''null'' else head_of e)"

definition order_text :: "entity \<Rightarrow> string" where
  "order_text e = (if 0 \<le> eorder e then CHR ''/'' # show_int (eorder e) else [])"

lemma to_key_head: "to_key e = head_text e @ order_text e"
  by (simp add: to_key_def head_of_def head_text_def order_text_def)

lemma head_text_no_slash: "wf_entity e \<Longrightarrow> CHR ''/'' \<notin> set (head_text e)"
  using head_of_no_slash [of e] by (simp add: head_text_def)

lemma head_text_inject:
  assumes "wf_entity e" "wf_entity f"
  shows "head_text e = head_text f \<longleftrightarrow> head_of e = head_of f"
proof -
  have "head_of g \<noteq> ''null''" if "wf_entity g" for g
    using plain_head [OF that] by (auto simp: plain_part_def)
  with assms show ?thesis unfolding head_text_def by metis
qed

lemma show_nat_inject: "show_nat m = show_nat n \<longleftrightarrow> m = n"
  by (metis digits_val_show_nat)

lemma order_text_eqD:
  "order_text e = order_text f \<Longrightarrow> eorder e = eorder f \<or> (eorder e < 0 \<and> eorder f < 0)"
  unfolding order_text_def
  by (cases "0 \<le> eorder e"; cases "0 \<le> eorder f")
    (simp_all add: show_int_nat show_nat_inject eq_nat_nat_iff)

lemma no_slash_eq:
  assumes "a @ x = b @ y" "c \<notin> set a" "c \<notin> set b" "x = [] \<or> hd x = c" "y = [] \<or> hd y = c"
  shows "a = b \<and> x = y"
proof -
  have *: "takeWhile (\<lambda>d. d \<noteq> c) (u @ z) = u" if "c \<notin> set u" "z = [] \<or> hd z = c" for u z
    using that by (induction u) (cases z; auto)+
  have "a = b" using * [OF assms(2,4)] * [OF assms(3,5)] assms(1) by simp
  with assms(1) show ?thesis by simp
qed

lemma to_key_eqD:
  assumes "wf_entity e" "wf_entity f" "to_key e = to_key f"
  shows "head_of e = head_of f"
    and "eorder e = eorder f \<or> (eorder e < 0 \<and> eorder f < 0)"
proof -
  have o: "order_text g = [] \<or> hd (order_text g) = CHR ''/''" for g
    by (simp add: order_text_def)
  have "head_text e @ order_text e = head_text f @ order_text f"
    using assms(3) by (simp only: to_key_head)
  from no_slash_eq [OF this head_text_no_slash head_text_no_slash o o] assms(1,2)
  have "head_text e = head_text f" "order_text e = order_text f" by blast+
  then show "head_of e = head_of f" "eorder e = eorder f \<or> (eorder e < 0 \<and> eorder f < 0)"
    using head_text_inject [OF assms(1,2)] order_text_eqD by blast+
qed

lemma wf_virt_same_head: "wf_virt f w \<Longrightarrow> head_of e = head_of f \<Longrightarrow> wf_virt e w"
  by (simp add: wf_virt_def)

lemma init_part_key_head:
  assumes "wf_entity e" "head_of e \<noteq> []"
  shows "head_of (init_part e p) = head_of e"
    and "\<not> is_order_text p \<Longrightarrow> eorder (init_part e p) = eorder e"
  using assms by (cases rule: init_part_cases [of e p]; simp add: head_of_def)+


definition marks :: "entity \<Rightarrow> string list" where
  "marks f =
    (if virt f \<noteq> [] then virt f
     else if head_of f = [] \<or> starts_with (head_of f) ''r-'' then [] else [head_of f])"

lemma init_part_own_head:
  assumes "wf_entity e" and ne: "head_of e \<noteq> []"
  shows "init_part e (head_of e) =
    add_virt e (if starts_with (head_of e) ''r-'' then [] else [head_of e])"
proof -
  have p: "head_of e \<noteq> ''null''" "\<not> is_order_text (head_of e)"
    using plain_head [OF assms] by (simp_all add: plain_part_def)
  obtain d s r v t em n where e: "e = Entity d s r v t em n" by (cases e)
  have n: "(s = [] \<and> r = [] \<and> d = []) = False" using ne by (auto simp: head_of_def e)
  have "init_part e p = add_virt e (if starts_with p ''r-'' then [] else [p])"
    if "p \<noteq> []" "p \<noteq> ''null''" "\<not> is_order_text p" for p
    unfolding e by (simp only: init_part.simps n that if_False simp_thms)
      (simp add: add_virt_def)
  then show ?thesis using p ne by blast
qed

lemma add_virt_Nil [simp]: "add_virt e [] = e"
  by (simp add: add_virt_def)

lemma add_virt_to_key [simp]: "to_key (add_virt e ws) = to_key e"
  by (simp add: to_key_def add_virt_def)

lemma add_virt_sel [simp]:
  "etext (add_virt e ws) = etext e" "embed (add_virt e ws) = embed e"
  "virt (add_virt e ws) = virt e @ ws" "eorder (add_virt e ws) = eorder e"
  by (simp_all add: add_virt_def)

lemma init_part_own_order:
  assumes "wf_entity e"
  shows "foldl init_part e (if 0 \<le> eorder e then [show_int (eorder e)] else []) = e"
  using assms by (cases e) (simp add: init_part_order wf_entity_def)

lemma modified_marker:
  assumes wf: "wf_entity e" "wf_entity f" and leaf: "embed f = []" and key: "to_key e = to_key f"
  shows "modified e (get_marker f) = add_virt e (marks f)"
proof (cases "virt f = []")
  case False
  have "\<forall>w \<in> set (virt f). wf_virt e w"
    using wf(2) to_key_eqD(1) [OF wf key] wf_virt_same_head [of f _ e]
    by (auto simp: wf_entity_def)
  with False show ?thesis by (simp add: get_marker_def modified_virt marks_def)
next
  case True
  have h: "head_of e = head_of f" by (rule to_key_eqD [OF wf key])
  have s: "slashed [to_str f] = CHR ''/'' # to_key f @ slashed (virt f)"
    using True by (simp add: slashed_def to_str_leaf [OF leaf])
  have o: "0 \<le> eorder f \<Longrightarrow> eorder e = eorder f" "eorder f \<le> int_max"
    using to_key_eqD(2) [OF wf key] wf(2) by (auto simp: wf_entity_def)
  have "modified e (get_marker f) = foldl init_part e ([] # parts_of f)"
  proof -
    have "split (is_any_of ''/'') (slashed [to_str f]) = [] # parts_of f"
      unfolding s using split_parts_of [OF wf(2)] by (simp add: is_any_of_def)
    then show ?thesis using True by (simp only: modified_def init_def get_marker_def) simp
  qed
  also have "\<dots> = foldl init_part
      (if head_of f = [] then e else init_part e (head_of e))
      (if 0 \<le> eorder f then [show_int (eorder f)] else [])"
    by (simp add: parts_of_def True h)
  also have "(if head_of f = [] then e else init_part e (head_of e)) = add_virt e (marks f)"
    using init_part_own_head [OF wf(1)] True h by (simp add: marks_def)
  also have "foldl init_part (add_virt e (marks f)) (if 0 \<le> eorder f then [show_int (eorder f)] else [])
      = add_virt e (marks f)"
    using o by (simp add: init_part_order) (simp add: add_virt_def)
  finally show ?thesis .
qed


section \<open>Symbols without spaces\<close>

text \<open>A symbol that can stand in a rule: no children, and no space in any part, so that the lists of
  keys in which rules are looked up are unambiguous.\<close>

definition spaceless :: "entity \<Rightarrow> bool" where
  "spaceless e \<longleftrightarrow> CHR '' '' \<notin> set (data e) \<and> CHR '' '' \<notin> set (symbol e) \<and> CHR '' '' \<notin> set (repl e)
    \<and> (\<forall>w \<in> set (virt e). CHR '' '' \<notin> set w)"

definition plain_symbol :: "entity \<Rightarrow> bool" where
  "plain_symbol e \<longleftrightarrow> wf_entity e \<and> embed e = [] \<and> spaceless e"

lemma spaceless_init_part: "spaceless e \<Longrightarrow> CHR '' '' \<notin> set p \<Longrightarrow> spaceless (init_part e p)"
  by (cases rule: init_part_cases [of e p]; auto simp: spaceless_def)

lemma spaceless_init: "spaceless e \<Longrightarrow> CHR '' '' \<notin> set t \<Longrightarrow> spaceless (init e t)"
proof -
  assume e: "spaceless e" and t: "CHR '' '' \<notin> set t"
  have "\<forall>p \<in> set ps. CHR '' '' \<notin> set p \<Longrightarrow> spaceless e \<Longrightarrow> spaceless (foldl init_part e ps)" for e ps
    by (induction ps arbitrary: e) (auto intro: spaceless_init_part)
  moreover have "\<forall>p \<in> set (split (is_any_of ''/'') t). CHR '' '' \<notin> set p"
    using split_token_subset t by fastforce
  ultimately show ?thesis using e unfolding init_def by blast
qed

lemma plain_new_entity [inv_intros]: "CHR '' '' \<notin> set t \<Longrightarrow> plain_symbol (new_entity t [])"
proof -
  assume t: "CHR '' '' \<notin> set t"
  have "spaceless (Entity [] [] [] [] [] [] (-1))" by (simp add: spaceless_def)
  then have "spaceless (new_entity t [])" unfolding new_entity_def using t by (rule spaceless_init)
  then show ?thesis by (simp add: plain_symbol_def wf_new_entity)
qed

lemma show_nat_no_space: "CHR '' '' \<notin> set (show_nat n)"
  using show_nat_digits [of "CHR '' ''" n] by (auto simp: is_digit_def code_def)

lemma to_key_no_space: "spaceless e \<Longrightarrow> CHR '' '' \<notin> set (to_key e)"
  by (auto simp: spaceless_def to_key_def show_int_nat show_nat_no_space)

lemma slashed_no_space: "CHR '' '' \<notin> set (slashed ws) \<longleftrightarrow> (\<forall>w \<in> set ws. CHR '' '' \<notin> set w)"
  by (auto simp: slashed_def)

lemma wf_head_fields:
  assumes "wf_head e"
  shows "data e = [] \<or> data e = head_of e" "symbol e = [] \<or> symbol e = head_of e"
    "repl e = [] \<or> repl e = head_of e"
proof -
  have "symbol e \<noteq> [] \<Longrightarrow> data e = []" "repl e \<noteq> [] \<Longrightarrow> data e = []" "repl e \<noteq> [] \<Longrightarrow> symbol e = []"
    using assms unfolding wf_head_def by blast+
  then show "data e = [] \<or> data e = head_of e" "symbol e = [] \<or> symbol e = head_of e"
    "repl e = [] \<or> repl e = head_of e"
    unfolding head_of_def by (simp, metis, metis)
qed

lemma spaceless_to_str:
  assumes "wf_entity e" "embed e = []"
  shows "CHR '' '' \<notin> set (to_str e) \<longleftrightarrow> spaceless e"
proof
  assume "spaceless e"
  then show "CHR '' '' \<notin> set (to_str e)"
    using to_key_no_space slashed_no_space by (auto simp: to_str_leaf [OF assms(2)] spaceless_def)
next
  assume a: "CHR '' '' \<notin> set (to_str e)"
  have w: "wf_head e" using assms(1) by (simp add: wf_entity_def)
  have "set (head_of e) \<subseteq> set (to_key e)"
    by (simp add: to_key_head head_text_def)
  moreover have "set (data e) \<subseteq> set (head_of e)" "set (symbol e) \<subseteq> set (head_of e)" "set (repl e) \<subseteq> set (head_of e)"
    using wf_head_fields [OF w] by auto
  ultimately show "spaceless e"
    using a slashed_no_space by (auto simp: to_str_leaf [OF assms(2)] spaceless_def)
qed

lemma get_marker_no_space:
  "plain_symbol f \<Longrightarrow> m \<in> set (get_marker f) \<Longrightarrow> CHR '' '' \<notin> set m"
  using spaceless_to_str [of f] by (auto simp: get_marker_def plain_symbol_def spaceless_def split: if_splits)

lemma plain_modified [inv_intros]:
  "plain_symbol e \<Longrightarrow> plain_symbol f \<Longrightarrow> plain_symbol (modified e (get_marker f))"
  using get_marker_no_space [of f] slashed_no_space [of "get_marker f"]
  by (auto simp: plain_symbol_def inv_intros) (simp add: modified_def spaceless_init)

section \<open>Properties\<close>

text \<open>C14. An entity that was read from any text and is printed and read again has the same head,
  markers and key, and takes the given children: \<^verbatim>\<open>new entity(this, replacement->to_str(), found_vec)\<close>
  in the parser is a copy of the rule's target over the nodes that it replaces.\<close>

theorem entity_round_trip:
  "let e = new_entity t []; e' = new_entity (to_str e) children
   in data e' = data e \<and> symbol e' = symbol e \<and> repl e' = repl e \<and> virt e' = virt e
      \<and> to_key e' = to_key e \<and> embed e' = children \<and> etext e' = []"
proof -
  have wf: "wf_entity (new_entity t [])" by (rule inv_intros)
  show ?thesis
    using new_entity_printed [OF wf, of children] to_key_new_entity_printed [OF wf, of children]
    by (simp add: Let_def to_str_leaf)
qed

text \<open>C15. However often parts are added, an entity has at most one head, which carries the letter
  of its field, and no marker that could be read back as a number, an \<^verbatim>\<open>r-\<close> symbol or nothing.\<close>

theorem entity_invariant: "wf_entity (fold (\<lambda>u e. init e u) us (new_entity t children))"
proof -
  have "wf_entity e \<Longrightarrow> wf_entity (fold (\<lambda>u e. init e u) us e)" for e
    by (induction us arbitrary: e) (auto intro: wf_init)
  then show ?thesis using wf_new_entity by blast
qed

end
