(* ===== verification/Grammar.thy ===== *)
theory Grammar
  imports Entity
begin

text \<open>
  Class \<^verbatim>\<open>grammar\<close> of \<^verbatim>\<open>hal2012-grammar2012.cpp\<close>: the symbol table, reading a grammar file,
  expanding the \<^verbatim>\<open>r-\<close> symbols into all their alternatives and indexing the rules by the keys of
  their right-hand sides. \<^verbatim>\<open>Reduce\<close> holds the parser that uses the index.

  Every operation takes and returns the whole grammar object. The hashed containers are visited
  in an unspecified order, the parameter \<open>ord\<close> of the operations that loop over one.
\<close>

section \<open>State\<close>

type_synonym reducemap = "(entity \<times> entities) hmap"

record grammar = freehal_base +
  gra :: "entities hmap"
  red :: "reducemap list"
  red_keys_sorted :: "string list list"
  sym_so :: "entity hmap"
  sym_os :: "(entity \<times> string) list"

datatype grammar_error = Null_entity

definition grammar_new :: grammar where
  "grammar_new =
    \<lparr>verbose = True, buffered = False, lang = [], path = [],
     gra = [], red = [], red_keys_sorted = [], sym_so = [], sym_os = []\<rparr>"

section \<open>Symbols\<close>

definition s2o :: "grammar \<Rightarrow> string \<Rightarrow> entity option" where
  "s2o g s = um_find (sym_so g) s"

text \<open>The object-to-symbol table is keyed by address and every registered object is new.\<close>

definition add_entity :: "entity \<Rightarrow> grammar \<Rightarrow> entity \<times> grammar" where
  "add_entity e g =
    (e, g\<lparr>sym_os := sym_os g @ [(e, to_str e)], sym_so := um_insert (to_str e) e (sym_so g)\<rparr>)"

definition add_symbol :: "string \<Rightarrow> grammar \<Rightarrow> entity \<times> grammar" where
  "add_symbol str g =
    (case s2o g str of
       Some key \<Rightarrow> (key, g)
     | None \<Rightarrow> add_entity (new_entity str []) g)"

definition modify_symbol :: "entity \<Rightarrow> string list \<Rightarrow> grammar \<Rightarrow> entity \<times> grammar" where
  "modify_symbol e markers g = add_entity (modified e markers) g"

definition all_get_key :: "entities \<Rightarrow> string" where
  "all_get_key es =
    (if es = [] then [] else '' '' @ concat (map (\<lambda>e. to_key e @ '' '') es))"

definition all_to_str :: "entities \<Rightarrow> string" where
  "all_to_str es =
    (if es = [] then [] else '' '' @ concat (map (\<lambda>e. to_str e @ '' '') es))"

section \<open>Reading a grammar\<close>

text \<open>The words of a rule: the entities that are not empty (\<^verbatim>\<open>type() != 0\<close>).\<close>

fun add_words :: "string list \<Rightarrow> grammar \<Rightarrow> entities \<times> grammar" where
  "add_words [] g = ([], g)"
| "add_words (p # ps) g =
    (let (e, g1) = add_symbol p g;
         (es, g2) = add_words ps g1
     in (if type_of e \<noteq> CHR 0x00 then e # es else es, g2))"

text \<open>One turn of the loop over the lines; \<open>key\<close> is the pointer to the last header, null before
  the first. An indented line before the first header follows the null pointer.\<close>

definition read_line :: "string \<Rightarrow> entity option \<times> grammar \<Rightarrow> grammar_error + (entity option \<times> grammar)" where
  "read_line line0 st =
    (let (key0, g0) = st;
         header = ends_with line0 '':'';
         line = (if header then trim_right_if (is_any_of '':'') line0 else line0);
         (key, g1) = (if header then (let (e, g) = add_symbol line g0 in (Some e, g)) else (key0, g0))
     in if starts_with line ''  '' then
          (let (value, g2) =
                 add_words (split (is_any_of '' '') (trim_left_if (is_any_of '' '') line)) g1
           in case key of
                None \<Rightarrow> Inl Null_entity
              | Some k \<Rightarrow> Inr (key, g2\<lparr>gra := mm_insert (to_key k) value (gra g2)\<rparr>))
        else Inr (key, g1))"

fun read_lines :: "string list \<Rightarrow> entity option \<times> grammar \<Rightarrow> grammar_error + (entity option \<times> grammar)" where
  "read_lines [] st = Inr st"
| "read_lines (l # ls) st =
    (case read_line l st of Inl err \<Rightarrow> Inl err | Inr st' \<Rightarrow> read_lines ls st')"

section \<open>The index of the rules\<close>

definition grow :: "'a \<Rightarrow> nat \<Rightarrow> 'a list \<Rightarrow> 'a list" where
  "grow x n xs = xs @ replicate (Suc n - length xs) x"

text \<open>One turn of the first loop of \<^verbatim>\<open>build_reducemap\<close>, on the rule maps and the key sets of all
  orders.\<close>

definition index_rule ::
  "grammar \<Rightarrow> string \<times> entities \<Rightarrow> reducemap list \<times> string list list \<Rightarrow> reducemap list \<times> string list list"
where
  "index_rule g rule st =
    (let (rd, ks) = st in
     case s2o g (fst rule) of
       None \<Rightarrow> st
     | Some target \<Rightarrow>
         if repl target \<noteq> [] then st
         else
           (let keys = all_get_key (snd rule) in
            if keys = [] then st
            else
              (let n = nat (get_order target);
                   rd1 = (if length rd \<le> n then grow [] n rd else rd);
                   ks1 = (if length rd \<le> n then grow [] n ks else ks)
               in (rd1[n := mm_insert keys (target, snd rule) (rd1 ! n)],
                   ks1[n := (if keys \<in> set (ks1 ! n) then ks1 ! n else ks1 ! n @ [keys])]))))"

text \<open>\<^verbatim>\<open>std::sort\<close> by decreasing length leaves the order of equally long keys open, as \<open>ord\<close>
  does.\<close>

definition sort_keys :: "hash_order \<Rightarrow> string list \<Rightarrow> string list" where
  "sort_keys ord ks = sort_key (\<lambda>k. - int (length k)) (ord ks)"

definition build_reducemap :: "hash_order \<Rightarrow> grammar \<Rightarrow> grammar" where
  "build_reducemap ord g =
    (let (rd, ks) = fold (index_rule g) (iterate ord (gra g)) ([], [])
     in g\<lparr>red := rd, red_keys_sorted := map (sort_keys ord) ks\<rparr>)"

text \<open>The file is an argument: \<^verbatim>\<open>None\<close> when it cannot be opened. The first component of the
  result is the value that \<^verbatim>\<open>read_grammar\<close> returns.\<close>

definition read_grammar :: "hash_order \<Rightarrow> string option \<Rightarrow> grammar \<Rightarrow> grammar_error + (nat \<times> grammar)" where
  "read_grammar ord file g =
    (case file of
       None \<Rightarrow> Inr (1, g)
     | Some txt \<Rightarrow>
         (case read_lines (split_lines txt) (None, g) of
            Inl err \<Rightarrow> Inl err
          | Inr (key, g') \<Rightarrow> Inr (0, build_reducemap ord g')))"

section \<open>Expansion\<close>

fun modify_all :: "entities \<Rightarrow> string list \<Rightarrow> grammar \<Rightarrow> entities \<times> grammar" where
  "modify_all [] ms g = ([], g)"
| "modify_all (e # es) ms g =
    (let (e', g1) = modify_symbol e ms g;
         (es', g2) = modify_all es ms g1
     in (e' # es', g2))"

definition insert_back :: "entities \<Rightarrow> entities \<Rightarrow> entity \<Rightarrow> grammar \<Rightarrow> entities \<times> grammar" where
  "insert_back from into previous g =
    (if get_marker previous \<noteq> [] then
       (let (es, g') = modify_all from (get_marker previous) g in (into @ es, g'))
     else (into @ from, g))"

text \<open>The same replacement behind every value so far, and one replacement for each value.\<close>

fun insert_same :: "entities \<Rightarrow> entities list \<Rightarrow> entity \<Rightarrow> grammar \<Rightarrow> entities list \<times> grammar" where
  "insert_same from [] previous g = ([], g)"
| "insert_same from (v # vs) previous g =
    (let (v', g1) = insert_back from v previous g;
         (vs', g2) = insert_same from vs previous g1
     in (v' # vs', g2))"

fun insert_each :: "entities list \<Rightarrow> entities list \<Rightarrow> entity \<Rightarrow> grammar \<Rightarrow> entities list \<times> grammar" where
  "insert_each (r # rs) (v # vs) previous g =
    (let (v', g1) = insert_back r v previous g;
         (vs', g2) = insert_each rs vs previous g1
     in (v' # vs', g2))"
| "insert_each [] vs previous g = (vs, g)"
| "insert_each (r # rs) [] previous g = ([], g)"

record expansion =
  newvalues :: "entities list"
  expanded :: nat
  complete :: bool
  xgrammar :: grammar

definition copy_symbol :: "entity \<Rightarrow> expansion \<Rightarrow> expansion" where
  "copy_symbol e x = x\<lparr>newvalues := map (\<lambda>v. v @ [e]) (newvalues x)\<rparr>"

definition expand_symbol :: "entity \<Rightarrow> expansion \<Rightarrow> expansion" where
  "expand_symbol e x =
    (let alts = mm_range (to_key e) (gra (xgrammar x)) in
     if type_of e = CHR ''r'' then
       (case alts of
          [] \<Rightarrow> x
        | [a] \<Rightarrow>
            (let (vs, g) = insert_same a (newvalues x) e (xgrammar x)
             in x\<lparr>newvalues := vs, xgrammar := g\<rparr>)
        | _ \<Rightarrow>
            (case newvalues x of
               [v] \<Rightarrow>
                 (let (vs, g) = insert_each alts (replicate (length alts) v) e (xgrammar x)
                  in x\<lparr>newvalues := vs, expanded := Suc (expanded x), xgrammar := g\<rparr>)
             | _ \<Rightarrow> copy_symbol e (x\<lparr>expanded := Suc (expanded x), complete := False\<rparr>)))
     else copy_symbol e x)"

definition expand_entry :: "entities \<Rightarrow> nat \<times> bool \<times> grammar \<Rightarrow> expansion" where
  "expand_entry oldvalue st =
    (let (n, c, g) = st
     in fold expand_symbol oldvalue
          \<lparr>newvalues = [[]], expanded = n, complete = c, xgrammar = g\<rparr>)"

fun expand_rules :: "(string \<times> entities) list \<Rightarrow> entities hmap \<Rightarrow> nat \<times> bool \<times> grammar
    \<Rightarrow> entities hmap \<times> nat \<times> bool \<times> grammar" where
  "expand_rules [] new st = (new, st)"
| "expand_rules ((k, v) # rules) new st =
    (let x = expand_entry v st
     in expand_rules rules (fold (mm_insert k) (newvalues x) new)
          (expanded x, complete x, xgrammar x))"

definition expand_step :: "hash_order \<Rightarrow> grammar \<Rightarrow> bool \<times> nat \<times> grammar" where
  "expand_step ord g =
    (let (new, n, c, g') = expand_rules (iterate ord (gra g)) [] (0, True, g)
     in (c, n, g'\<lparr>gra := new\<rparr>))"

text \<open>The loop of \<^verbatim>\<open>expand\<close> may run forever, so its result is an option.\<close>

partial_function (option) expand_loop :: "hash_order \<Rightarrow> grammar \<Rightarrow> grammar option" where
  "expand_loop ord g =
    (case expand_step ord g of
       (done, n, g') \<Rightarrow> if done then Some g' else expand_loop ord g')"

definition expand :: "hash_order \<Rightarrow> grammar \<Rightarrow> grammar option" where
  "expand ord g = map_option (build_reducemap ord) (expand_loop ord g)"


section \<open>The symbol table\<close>

text \<open>What the operations may not touch when they only register symbols.\<close>

definition same_rules :: "grammar \<Rightarrow> grammar \<Rightarrow> bool" where
  "same_rules g g' \<longleftrightarrow>
    gra g' = gra g \<and> red g' = red g \<and> red_keys_sorted g' = red_keys_sorted g
  \<and> verbose g' = verbose g \<and> buffered g' = buffered g \<and> lang g' = lang g \<and> path g' = path g"

definition symbols_ok :: "grammar \<Rightarrow> bool" where
  "symbols_ok g \<longleftrightarrow> (\<forall>(k, e) \<in> set (sym_so g). k = to_str e \<and> wf_entity e)"

lemma same_rules_refl [simp]: "same_rules g g"
  by (simp add: same_rules_def)

lemma same_rules_trans: "same_rules g g' \<Longrightarrow> same_rules g' g'' \<Longrightarrow> same_rules g g''"
  by (simp add: same_rules_def)

lemma same_rules_gra: "same_rules g g' \<Longrightarrow> gra g' = gra g"
  by (simp add: same_rules_def)

lemma add_entity_fst [simp]: "fst (add_entity e g) = e"
  by (simp add: add_entity_def)

lemma add_entity_rules [simp]: "same_rules g (snd (add_entity e g))"
  by (simp add: add_entity_def same_rules_def)

lemma add_entity_symbols [inv_intros]:
  "symbols_ok g \<Longrightarrow> wf_entity e \<Longrightarrow> symbols_ok (snd (add_entity e g))"
  using set_um_insert [of "to_str e" e "sym_so g"]
  by (auto simp: symbols_ok_def add_entity_def)

lemma s2o_add_entity:
  "s2o (snd (add_entity e g)) k =
    (if to_str e = k \<and> s2o g (to_str e) = None then Some e else s2o g k)"
  by (auto simp: s2o_def add_entity_def um_find_insert)

lemma add_symbol_cases:
  "add_symbol str g = (case s2o g str of Some e \<Rightarrow> (e, g) | None \<Rightarrow> add_entity (new_entity str []) g)"
  by (simp add: add_symbol_def)

lemma add_symbol_rules [simp]: "same_rules g (snd (add_symbol str g))"
  by (simp add: add_symbol_def split: option.splits)

lemma s2o_ok: "symbols_ok g \<Longrightarrow> s2o g k = Some e \<Longrightarrow> to_str e = k \<and> wf_entity e"
  by (auto simp: symbols_ok_def s2o_def dest!: um_find_in_set)

lemma add_symbol_ok [inv_intros]:
  assumes "symbols_ok g"
  shows "wf_entity (fst (add_symbol str g))" and "symbols_ok (snd (add_symbol str g))"
  using assms s2o_ok [OF assms, of str]
  by (auto simp: add_symbol_def intro: inv_intros split: option.splits)

lemma modify_symbol_fst [simp]: "fst (modify_symbol e ms g) = modified e ms"
  by (simp add: modify_symbol_def)

lemma modify_symbol_rules [simp]: "same_rules g (snd (modify_symbol e ms g))"
  by (simp add: modify_symbol_def)

lemma modify_symbol_ok [inv_intros]:
  "symbols_ok g \<Longrightarrow> wf_entity e \<Longrightarrow> symbols_ok (snd (modify_symbol e ms g))"
  by (simp add: modify_symbol_def inv_intros)

section \<open>Expansion as a product of alternatives\<close>

lemma modify_all_eq:
  "fst (modify_all es ms g) = map (\<lambda>e. modified e ms) es \<and> same_rules g (snd (modify_all es ms g))"
proof (induction es arbitrary: g)
  case Nil
  then show ?case by simp
next
  case (Cons e es)
  show ?case
    using Cons [of "snd (modify_symbol e ms g)"] modify_symbol_rules [of g e ms]
    by (auto simp: split_beta simp del: modify_symbol_rules intro: same_rules_trans)
qed

definition inserted :: "entity \<Rightarrow> entities \<Rightarrow> entities" where
  "inserted previous from = map (\<lambda>e. modified e (get_marker previous)) from"

lemma get_marker_not_Nil [simp]: "get_marker e \<noteq> []"
  by (simp add: get_marker_def)

lemma insert_back_eq:
  "fst (insert_back from into p g) = into @ inserted p from \<and> same_rules g (snd (insert_back from into p g))"
  using modify_all_eq [of "from" "get_marker p" g]
  by (simp add: insert_back_def inserted_def split_beta)

lemma insert_same_eq:
  "fst (insert_same from vs p g) = map (\<lambda>v. v @ inserted p from) vs
    \<and> same_rules g (snd (insert_same from vs p g))"
proof (induction vs arbitrary: g)
  case Nil
  then show ?case by simp
next
  case (Cons v vs)
  show ?case
    using Cons [of "snd (insert_back from v p g)"] insert_back_eq [of "from" v p g]
    by (auto simp: split_beta intro: same_rules_trans)
qed

lemma insert_each_eq:
  "length rs = length vs \<Longrightarrow>
    fst (insert_each rs vs p g) = map2 (\<lambda>v r. v @ inserted p r) vs rs
    \<and> same_rules g (snd (insert_each rs vs p g))"
proof (induction rs vs arbitrary: g rule: list_induct2)
  case Nil
  then show ?case by simp
next
  case (Cons r rs v vs)
  show ?case
    using Cons.IH [of "snd (insert_back r v p g)"] insert_back_eq [of r v p g]
    by (auto simp: split_beta intro: same_rules_trans)
qed


definition is_r :: "entity \<Rightarrow> bool" where
  "is_r e \<longleftrightarrow> type_of e = CHR ''r''"

definition alternatives :: "grammar \<Rightarrow> entity \<Rightarrow> entities list" where
  "alternatives g e = map (inserted e) (mm_range (to_key e) (gra g))"

definition is_choice :: "grammar \<Rightarrow> entity \<Rightarrow> bool" where
  "is_choice g e \<longleftrightarrow> is_r e \<and> 2 \<le> length (alternatives g e)"

text \<open>What one entry expands to, as a choice at each position: only the first symbol with several
  alternatives is resolved, the later ones stay for the next run.\<close>

fun choices :: "grammar \<Rightarrow> bool \<Rightarrow> entities \<Rightarrow> entities list list" where
  "choices g used [] = []"
| "choices g used (e # es) =
    (if is_choice g e then (if used then [[e]] else alternatives g e) # choices g True es
     else if is_r e then
       (if alternatives g e = [] then [[]] else alternatives g e) # choices g used es
     else [[e]] # choices g used es)"

definition append_each :: "entities list \<Rightarrow> entities list \<Rightarrow> entities list" where
  "append_each vs opts = concat (map (\<lambda>v. map (\<lambda>a. v @ a) opts) vs)"

lemma append_each_single [simp]: "append_each [v] opts = map (\<lambda>a. v @ a) opts"
  "append_each vs [a] = map (\<lambda>v. v @ a) vs"
  by (simp_all add: append_each_def)

lemma foldl_append_each:
  "foldl append_each vs opts = concat (map (\<lambda>v. map (\<lambda>c. v @ concat c) (product_lists opts)) vs)"
proof (induction opts arbitrary: vs)
  case Nil
  then show ?case by simp
next
  case (Cons os opts)
  show ?case
    unfolding foldl_Cons Cons.IH
    by (simp add: append_each_def concat_map_concat_map concat_concat_map map_concat o_def)
qed

text \<open>The two facts about one symbol: it appends its choice, and it clears the flag when it is a
  second choice.\<close>

definition expansion_ok :: "grammar \<Rightarrow> bool \<Rightarrow> expansion \<Rightarrow> bool" where
  "expansion_ok g used x \<longleftrightarrow>
    same_rules g (xgrammar x) \<and> newvalues x \<noteq> [] \<and> (length (newvalues x) = 1 \<longleftrightarrow> \<not> used)"

lemma alternatives_same [simp]:
  "same_rules g g' \<Longrightarrow> alternatives g' e = alternatives g e"
  by (simp add: alternatives_def same_rules_def)

lemma map2_replicate: "length rs = n \<Longrightarrow> map2 f (replicate n v) rs = map (f v) rs"
  by (induction rs arbitrary: n) auto

lemma expand_symbol_step:
  assumes ok: "expansion_ok g used x"
  shows "newvalues (expand_symbol e x) =
      append_each (newvalues x) (hd (choices g used [e]))"
    and "expansion_ok g (used \<or> is_choice g e) (expand_symbol e x)"
    and "complete (expand_symbol e x) = (complete x \<and> \<not> (used \<and> is_choice g e))"
proof -
  let ?alts = "mm_range (to_key e) (gra (xgrammar x))"
  have g: "gra (xgrammar x) = gra g" and sr: "same_rules g (xgrammar x)" and ne: "newvalues x \<noteq> []"
    and len: "length (newvalues x) = 1 \<longleftrightarrow> \<not> used"
    using ok by (auto simp: expansion_ok_def same_rules_def)
  have a: "alternatives g e = map (inserted e) ?alts" by (simp add: alternatives_def g)
  consider (plain) "\<not> is_r e" | (none) "is_r e" "?alts = []"
    | (one) r where "is_r e" "?alts = [r]" | (many) r r' rs where "is_r e" "?alts = r # r' # rs"
    by (cases ?alts rule: remdups_adj.cases) auto
  then have "newvalues (expand_symbol e x) = append_each (newvalues x) (hd (choices g used [e]))
    \<and> expansion_ok g (used \<or> is_choice g e) (expand_symbol e x)
    \<and> complete (expand_symbol e x) = (complete x \<and> \<not> (used \<and> is_choice g e))"
  proof cases
    case plain
    then show ?thesis
      using sr ne len by (simp add: expand_symbol_def copy_symbol_def expansion_ok_def is_r_def is_choice_def)
  next
    case none
    then show ?thesis
      using sr ne len
      by (simp add: expand_symbol_def expansion_ok_def is_choice_def a) (simp add: is_r_def)
  next
    case (one r)
    have "same_rules g (snd (insert_same r (newvalues x) e (xgrammar x)))"
      using sr insert_same_eq [of r "newvalues x" e "xgrammar x"] same_rules_trans by blast
    then show ?thesis
      using one ne len insert_same_eq [of r "newvalues x" e "xgrammar x"]
      by (simp add: expand_symbol_def expansion_ok_def is_choice_def a split_beta is_r_def)
  next
    case (many r r' rs)
    then have c: "is_choice g e" by (simp add: is_choice_def a)
    show ?thesis
    proof (cases "newvalues x" rule: remdups_adj.cases)
      case 1
      with ne show ?thesis by simp
    next
      case (2 v)
      let ?ins = "insert_each ?alts (replicate (length ?alts) v) e (xgrammar x)"
      have i: "fst ?ins = map (\<lambda>r. v @ inserted e r) ?alts \<and> same_rules (xgrammar x) (snd ?ins)"
        using insert_each_eq [of ?alts "replicate (length ?alts) v" e "xgrammar x"]
        by (simp add: map2_replicate)
      then have "same_rules g (snd ?ins)" using sr same_rules_trans by blast
      with i many 2 c len show ?thesis
        by (simp add: expand_symbol_def expansion_ok_def a split_beta is_r_def o_def)
    next
      case (3 v v' vs)
      with many c len sr show ?thesis
        by (simp add: expand_symbol_def copy_symbol_def expansion_ok_def a is_r_def)
    qed
  qed
  then show "newvalues (expand_symbol e x) = append_each (newvalues x) (hd (choices g used [e]))"
    "expansion_ok g (used \<or> is_choice g e) (expand_symbol e x)"
    "complete (expand_symbol e x) = (complete x \<and> \<not> (used \<and> is_choice g e))"
    by blast+
qed


lemma choices_Cons:
  "choices g used (e # es) = hd (choices g used [e]) # choices g (used \<or> is_choice g e) es"
  by auto

text \<open>How many symbols of an entry have several alternatives.\<close>

definition choice_count :: "grammar \<Rightarrow> entities \<Rightarrow> nat" where
  "choice_count g es = length (filter (is_choice g) es)"

lemma fold_expand_symbol:
  assumes "expansion_ok g used x"
  shows "newvalues (fold expand_symbol es x) = foldl append_each (newvalues x) (choices g used es)
    \<and> same_rules g (xgrammar (fold expand_symbol es x))
    \<and> complete (fold expand_symbol es x) =
       (complete x \<and> choice_count g es + (if used then 1 else 0) \<le> 1 \<or> complete x \<and> choice_count g es = 0)"
  using assms
proof (induction es arbitrary: x used)
  case Nil
  then show ?case by (simp add: choice_count_def expansion_ok_def)
next
  case (Cons e es)
  note s = expand_symbol_step [OF Cons.prems, of e]
  show ?case
    unfolding choices_Cons [of g used e es] foldl_Cons fold_Cons o_apply
    using Cons.IH [OF s(2)] unfolding s(1) s(3)
    by (auto simp: choice_count_def)
qed

lemma expand_entry_eq:
  "newvalues (expand_entry old (n, c, g)) = map concat (product_lists (choices g False old))"
  "same_rules g (xgrammar (expand_entry old (n, c, g)))"
  "complete (expand_entry old (n, c, g)) = (c \<and> choice_count g old \<le> 1)"
proof -
  let ?x = "\<lparr>newvalues = [[]], expanded = n, complete = c, xgrammar = g\<rparr>"
  have ok: "expansion_ok g False ?x" by (simp add: expansion_ok_def)
  have e: "expand_entry old (n, c, g) = fold expand_symbol old ?x" by (simp add: expand_entry_def)
  show "newvalues (expand_entry old (n, c, g)) = map concat (product_lists (choices g False old))"
    and "same_rules g (xgrammar (expand_entry old (n, c, g)))"
    and "complete (expand_entry old (n, c, g)) = (c \<and> choice_count g old \<le> 1)"
    using fold_expand_symbol [OF ok, of old] unfolding e by (auto simp: foldl_append_each)
qed


lemma is_choice_same: "same_rules g g' \<Longrightarrow> is_choice g' = is_choice g"
  by (rule ext) (simp add: is_choice_def)

lemma choices_same: "same_rules g g' \<Longrightarrow> choices g' used es = choices g used es"
  by (induction es arbitrary: used) (simp_all add: is_choice_same)

lemma choice_count_same: "same_rules g g' \<Longrightarrow> choice_count g' es = choice_count g es"
  by (simp add: choice_count_def is_choice_same)

definition expanded_rules :: "grammar \<Rightarrow> (string \<times> entities) list \<Rightarrow> entities hmap" where
  "expanded_rules g rules =
    concat (map (\<lambda>(k, v). map (\<lambda>c. (k, concat c)) (product_lists (choices g False v))) rules)"

lemma fold_mm_insert: "fold (mm_insert k) vs m = m @ map (Pair k) vs"
  by (induction vs arbitrary: m) (auto simp: mm_insert_def)

lemma expand_rules_eq:
  assumes "expand_rules rules new (n, c, g) = (new', n', c', g')"
  shows "new' = new @ expanded_rules g rules"
    and "c' = (c \<and> list_all (\<lambda>(k, v). choice_count g v \<le> 1) rules)"
    and "same_rules g g'"
proof -
  have "new' = new @ expanded_rules g rules
    \<and> c' = (c \<and> list_all (\<lambda>(k, v). choice_count g v \<le> 1) rules) \<and> same_rules g g'"
    using assms
  proof (induction rules arbitrary: new n c g)
    case Nil
    then show ?case by (simp add: expanded_rules_def)
  next
    case (Cons r rules)
    obtain k v where r: "r = (k, v)" by (cases r)
    let ?x = "expand_entry v (n, c, g)"
    note e = expand_entry_eq [where g = g and old = v and n = n and c = c]
    have sr: "same_rules g (xgrammar ?x)" by (rule e(2))
    from Cons.prems have "expand_rules rules (fold (mm_insert k) (newvalues ?x) new)
        (expanded ?x, complete ?x, xgrammar ?x) = (new', n', c', g')"
      by (simp add: r Let_def)
    note ih = Cons.IH [OF this]
    then have "same_rules g g'" using sr same_rules_trans by blast
    moreover have "expanded_rules (xgrammar ?x) rules = expanded_rules g rules"
      using sr by (simp add: expanded_rules_def choices_same)
    ultimately show ?case
      using ih sr by (simp add: r e fold_mm_insert choice_count_same)
        (auto simp: expanded_rules_def o_def)
  qed
  then show "new' = new @ expanded_rules g rules"
    "c' = (c \<and> list_all (\<lambda>(k, v). choice_count g v \<le> 1) rules)" "same_rules g g'"
    by blast+
qed

lemma expand_loop_done: "expand_step ord g = (True, n, g') \<Longrightarrow> expand_loop ord g = Some g'"
  by (subst expand_loop.simps) simp

section \<open>What the index holds\<close>

lemma length_grow [simp]: "length (grow x n xs) = max (Suc n) (length xs)"
  by (simp add: grow_def)

lemma nth_grow: "i < length (grow x n xs) \<Longrightarrow> grow x n xs ! i = (if i < length xs then xs ! i else x)"
  by (auto simp: grow_def nth_append)

definition indexed_at :: "reducemap list \<Rightarrow> nat \<Rightarrow> string \<times> entity \<times> entities \<Rightarrow> bool" where
  "indexed_at rd n x \<longleftrightarrow> n < length rd \<and> x \<in> set (rd ! n)"

text \<open>The entry that a rule must have: a registered target that is not an \<^verbatim>\<open>r-\<close> symbol and a
  right-hand side with a key, at the order of the target.\<close>

definition rule_entry :: "grammar \<Rightarrow> string \<times> entities \<Rightarrow> nat \<Rightarrow> string \<times> entity \<times> entities \<Rightarrow> bool" where
  "rule_entry g rule n x \<longleftrightarrow>
    (case x of (k, t, rhs) \<Rightarrow>
      s2o g (fst rule) = Some t \<and> repl t = [] \<and> rhs = snd rule \<and> k = all_get_key rhs \<and> k \<noteq> []
      \<and> n = nat (get_order t))"

definition keys_match :: "reducemap list \<times> string list list \<Rightarrow> bool" where
  "keys_match st \<longleftrightarrow>
    (case st of (rd, ks) \<Rightarrow>
      length ks = length rd \<and> (\<forall>n < length rd. distinct (ks ! n) \<and> set (ks ! n) = fst ` set (rd ! n)))"

lemma index_rule_step:
  assumes "keys_match st"
  shows "keys_match (index_rule g rule st)"
    and "indexed_at (fst (index_rule g rule st)) n x \<longleftrightarrow>
      indexed_at (fst st) n x \<or> rule_entry g rule n x"
proof -
  obtain rd ks where st: "st = (rd, ks)" by (cases st)
  have len: "length ks = length rd"
    and km: "\<And>i. i < length rd \<Longrightarrow> distinct (ks ! i) \<and> set (ks ! i) = fst ` set (rd ! i)"
    using assms by (auto simp: keys_match_def st)
  have "keys_match (index_rule g rule st) \<and>
    (\<forall>n x. indexed_at (fst (index_rule g rule st)) n x \<longleftrightarrow> indexed_at (fst st) n x \<or> rule_entry g rule n x)"
  proof (cases "\<exists>t. s2o g (fst rule) = Some t \<and> repl t = [] \<and> all_get_key (snd rule) \<noteq> []")
    case False
    then have "index_rule g rule st = st"
      by (auto simp: index_rule_def st Let_def split: option.splits)
    moreover from False have "\<not> rule_entry g rule n x" for n x
      by (auto simp: rule_entry_def split: prod.splits)
    ultimately show ?thesis using assms by simp
  next
    case True
    then obtain t where t: "s2o g (fst rule) = Some t" "repl t = []" "all_get_key (snd rule) \<noteq> []"
      by blast
    define m where "m = nat (get_order t)"
    define key where "key = all_get_key (snd rule)"
    define rd1 where "rd1 = (if length rd \<le> m then grow [] m rd else rd)"
    define ks1 where "ks1 = (if length rd \<le> m then grow [] m ks else ks)"
    have st': "index_rule g rule st =
      (rd1[m := mm_insert key (t, snd rule) (rd1 ! m)],
       ks1[m := (if key \<in> set (ks1 ! m) then ks1 ! m else ks1 ! m @ [key])])"
      using t by (simp add: index_rule_def st Let_def rd1_def ks1_def m_def key_def)
    have l1: "length ks1 = length rd1" "m < length rd1" "length rd \<le> length rd1"
      by (auto simp: rd1_def ks1_def len)
    have at1: "i < length rd1 \<Longrightarrow> rd1 ! i = (if i < length rd then rd ! i else [])"
      "i < length rd1 \<Longrightarrow> ks1 ! i = (if i < length rd then ks ! i else [])" for i
      using nth_grow [of i "[]" m rd] nth_grow [of i "[]" m ks] len
      by (auto simp: rd1_def ks1_def split: if_splits)
    have "i < length rd1 \<Longrightarrow> distinct (ks1 ! i) \<and> set (ks1 ! i) = fst ` set (rd1 ! i)" for i
      using at1 km by auto
    then have 1: "keys_match (index_rule g rule st)"
      using l1 by (auto simp: keys_match_def st' nth_list_update mm_insert_def)
    have r1: "indexed_at rd1 n x \<longleftrightarrow> indexed_at rd n x" for n x
      using l1 at1 by (auto simp: indexed_at_def)
    have 2: "indexed_at (fst (index_rule g rule st)) n x \<longleftrightarrow>
        indexed_at rd n x \<or> (n = m \<and> x = (key, t, snd rule))" for n x
      using l1 unfolding r1 [symmetric] by (auto simp: indexed_at_def st' nth_list_update mm_insert_def)
    have "rule_entry g rule n x \<longleftrightarrow> n = m \<and> x = (key, t, snd rule)" for n x
      using t by (auto simp: rule_entry_def m_def key_def split: prod.splits)
    with 1 2 show ?thesis by (simp add: st)
  qed
  then show "keys_match (index_rule g rule st)"
    and "indexed_at (fst (index_rule g rule st)) n x \<longleftrightarrow>
      indexed_at (fst st) n x \<or> rule_entry g rule n x"
    by blast+
qed

lemma fold_index_rule:
  "keys_match st \<Longrightarrow> keys_match (fold (index_rule g) rules st)
    \<and> (indexed_at (fst (fold (index_rule g) rules st)) n x \<longleftrightarrow>
       indexed_at (fst st) n x \<or> (\<exists>rule \<in> set rules. rule_entry g rule n x))"
proof (induction rules arbitrary: st)
  case Nil
  then show ?case by simp
next
  case (Cons r rules)
  from Cons.IH [OF index_rule_step(1) [OF Cons.prems, of g r]] index_rule_step(2) [OF Cons.prems, of g r n x]
  show ?case by auto
qed


section \<open>Invariants and errors of reading\<close>

definition table_ok :: "grammar \<Rightarrow> bool" where
  "table_ok g \<longleftrightarrow> symbols_ok g \<and> (\<forall>(k, e) \<in> set (sym_so g). embed e = [])"

definition rules_plain :: "grammar \<Rightarrow> bool" where
  "rules_plain g \<longleftrightarrow> (\<forall>x \<in> set (gra g). list_all plain_symbol (snd x))"

definition state_ok :: "grammar \<Rightarrow> bool" where
  "state_ok g \<longleftrightarrow> table_ok g \<and> rules_plain g"

lemma add_entity_table [inv_intros]:
  assumes "table_ok g" "wf_entity e" "embed e = []"
  shows "table_ok (snd (add_entity e g))"
  using assms add_entity_symbols [of g e] set_um_insert [of "to_str e" e "sym_so g"]
  by (auto simp: table_ok_def add_entity_def)

lemma add_symbol_table:
  assumes "table_ok g"
  shows "table_ok (snd (add_symbol str g))"
    and "CHR '' '' \<notin> set str \<Longrightarrow> plain_symbol (fst (add_symbol str g))"
proof -
  have "to_str e = str \<and> wf_entity e \<and> embed e = []" if "s2o g str = Some e" for e
    using that assms by (auto simp: table_ok_def symbols_ok_def s2o_def dest!: um_find_in_set)
  then show "table_ok (snd (add_symbol str g))"
    "CHR '' '' \<notin> set str \<Longrightarrow> plain_symbol (fst (add_symbol str g))"
    using assms spaceless_to_str
    by (auto simp: add_symbol_def plain_symbol_def [of "the (s2o g str)"] inv_intros split: option.split)
      (auto simp: plain_symbol_def)
qed

lemma add_words_ok:
  "table_ok g \<Longrightarrow> \<forall>p \<in> set ps. CHR '' '' \<notin> set p \<Longrightarrow>
    table_ok (snd (add_words ps g)) \<and> same_rules g (snd (add_words ps g))
    \<and> list_all plain_symbol (fst (add_words ps g))"
proof (induction ps arbitrary: g)
  case Nil
  then show ?case by simp
next
  case (Cons p ps)
  note ok = add_symbol_table [OF Cons.prems(1), of p]
  have "same_rules g (snd (add_symbol p g))" by simp
  with ok Cons.IH [OF ok(1)] Cons.prems(2) show ?case
    by (auto simp: split_beta simp del: add_symbol_rules intro: same_rules_trans)
qed

lemma state_ok_rule [inv_intros]:
  assumes "table_ok g" "gra g = gra h" "rules_plain h" "list_all plain_symbol v"
  shows "state_ok (g\<lparr>gra := mm_insert k v (gra g)\<rparr>)"
  using assms by (auto simp: state_ok_def table_ok_def symbols_ok_def rules_plain_def mm_insert_def)

lemma read_line_ok:
  assumes "state_ok (snd st)" and "read_line l st = Inr st'"
  shows "state_ok (snd st')"
proof -
  obtain key g where st: "st = (key, g)" by (cases st)
  let ?h = "ends_with l '':''"
  let ?l = "if ?h then trim_right_if (is_any_of '':'') l else l"
  define kg where "kg = (if ?h then (let (e, g) = add_symbol ?l g in (Some e, g)) else (key, g))"
  have tab: "table_ok g" "rules_plain g" using assms(1) by (simp_all add: state_ok_def st)
  have ok: "table_ok (snd kg)" "gra (snd kg) = gra g"
    using tab(1) add_symbol_table(1) [OF tab(1)] add_symbol_rules [of g ?l]
    by (auto simp: kg_def split_beta same_rules_def)
  let ?ps = "split (is_any_of '' '') (trim_left_if (is_any_of '' '') ?l)"
  have sp: "\<forall>p \<in> set ?ps. CHR '' '' \<notin> set p"
    using split_tokens [of "is_any_of '' ''"] by (fastforce simp: is_any_of_def)
  let ?w = "add_words ?ps (snd kg)"
  have w: "table_ok (snd ?w)" "gra (snd ?w) = gra g" "list_all plain_symbol (fst ?w)"
    using add_words_ok [OF ok(1) sp] ok(2) by (auto simp: same_rules_def)
  have r: "read_line l st =
    (if starts_with ?l ''  '' then
       (case fst kg of None \<Rightarrow> Inl Null_entity
        | Some k \<Rightarrow> Inr (fst kg, (snd ?w)\<lparr>gra := mm_insert (to_key k) (fst ?w) (gra (snd ?w))\<rparr>))
     else Inr kg)"
    unfolding read_line_def st kg_def by (simp add: split_beta Let_def split: option.split)
  have s1: "state_ok (snd kg)" using ok tab(2) by (simp add: state_ok_def rules_plain_def)
  have s2: "state_ok ((snd ?w)\<lparr>gra := mm_insert k (fst ?w) (gra (snd ?w))\<rparr>)" for k
    by (rule state_ok_rule [OF w(1,2) tab(2) w(3)])
  show ?thesis
    using assms(2) s1 s2 unfolding r by (auto split: if_splits option.splits)
qed

lemma read_lines_ok: "state_ok (snd st) \<Longrightarrow> read_lines ls st = Inr st' \<Longrightarrow> state_ok (snd st')"
  by (induction ls arbitrary: st) (auto split: sum.splits dest: read_line_ok)

lemma build_reducemap_frame [simp]:
  "gra (build_reducemap ord g) = gra g" "sym_so (build_reducemap ord g) = sym_so g"
  "s2o (build_reducemap ord g) k = s2o g k"
  by (simp_all add: build_reducemap_def split_beta s2o_def)

definition is_header :: "string \<Rightarrow> bool" where
  "is_header l \<longleftrightarrow> ends_with l '':''"

lemma read_line_key:
  "read_line l (key, g) = Inl Null_entity \<longleftrightarrow> key = None \<and> \<not> is_header l \<and> starts_with l ''  ''"
  "read_line l (key, g) = Inr (key', g') \<Longrightarrow> key' = None \<longleftrightarrow> key = None \<and> \<not> is_header l"
  by (auto simp: read_line_def is_header_def split_beta Let_def split: if_splits option.splits)

lemma read_lines_key: "key \<noteq> None \<Longrightarrow> \<exists>st. read_lines ls (key, g) = Inr st"
proof (induction ls arbitrary: key g)
  case Nil
  then show ?case by simp
next
  case (Cons l ls)
  then obtain key' g' where "read_line l (key, g) = Inr (key', g')"
    using read_line_key(1) [of l key g]
    by (cases "read_line l (key, g)") (auto intro: grammar_error.exhaust)
  moreover from this Cons.prems have "key' \<noteq> None" using read_line_key(2) by blast
  ultimately show ?case using Cons.IH by simp
qed

lemma read_lines_error:
  "read_lines ls (None, g) = Inl Null_entity \<longleftrightarrow>
    (case find (\<lambda>l. is_header l \<or> starts_with l ''  '') ls of None \<Rightarrow> False | Some l \<Rightarrow> \<not> is_header l)"
proof (induction ls arbitrary: g)
  case Nil
  then show ?case by simp
next
  case (Cons l ls)
  show ?case
  proof (cases "read_line l (None, g)")
    case (Inl err)
    then show ?thesis using read_line_key(1) [of l None g] by (cases err) auto
  next
    case (Inr st)
    obtain key g' where st: "st = (key, g')" by (cases st)
    have nr: "is_header l \<or> \<not> starts_with l ''  ''" using read_line_key(1) [of l None g] Inr by auto
    show ?thesis
    proof (cases "is_header l")
      case True
      then have "key \<noteq> None" using read_line_key(2) [of l None g] Inr st by auto
      then obtain st2 where "read_lines ls (key, g') = Inr st2" using read_lines_key by blast
      with Inr st True show ?thesis by simp
    next
      case False
      then have "key = None" using read_line_key(2) [of l None g] Inr st by auto
      with Inr st False nr Cons.IH show ?thesis by simp
    qed
  qed
qed


section \<open>The expansion keeps the invariants\<close>

lemma modify_all_table:
  "table_ok g \<Longrightarrow> list_all plain_symbol es \<Longrightarrow> table_ok (snd (modify_all es ms g))"
proof (induction es arbitrary: g)
  case Nil
  then show ?case by simp
next
  case (Cons e es)
  have "table_ok (snd (modify_symbol e ms g))"
    using Cons.prems unfolding modify_symbol_def
    by (intro add_entity_table) (simp_all add: plain_symbol_def wf_modified)
  with Cons show ?case by (simp add: split_beta)
qed

lemma insert_back_table:
  "table_ok g \<Longrightarrow> list_all plain_symbol es \<Longrightarrow> table_ok (snd (insert_back es v p g))"
  using modify_all_table [of g es "get_marker p"] by (simp add: insert_back_def split_beta)

lemma insert_same_table:
  "table_ok g \<Longrightarrow> list_all plain_symbol es \<Longrightarrow> table_ok (snd (insert_same es vs p g))"
  by (induction vs arbitrary: g) (simp_all add: split_beta insert_back_table)

lemma insert_each_table:
  "table_ok g \<Longrightarrow> list_all (list_all plain_symbol) rs \<Longrightarrow> table_ok (snd (insert_each rs vs p g))"
proof (induction rs vs p g rule: insert_each.induct)
  case (1 r rs v vs p g)
  obtain v' g1 where b: "insert_back r v p g = (v', g1)" by (cases "insert_back r v p g")
  have "table_ok g1" using insert_back_table [of g r v p] 1(2,3) by (simp add: b)
  with 1(1) [OF b [symmetric] refl] 1(3) show ?case by (simp add: b split_beta)
qed simp_all

lemma alternatives_plain:
  "rules_plain g \<Longrightarrow> list_all (list_all plain_symbol) (mm_range k (gra g))"
  by (auto simp: rules_plain_def list_all_iff set_mm_range)

lemma expand_symbol_table:
  assumes "table_ok (xgrammar x)" "rules_plain (xgrammar x)"
  shows "table_ok (xgrammar (expand_symbol e x))"
proof -
  let ?g = "xgrammar x"
  note pl = alternatives_plain [OF assms(2), of "to_key e"]
  show ?thesis
  proof (cases "is_r e")
    case False
    then show ?thesis using assms by (simp add: expand_symbol_def copy_symbol_def is_r_def)
  next
    case r: True
    show ?thesis
    proof (cases "mm_range (to_key e) (gra ?g)" rule: remdups_adj.cases)
      case 1
      with r assms show ?thesis by (simp add: expand_symbol_def is_r_def)
    next
      case (2 a)
      with r pl insert_same_table [OF assms(1), of a "newvalues x" e] show ?thesis
        by (simp add: expand_symbol_def is_r_def split_beta)
    next
      case (3 a b as)
      show ?thesis
      proof (cases "newvalues x" rule: remdups_adj.cases)
        case (2 v)
        with 3 r insert_each_table [OF assms(1) pl, of "replicate (length (mm_range (to_key e) (gra ?g))) v" e]
        show ?thesis by (simp add: expand_symbol_def is_r_def split_beta)
      qed (use 3 r assms in \<open>simp_all add: expand_symbol_def copy_symbol_def is_r_def\<close>)
    qed
  qed
qed

lemma insert_gra [simp]:
  "gra (snd (insert_back es v p g)) = gra g"
  "gra (snd (insert_same es vs p g)) = gra g"
  using insert_back_eq [of es v p g] insert_same_eq [of es vs p g] by (simp_all add: same_rules_gra)

lemma insert_each_gra [simp]: "gra (snd (insert_each rs vs p g)) = gra g"
proof (induction rs vs p g rule: insert_each.induct)
  case (1 r rs v vs p g)
  obtain v' g1 where b: "insert_back r v p g = (v', g1)" by (cases "insert_back r v p g")
  have "gra g1 = gra g" using insert_gra(1) [of r v p g] by (simp add: b)
  with 1 [OF b [symmetric] refl] show ?case by (simp add: b split_beta)
qed simp_all

lemma expand_symbol_gra: "gra (xgrammar (expand_symbol e x)) = gra (xgrammar x)"
  unfolding expand_symbol_def
  by (simp add: Let_def copy_symbol_def split_beta split: list.split)

lemma fold_expand_symbol_table:
  "table_ok (xgrammar x) \<Longrightarrow> rules_plain (xgrammar x) \<Longrightarrow> table_ok (xgrammar (fold expand_symbol es x))"
proof (induction es arbitrary: x)
  case Nil
  then show ?case by simp
next
  case (Cons e es)
  have "rules_plain (xgrammar (expand_symbol e x))"
    using Cons.prems(2) by (simp add: rules_plain_def expand_symbol_gra)
  with Cons expand_symbol_table [of x e] show ?case by simp
qed

lemma expand_rules_table:
  "table_ok g \<Longrightarrow> rules_plain g \<Longrightarrow> expand_rules rules new (n, c, g) = (new', n', c', g') \<Longrightarrow> table_ok g'"
proof (induction rules arbitrary: new n c g)
  case Nil
  then show ?case by simp
next
  case (Cons r rules)
  obtain k v where r: "r = (k, v)" by (cases r)
  let ?x = "expand_entry v (n, c, g)"
  have t: "table_ok (xgrammar ?x)"
    using Cons.prems(1,2) by (simp add: expand_entry_def fold_expand_symbol_table)
  have "rules_plain (xgrammar ?x)"
    using Cons.prems(2) expand_entry_eq(2) [of g v n c] by (simp add: rules_plain_def same_rules_def)
  with Cons.IH [OF t] Cons.prems(3) show ?case by (simp add: r Let_def)
qed

lemma choices_plain:
  "rules_plain g \<Longrightarrow> list_all plain_symbol es \<Longrightarrow>
    opt \<in> set (choices g used es) \<Longrightarrow> a \<in> set opt \<Longrightarrow> list_all plain_symbol a"
proof (induction es arbitrary: used)
  case Nil
  then show ?case by simp
next
  case (Cons e es)
  have "list_all plain_symbol b" if "b \<in> set (alternatives g e)" for b
    using that alternatives_plain [OF Cons.prems(1), of "to_key e"] Cons.prems(2)
    by (auto simp: alternatives_def inserted_def list_all_iff plain_modified)
  moreover have "list_all plain_symbol [e]" "list_all plain_symbol es" using Cons.prems(2) by simp_all
  ultimately show ?case
    using Cons.IH [OF Cons.prems(1)] Cons.prems(3,4) by (auto split: if_splits)
qed

lemma product_lists_elems: "c \<in> set (product_lists opts) \<Longrightarrow> a \<in> set c \<Longrightarrow> \<exists>opt \<in> set opts. a \<in> set opt"
proof (induction opts arbitrary: c)
  case Nil
  then show ?case by simp
next
  case (Cons opt opts)
  then obtain b d where "c = b # d" "b \<in> set opt" "d \<in> set (product_lists opts)" by auto
  with Cons.IH [of d] Cons.prems(2) show ?case by auto
qed

lemma expand_step_ok:
  assumes "good_order ord" "state_ok g" "expand_step ord g = (d, n, g')"
  shows "state_ok g' \<and> fst ` set (gra g') \<subseteq> fst ` set (gra g)"
proof -
  obtain new n c h where e: "expand_rules (iterate ord (gra g)) [] (0, True, g) = (new, n, c, h)"
    by (metis prod_cases4)
  have g': "g' = h\<lparr>gra := new\<rparr>" using assms(3) by (simp add: expand_step_def e)
  have "table_ok h" using assms(2) expand_rules_table [OF _ _ e] by (simp add: state_ok_def)
  moreover have new: "new = expanded_rules g (iterate ord (gra g))"
    using expand_rules_eq(1) [OF e] by simp
  have pl: "list_all plain_symbol (concat c)"
    if "(k, v) \<in> set (gra g)" "c \<in> set (product_lists (choices g False v))" for k v c
  proof -
    have "rules_plain g" "list_all plain_symbol v"
      using assms(2) that(1) by (force simp: state_ok_def rules_plain_def)+
    then have "\<forall>a \<in> set c. list_all plain_symbol a"
      using product_lists_elems [OF that(2)] choices_plain by blast
    then show ?thesis by (auto simp: list_all_iff)
  qed
  then have "\<forall>x \<in> set new. list_all plain_symbol (snd x)"
    by (auto simp: new expanded_rules_def set_iterate [OF assms(1)])
  moreover have "fst ` set new \<subseteq> fst ` set (gra g)"
    by (force simp: new expanded_rules_def set_iterate [OF assms(1)])
  ultimately show ?thesis
    by (simp add: g' state_ok_def table_ok_def symbols_ok_def rules_plain_def)
qed

lemma expand_loop_ok:
  "expand_loop ord g = Some g' \<Longrightarrow>
    good_order ord \<longrightarrow> state_ok g \<longrightarrow> state_ok g' \<and> fst ` set (gra g') \<subseteq> fst ` set (gra g)"
proof (erule expand_loop.raw_induct [rotated])
  fix loop ord g g'
  assume ih: "\<And>ord g g'. loop ord g = Some g' \<Longrightarrow>
      good_order ord \<longrightarrow> state_ok g \<longrightarrow> state_ok g' \<and> fst ` set (gra g') \<subseteq> fst ` set (gra g)"
    and r: "(case expand_step ord g of (done, n, g') \<Rightarrow> if done then Some g' else loop ord g') = Some g'"
  obtain d n h where s: "expand_step ord g = (d, n, h)" by (metis prod_cases3)
  show "good_order ord \<longrightarrow> state_ok g \<longrightarrow> state_ok g' \<and> fst ` set (gra g') \<subseteq> fst ` set (gra g)"
  proof (cases d)
    case True
    then show ?thesis using r expand_step_ok [OF _ _ s] by (simp add: s)
  next
    case False
    then have "loop ord h = Some g'" using r by (simp add: s)
    from ih [OF this] expand_step_ok [OF _ _ s] show ?thesis by blast
  qed
qed

lemma expand_ok:
  assumes "good_order ord" "state_ok g" "expand ord g = Some g'"
  shows "state_ok g' \<and> fst ` set (gra g') \<subseteq> fst ` set (gra g)"
proof -
  obtain h where h: "expand_loop ord g = Some h" and g': "g' = build_reducemap ord h"
    using assms(3) by (auto simp: expand_def)
  have "state_ok h \<and> fst ` set (gra h) \<subseteq> fst ` set (gra g)"
    using expand_loop_ok [OF h] assms(1,2) by blast
  then show ?thesis
    unfolding g' state_ok_def table_ok_def symbols_ok_def rules_plain_def build_reducemap_frame .
qed

section \<open>Properties\<close>

text \<open>C16. Reading a grammar file fails, by following the null pointer to the last header, exactly
  when an indented line comes before the first line that ends in a colon.\<close>

theorem read_grammar_error:
  "read_grammar ord (Some txt) g = Inl Null_entity \<longleftrightarrow>
    (case find (\<lambda>l. is_header l \<or> starts_with l ''  '') (split_lines txt) of
       None \<Rightarrow> False
     | Some l \<Rightarrow> \<not> is_header l)"
  using read_lines_error [of "split_lines txt" g]
  by (cases "read_lines (split_lines txt) (None, g)")
    (auto simp: read_grammar_def intro: grammar_error.exhaust)

lemma state_ok_new: "state_ok grammar_new"
  by (simp add: state_ok_def table_ok_def rules_plain_def symbols_ok_def grammar_new_def)

lemma read_grammar_ok:
  assumes "read_grammar ord file g = Inr (r, g')" and "state_ok g"
  shows "state_ok g'"
proof (cases "file")
  case None
  with assms show ?thesis by (simp add: read_grammar_def)
next
  case (Some s)
  show ?thesis
  proof (cases "read_lines (split_lines s) (None, g)")
    case (Inl err)
    then show ?thesis using assms(1) by (simp add: Some read_grammar_def)
  next
    case (Inr st)
    obtain key h where st: "st = (key, h)" by (cases st)
    have g': "g' = build_reducemap ord h"
      using assms(1) unfolding Some read_grammar_def option.case Inr sum.case st prod.case by blast
    have "state_ok (snd st)" by (rule read_lines_ok [OF _ Inr]) (simp add: assms(2))
    then have "state_ok h" by (simp add: st)
    then show ?thesis
      unfolding g' state_ok_def table_ok_def symbols_ok_def rules_plain_def build_reducemap_frame .
  qed
qed

text \<open>A grammar that was read from a file, whatever its text, has a coherent symbol table (every
  entry is a well-formed entity without children, filed under its own printed form), and every
  symbol of every rule is well formed and contains no space.\<close>

theorem read_grammar_symbols:
  assumes "read_grammar ord file grammar_new = Inr (r, g')"
  shows "table_ok g' \<and> rules_plain g'"
  using read_grammar_ok [OF assms state_ok_new] by (simp add: state_ok_def)

definition nested_rules :: string where
  "nested_rules = concat (map (\<lambda>l. l @ [newline])
    [''s-all:'', ''  r-a'', ''r-a:'', ''  r-b'', ''  d-z'', ''r-b:'', ''  d-x'', ''  d-y''])"

definition nested_grammar :: grammar where
  "nested_grammar =
    (case read_grammar remdups (Some nested_rules) grammar_new of Inr (r, g) \<Rightarrow> g | Inl err \<Rightarrow> grammar_new)"

lemma nested_grammar_read:
  "read_grammar remdups (Some nested_rules) grammar_new = Inr (0, nested_grammar)"
  by code_simp

lemma nested_grammar_length: "length (gra nested_grammar) = 5"
  by code_simp

theorem read_grammar_symbols_witness:
  "table_ok nested_grammar \<and> rules_plain nested_grammar \<and> length (gra nested_grammar) = 5"
  using read_grammar_symbols [OF nested_grammar_read] nested_grammar_length by simp

text \<open>C10. The index built from the rules is sound and complete: at each order it holds exactly the
  rules whose target is registered with that order and is not an \<^verbatim>\<open>r-\<close> symbol, under the keys of
  their right-hand side.\<close>

theorem build_reducemap_index:
  assumes "good_order ord"
  shows "indexed_at (red (build_reducemap ord g)) n x \<longleftrightarrow> (\<exists>rule \<in> set (gra g). rule_entry g rule n x)"
proof -
  have "keys_match ([], [])" by (simp add: keys_match_def)
  from fold_index_rule [OF this, of g "iterate ord (gra g)" n x] show ?thesis
    by (simp add: build_reducemap_def split_beta set_iterate [OF assms]) (simp add: indexed_at_def)
qed

theorem build_reducemap_index_witness:
  "indexed_at (red (build_reducemap remdups nested_grammar)) 1
    ('' r-a '', new_entity ''s-all'' [], [new_entity ''r-a'' []])"
  unfolding build_reducemap_index [OF good_order_remdups]
  by code_simp

text \<open>At every order the keys are listed once each, longest first, and are those of the rules of
  that order: the reducer tries the longest right-hand sides first and misses none.\<close>

theorem build_reducemap_keys:
  assumes "good_order ord" and "n < length (red (build_reducemap ord g))"
  shows "let ks = red_keys_sorted (build_reducemap ord g) ! n
    in distinct ks \<and> set ks = fst ` set (red (build_reducemap ord g) ! n)
       \<and> sorted_wrt (\<lambda>k k'. length k' \<le> length k) ks"
proof -
  let ?st = "fold (index_rule g) (iterate ord (gra g)) ([], [])"
  have "keys_match ([], [])" by (simp add: keys_match_def)
  then have km: "keys_match ?st" using fold_index_rule by blast
  have n: "n < length (fst ?st)" "red (build_reducemap ord g) = fst ?st"
    using assms(2) by (simp_all add: build_reducemap_def split_beta)
  have ks: "red_keys_sorted (build_reducemap ord g) ! n = sort_keys ord (snd ?st ! n)"
    and m: "distinct (snd ?st ! n)" "set (snd ?st ! n) = fst ` set (fst ?st ! n)"
    using km n by (auto simp: build_reducemap_def split_beta keys_match_def)
  have "sorted (map (\<lambda>k. - int (length k)) (sort_keys ord (snd ?st ! n)))"
    by (simp add: sort_keys_def)
  then have "sorted_wrt (\<lambda>k k'. length k' \<le> length k) (sort_keys ord (snd ?st ! n))"
    by (simp add: sorted_map)
  then show ?thesis
    using m assms(1) by (simp add: ks n(2) Let_def sort_keys_def good_order_def)
qed

theorem build_reducemap_keys_witness:
  "sorted_wrt (\<lambda>k k'. length k' \<le> length k) (red_keys_sorted (build_reducemap remdups nested_grammar) ! 1)"
proof -
  have "1 < length (red (build_reducemap remdups nested_grammar))" by code_simp
  from build_reducemap_keys [OF good_order_remdups this] show ?thesis by (simp add: Let_def)
qed

text \<open>One step of the expansion replaces every rule by the product of the alternatives of its
  symbols, with the markers of the replaced symbol added, where from the second symbol with several
  alternatives on such a symbol is kept for the next run; it reports completion exactly when no rule
  had two symbols with several alternatives.\<close>

theorem expand_step_product:
  "let rules = iterate ord (gra g); (done, n, g') = expand_step ord g
   in gra g' = concat (map (\<lambda>(k, v).
        map (\<lambda>c. (k, concat c)) (product_lists (choices g False v))) rules)
      \<and> (done \<longleftrightarrow> list_all (\<lambda>(k, v). choice_count g v \<le> 1) rules)"
proof -
  obtain new n c g' where e: "expand_rules (iterate ord (gra g)) [] (0, True, g) = (new, n, c, g')"
    by (metis prod_cases4)
  show ?thesis
    using expand_rules_eq(1,2) [OF e]
    by (simp add: expand_step_def e Let_def expanded_rules_def)
qed

text \<open>The expansion may return with unexpanded symbols: here a symbol with two alternatives is an
  alternative of another one, no rule has two of them, the first run reports completion, and
  \<^verbatim>\<open>s-all\<close> keeps a right-hand side that is the symbol \<^verbatim>\<open>r-b\<close>.\<close>

theorem expand_leaves_choice:
  "\<exists>g'. expand remdups nested_grammar = Some g'
    \<and> (''s-all'', [new_entity ''r-b'' []]) \<in> set (gra g') \<and> is_choice g' (new_entity ''r-b'' [])"
proof -
  have "fst (expand_step remdups nested_grammar)" by code_simp
  then obtain n g1 where s: "expand_step remdups nested_grammar = (True, n, g1)"
    by (cases "expand_step remdups nested_grammar") auto
  have "let (d, n, g') = expand_step remdups nested_grammar in
      (''s-all'', [new_entity ''r-b'' []]) \<in> set (gra g') \<and> is_choice g' (new_entity ''r-b'' [])"
    by code_simp
  then show ?thesis
    unfolding expand_def expand_loop_done [OF s] s
    by (simp add: is_choice_def alternatives_def)
qed

end
