(* ===== verification/Reduce.thy ===== *)
theory Reduce
  imports Grammar
begin

text \<open>
  The bottom-up parser of \<^verbatim>\<open>hal2012-grammar2012.cpp\<close>: \<^verbatim>\<open>parse_input\<close>, \<^verbatim>\<open>replace_in_vector\<close>,
  \<^verbatim>\<open>reduce_step\<close>, \<^verbatim>\<open>reduce\<close> and \<^verbatim>\<open>parse\<close>.

  A state of the parse is a list of parse trees. A step looks for the rules of the lowest order
  whose right-hand side occurs in the state, keeps those with one target and the longest right-hand
  side, and gives the states in which the occurrence is one node. The search runs a fixed number of
  steps and collects the states that are one \<^verbatim>\<open>s-all\<close> tree.
\<close>

section \<open>The input\<close>

text \<open>The marker and the words: a fresh object each, registered, then given its text. The registered
  object is the one that gets the text, so it is entered with it.\<close>

definition input_word :: "string \<Rightarrow> string \<Rightarrow> grammar \<Rightarrow> entity \<times> grammar" where
  "input_word part txt g = add_entity (set_text txt (new_entity part [])) g"

fun parse_words :: "string list \<Rightarrow> grammar \<Rightarrow> entities \<times> grammar" where
  "parse_words [] g = ([], g)"
| "parse_words (w # ws) g =
    (if w = [] \<or> w = ''null'' then parse_words ws g
     else (case split (is_any_of ''|<'') w of
             [part, txt] \<Rightarrow>
               (let (e, g1) = input_word (trim part) (trim txt) g;
                    (es, g2) = parse_words ws g1
                in (e # es, g2))
           | _ \<Rightarrow> parse_words ws g))"

definition parse_input :: "string \<Rightarrow> grammar \<Rightarrow> entities \<times> grammar" where
  "parse_input words g =
    (let (first, g1) = input_word ''d-^'' [] g;
         (es, g2) = parse_words (split (is_any_of ''#>'') words) g1;
         (end_marker, g3) = input_word ''d-$'' [] g2
     in (first # es @ [end_marker], g3))"

section \<open>Replacing an occurrence\<close>

text \<open>The comparison stops at the end of either list, so an occurrence may be cut off by the end of
  the input.\<close>

fun match_keys :: "entities \<Rightarrow> entities \<Rightarrow> bool" where
  "match_keys (v # vs) (f # fs) = (to_key v = to_key f \<and> match_keys vs fs)"
| "match_keys [] fs = True"
| "match_keys (v # vs) [] = True"

fun mark_found :: "entities \<Rightarrow> entities \<Rightarrow> grammar \<Rightarrow> entities \<times> grammar" where
  "mark_found (v # vs) (f # fs) g =
    (let (e, g1) = modify_symbol v (get_marker f) g;
         (es, g2) = mark_found vs fs g1
     in (e # es, g2))"
| "mark_found [] fs g = ([], g)"
| "mark_found (v # vs) [] g = ([], g)"

fun replace_loop :: "entities \<Rightarrow> entities \<Rightarrow> entity \<Rightarrow> grammar \<Rightarrow> entities \<times> grammar" where
  "replace_loop [] fs replacement g = ([], g)"
| "replace_loop (v # vs) fs replacement g =
    (if match_keys (v # vs) fs then
       (let (found_vec, g1) = mark_found (v # vs) fs g;
            (e, g2) = add_entity (new_entity (to_str replacement) found_vec) g1
        in (e # drop (length fs) (v # vs), g2))
     else
       (let (rest, g1) = replace_loop vs fs replacement g in (v # rest, g1)))"

definition replace_in_vector :: "entities \<Rightarrow> entities \<Rightarrow> entity \<Rightarrow> grammar \<Rightarrow> entities \<times> grammar" where
  "replace_in_vector vs fs replacement g =
    (if fs = [] then (vs, g) else replace_loop vs fs replacement g)"

section \<open>One step of the reduction\<close>

type_synonym reducelist = "entities hmap"

record step_state =
  by_complexity :: "(nat \<times> reducelist) hmap"
  reduce_to :: string
  found :: bool
  step_grammar :: grammar

text \<open>Rules compete when their targets print alike; of a target whose print contains a dollar sign
  only the rest from there counts.\<close>

definition complexity_key :: "entity \<Rightarrow> string" where
  "complexity_key target =
    (let k = print_entity target in
     if str_contains k ''$'' then ''{'' @ dropWhile (\<lambda>c. c \<noteq> CHR ''$'') k else k)"

definition try_rule :: "entities \<Rightarrow> entity \<times> entities \<Rightarrow> step_state \<Rightarrow> step_state" where
  "try_rule old rule st =
    (let (target, rhs) = rule; ck = complexity_key target in
     if reduce_to st \<noteq> [] \<and> ck \<noteq> reduce_to st then st
     else
       (let complexity = length rhs;
            best = (case um_find (by_complexity st) ck of Some (c, l) \<Rightarrow> c | None \<Rightarrow> 0)
        in if best \<le> complexity then
             (let st1 = (if best < complexity then
                           st\<lparr>by_complexity :=
                                um_insert ck (complexity, []) (um_erase ck (by_complexity st)),
                              reduce_to := ck, found := True\<rparr>
                         else st);
                  (new, g) = replace_in_vector old rhs target (step_grammar st1);
                  l0 = (case um_find (by_complexity st1) ck of Some (c, l) \<Rightarrow> l | None \<Rightarrow> []);
                  l1 = um_insert (all_to_str new) new l0;
                  l2 = (if str_contains ck ''*'' then um_insert (all_to_str old) old l1 else l1)
              in st1\<lparr>by_complexity := um_set ck (complexity, l2) (by_complexity st1),
                     step_grammar := g\<rparr>)
           else st))"

definition try_key :: "entities \<Rightarrow> reducemap \<Rightarrow> string \<Rightarrow> step_state \<Rightarrow> step_state" where
  "try_key old rules key st =
    (if str_contains (all_get_key old) key then fold (try_rule old) (mm_range key rules) st else st)"

fun try_orders :: "entities \<Rightarrow> (string list \<times> reducemap) list \<Rightarrow> step_state \<Rightarrow> step_state" where
  "try_orders old [] st = st"
| "try_orders old ((keys, rules) # orders) st =
    (if found st then st
     else try_orders old orders (fold (try_key old rules) keys st))"

definition reduce_step :: "hash_order \<Rightarrow> entities \<Rightarrow> grammar \<Rightarrow> reducelist \<times> grammar" where
  "reduce_step ord old g =
    (let st = try_orders old (zip (red_keys_sorted g) (red g))
                \<lparr>by_complexity = [], reduce_to = [], found = False, step_grammar = g\<rparr>
     in (fold (\<lambda>(k, v). um_insert k v)
           (concat (map (\<lambda>(ck, c, l). iterate ord l) (iterate ord (by_complexity st)))) [],
         step_grammar st))"

section \<open>The search\<close>

fun reduce_all :: "hash_order \<Rightarrow> (string \<times> entities) list \<Rightarrow> reducelist \<Rightarrow> grammar \<Rightarrow> reducelist \<times> grammar" where
  "reduce_all ord [] new g = (new, g)"
| "reduce_all ord ((k, ws) # states) new g =
    (let (temp, g1) = reduce_step ord ws g
     in reduce_all ord states (fold (\<lambda>(k, v). um_insert k v) (iterate ord temp) new) g1)"

definition is_final :: "entities \<Rightarrow> bool" where
  "is_final ws \<longleftrightarrow> (case ws of [e] \<Rightarrow> to_key e = ''s-all'' | _ \<Rightarrow> False)"

fun reduce_loop :: "hash_order \<Rightarrow> nat \<Rightarrow> reducelist \<Rightarrow> entities list \<Rightarrow> grammar \<Rightarrow> entities list \<times> grammar" where
  "reduce_loop ord 0 words_list final g = (final, g)"
| "reduce_loop ord (Suc n) words_list final g =
    (if words_list = [] then (final, g)
     else
       (let (new, g1) = reduce_all ord (iterate ord words_list) [] g
        in reduce_loop ord n new
             (final @ filter is_final (map snd (iterate ord new))) g1))"

text \<open>\<^verbatim>\<open>while (step++ <= 50)\<close> from 0 runs the body 51 times.\<close>

definition reduce_steps :: nat where
  "reduce_steps = 51"

definition reduce :: "hash_order \<Rightarrow> entities \<Rightarrow> grammar \<Rightarrow> entities list \<times> grammar" where
  "reduce ord old g = reduce_loop ord reduce_steps [(all_to_str old, old)] [] g"

definition parse :: "hash_order \<Rightarrow> string \<Rightarrow> grammar \<Rightarrow> entities list \<times> grammar" where
  "parse ord words g = (let (ws, g1) = parse_input words g in reduce ord ws g1)"


section \<open>What replacing does\<close>

text \<open>The trees do not depend on the symbol table: registering is only bookkeeping.\<close>

definition marked :: "entities \<Rightarrow> entities \<Rightarrow> entities" where
  "marked vs fs = map2 (\<lambda>v f. modified v (get_marker f)) vs fs"

fun replaced :: "entities \<Rightarrow> entities \<Rightarrow> entity \<Rightarrow> entities" where
  "replaced [] fs t = []"
| "replaced (v # vs) fs t =
    (if match_keys (v # vs) fs then
       new_entity (to_str t) (marked (v # vs) fs) # drop (length fs) (v # vs)
     else v # replaced vs fs t)"

lemma mark_found_eq:
  "fst (mark_found vs fs g) = marked vs fs \<and> same_rules g (snd (mark_found vs fs g))"
proof (induction vs fs g rule: mark_found.induct)
  case (1 v vs f fs g)
  have m: "fst (modify_symbol v (get_marker f) g) = modified v (get_marker f)"
    "same_rules g (snd (modify_symbol v (get_marker f) g))" by simp_all
  with 1 show ?case
    by (cases "modify_symbol v (get_marker f) g")
      (auto simp: marked_def split_beta intro: same_rules_trans)
qed (simp_all add: marked_def)

lemma replace_loop_eq:
  "fst (replace_loop vs fs t g) = replaced vs fs t \<and> same_rules g (snd (replace_loop vs fs t g))"
proof (induction vs arbitrary: g)
  case Nil
  then show ?case by simp
next
  case (Cons v vs)
  note m = mark_found_eq [of "v # vs" fs g]
  have "same_rules g (snd (add_entity e (snd (mark_found (v # vs) fs g))))" for e
    using m add_entity_rules same_rules_trans by blast
  with m Cons show ?case by (auto simp: split_beta)
qed

lemma replace_in_vector_eq:
  "fs \<noteq> [] \<Longrightarrow> fst (replace_in_vector vs fs t g) = replaced vs fs t"
  "same_rules g (snd (replace_in_vector vs fs t g))"
  using replace_loop_eq [of vs fs t g] by (simp_all add: replace_in_vector_def)

lemma match_keys_append:
  "length us = length fs \<Longrightarrow> match_keys (us @ vs) fs \<longleftrightarrow> map to_key us = map to_key fs"
proof (induction us fs rule: list_induct2)
  case Nil
  then show ?case by (cases vs) simp_all
qed simp

lemma match_keys_take:
  "length fs \<le> length vs \<Longrightarrow> match_keys vs fs \<longleftrightarrow> map to_key (take (length fs) vs) = map to_key fs"
  using match_keys_append [of "take (length fs) vs" fs "drop (length fs) vs"] by simp

lemma marked_append:
  "length us = length fs \<Longrightarrow> marked (us @ vs) fs = marked us fs"
  by (simp add: marked_def zip_append1)

text \<open>When the keys occur in full, the first match is a full one: a match cut off by the end of
  the list starts later.\<close>

lemma replaced_full:
  assumes "sublist (map to_key fs) (map to_key vs)" and "fs \<noteq> []"
  shows "\<exists>us ws xs. vs = us @ ws @ xs \<and> map to_key ws = map to_key fs
    \<and> replaced vs fs t = us @ new_entity (to_str t) (marked ws fs) # xs"
  using assms(1)
proof (induction vs)
  case Nil
  with assms(2) show ?case by simp
next
  case (Cons v vs)
  have len: "length fs \<le> length (v # vs)"
    using Cons.prems by (auto dest: sublist_length_le)
  show ?case
  proof (cases "match_keys (v # vs) fs")
    case True
    let ?ws = "take (length fs) (v # vs)"
    have l: "length ?ws = length fs" using len by simp
    have m: "map to_key ?ws = map to_key fs" using True match_keys_take [OF len] by blast
    have "v # vs = [] @ ?ws @ drop (length fs) (v # vs)" by simp
    moreover have "marked (v # vs) fs = marked ?ws fs"
      using marked_append [OF l, of "drop (length fs) (v # vs)"] by (simp only: append_take_drop_id)
    ultimately show ?thesis using m True by (metis append_Nil replaced.simps(2))
  next
    case False
    have "\<not> prefix (map to_key fs) (map to_key (v # vs))"
    proof
      assume "prefix (map to_key fs) (map to_key (v # vs))"
      then have "take (length fs) (map to_key (v # vs)) = map to_key fs"
        by (auto simp: prefix_def)
      with False show False by (simp only: match_keys_take [OF len] take_map)
    qed
    with Cons.prems have "sublist (map to_key fs) (map to_key vs)"
      by (simp add: sublist_Cons_right)
    from Cons.IH [OF this] obtain us ws xs where
      "vs = us @ ws @ xs" "map to_key ws = map to_key fs"
      "replaced vs fs t = us @ new_entity (to_str t) (marked ws fs) # xs" by blast
    then have "v # vs = (v # us) @ ws @ xs"
      "replaced (v # vs) fs t = (v # us) @ new_entity (to_str t) (marked ws fs) # xs"
      using False by simp_all
    with \<open>map to_key ws = map to_key fs\<close> show ?thesis by blast
  qed
qed


section \<open>Parse trees and their leaves\<close>

text \<open>The rules of the index, and what the reducer needs of them: the key under which a rule is filed
  is that of its right-hand side, which is not empty, and keys contain no space, so that the spaces
  between them separate.\<close>

definition index_rules :: "grammar \<Rightarrow> (entity \<times> entities) list" where
  "index_rules g = map snd (concat (red g))"

definition symbol_ok :: "entity \<Rightarrow> bool" where
  "symbol_ok e \<longleftrightarrow> wf_entity e \<and> embed e = [] \<and> CHR '' '' \<notin> set (to_key e)"

definition rules_ok :: "grammar \<Rightarrow> bool" where
  "rules_ok g \<longleftrightarrow>
    list_all (\<lambda>(k, t, rhs). k = all_get_key rhs \<and> rhs \<noteq> [] \<and> symbol_ok t \<and> list_all symbol_ok rhs)
      (concat (red g))"

text \<open>A node stands for a rule: it has the key and the markers of the target, and its children have
  the keys and the markers of the right-hand side, one for one.\<close>

definition carries :: "entity \<Rightarrow> entity \<Rightarrow> bool" where
  "carries e f \<longleftrightarrow> to_key e = to_key f \<and> set (marks f) \<subseteq> set (virt e)"

definition node_of :: "entity \<times> entities \<Rightarrow> entity \<Rightarrow> bool" where
  "node_of rule e \<longleftrightarrow>
    (case rule of (t, rhs) \<Rightarrow> to_key e = to_key t \<and> set (virt t) \<subseteq> set (virt e)
      \<and> list_all2 carries (embed e) rhs)"

fun valid_tree :: "(entity \<times> entities) list \<Rightarrow> entity \<Rightarrow> bool" where
  "valid_tree rules (Entity d s r v t em n) =
    (em = [] \<or> (list_ex (\<lambda>rule. node_of rule (Entity d s r v t em n)) rules
                \<and> list_all (valid_tree rules) em))"

fun leaves :: "entity \<Rightarrow> (string \<times> string) list" where
  "leaves e = (if embed e = [] then [(to_key e, etext e)] else concat (map leaves (embed e)))"

declare leaves.simps [simp del] valid_tree.simps [simp del]

lemma valid_tree_eq:
  "valid_tree rules e \<longleftrightarrow>
    embed e = [] \<or> (list_ex (\<lambda>rule. node_of rule e) rules \<and> list_all (valid_tree rules) (embed e))"
  by (cases e) (simp add: valid_tree.simps)

lemma valid_leaf: "embed e = [] \<Longrightarrow> valid_tree rules e"
  by (simp add: valid_tree_eq)

definition tree_ok :: "(entity \<times> entities) list \<Rightarrow> entity \<Rightarrow> bool" where
  "tree_ok rules e \<longleftrightarrow> wf_entity e \<and> CHR '' '' \<notin> set (to_key e) \<and> valid_tree rules e"

definition all_leaves :: "entities \<Rightarrow> (string \<times> string) list" where
  "all_leaves es = concat (map leaves es)"

lemma add_virt_node: "node_of rule e \<Longrightarrow> node_of rule (add_virt e ws)"
  by (auto simp: node_of_def split: prod.splits)

lemma add_virt_leaves [simp]: "leaves (add_virt e ws) = leaves e"
  by (simp add: leaves.simps [of "add_virt e ws"] leaves.simps [of e])

lemma add_virt_valid: "valid_tree rules e \<Longrightarrow> valid_tree rules (add_virt e ws)"
  unfolding valid_tree_eq [of rules "add_virt e ws"] valid_tree_eq [of rules e]
  unfolding list_ex_iff add_virt_sel using add_virt_node by blast

lemma marked_child:
  assumes e: "tree_ok rules e" and f: "symbol_ok f" and key: "to_key e = to_key f"
  shows "tree_ok rules (modified e (get_marker f))" "carries (modified e (get_marker f)) f"
    "leaves (modified e (get_marker f)) = leaves e"
proof -
  have m: "modified e (get_marker f) = add_virt e (marks f)"
    using e f key by (intro modified_marker) (simp_all add: tree_ok_def symbol_ok_def)
  have "wf_entity (modified e (get_marker f))" using e by (intro wf_modified) (simp add: tree_ok_def)
  with e show "tree_ok rules (modified e (get_marker f))"
    by (simp add: tree_ok_def m add_virt_valid)
  show "carries (modified e (get_marker f)) f" "leaves (modified e (get_marker f)) = leaves e"
    using key by (simp_all add: m carries_def)
qed

lemma marked_children:
  assumes "length ws = length fs" and "list_all (tree_ok rules) ws" and "list_all symbol_ok fs"
    and "map to_key ws = map to_key fs"
  shows "list_all (tree_ok rules) (marked ws fs) \<and> list_all2 carries (marked ws fs) fs
    \<and> all_leaves (marked ws fs) = all_leaves ws"
  using assms
proof (induction ws fs rule: list_induct2)
  case Nil
  then show ?case by (simp add: marked_def all_leaves_def)
next
  case (Cons w ws f fs)
  then have "tree_ok rules w" "symbol_ok f" "to_key w = to_key f" by simp_all
  from marked_child [OF this] Cons show ?case by (simp add: marked_def all_leaves_def)
qed

lemma new_node:
  assumes t: "symbol_ok t" and rule: "(t, fs) \<in> set rules" and fs: "list_all symbol_ok fs" "fs \<noteq> []"
    and ws: "list_all (tree_ok rules) ws" "map to_key ws = map to_key fs"
  shows "tree_ok rules (new_entity (to_str t) (marked ws fs))"
    and "leaves (new_entity (to_str t) (marked ws fs)) = all_leaves ws"
    and "to_key (new_entity (to_str t) (marked ws fs)) = to_key t"
proof -
  let ?n = "new_entity (to_str t) (marked ws fs)"
  have len: "length ws = length fs" using ws(2) by (rule map_eq_imp_length_eq)
  note m = marked_children [OF len ws(1) fs(1) ws(2)]
  have tw: "wf_entity t" "embed t = []" using t by (simp_all add: symbol_ok_def)
  show k: "to_key ?n = to_key t"
    using to_key_new_entity_printed [OF tw(1)] by (simp add: to_str_leaf [OF tw(2)])
  have v: "virt ?n = virt t"
    using new_entity_printed [OF tw(1)] by (simp add: to_str_leaf [OF tw(2)])
  have e: "embed ?n = marked ws fs" by simp
  have ne: "marked ws fs \<noteq> []" using m fs(2) by auto
  have "node_of (t, fs) ?n" using m k v e by (simp add: node_of_def)
  then have "list_ex (\<lambda>rule. node_of rule ?n) rules" using rule by (auto simp: list_ex_iff)
  moreover have "list_all (valid_tree rules) (marked ws fs)"
    using m by (auto simp: list_all_iff tree_ok_def)
  ultimately have "valid_tree rules ?n" unfolding valid_tree_eq [of rules ?n] e by blast
  then show "tree_ok rules ?n"
    using t k wf_new_entity by (simp add: tree_ok_def symbol_ok_def)
  show "leaves ?n = all_leaves ws"
    using m ne by (simp add: leaves.simps [of ?n] all_leaves_def)
qed


definition words_ok :: "(entity \<times> entities) list \<Rightarrow> (string \<times> string) list \<Rightarrow> entities \<Rightarrow> bool" where
  "words_ok rules input ws \<longleftrightarrow> list_all (tree_ok rules) ws \<and> all_leaves ws = input"

lemma all_get_key_spaced: "all_get_key es = spaced (map to_key es)"
  by (simp add: all_get_key_def spaced_def o_def)

lemma key_occurs:
  assumes "list_all symbol_ok fs" "fs \<noteq> []" "list_all (tree_ok rules) ws"
  shows "str_contains (all_get_key ws) (all_get_key fs) \<longleftrightarrow> sublist (map to_key fs) (map to_key ws)"
  unfolding str_contains_sublist all_get_key_spaced
  using assms by (intro sublist_spaced) (auto simp: list_all_iff symbol_ok_def tree_ok_def)

lemma replaced_ok:
  assumes rule: "(t, fs) \<in> set rules" "symbol_ok t" "list_all symbol_ok fs" "fs \<noteq> []"
    and ws: "words_ok rules input ws"
    and occ: "str_contains (all_get_key ws) (all_get_key fs)"
  shows "words_ok rules input (replaced ws fs t)"
    and "length (replaced ws fs t) + length fs = Suc (length ws)"
proof -
  have ok: "list_all (tree_ok rules) ws" using ws by (simp add: words_ok_def)
  from occ have "sublist (map to_key fs) (map to_key ws)"
    using key_occurs [OF rule(3,4) ok] by blast
  from replaced_full [OF this rule(4)] obtain us ms xs where
    w: "ws = us @ ms @ xs" and m: "map to_key ms = map to_key fs"
    and r: "replaced ws fs t = us @ new_entity (to_str t) (marked ms fs) # xs" by blast
  have "list_all (tree_ok rules) ms" using ok by (simp add: w)
  note n = new_node [OF rule(2,1,3,4) this m]
  show "words_ok rules input (replaced ws fs t)"
    unfolding r using n ws by (simp add: words_ok_def w all_leaves_def)
  show "length (replaced ws fs t) + length fs = Suc (length ws)"
    unfolding r using map_eq_imp_length_eq [OF m] by (simp add: w)
qed

lemma rules_okD:
  assumes "rules_ok g" and "(k, t, rhs) \<in> set (concat (red g))"
  shows "k = all_get_key rhs" "rhs \<noteq> []" "symbol_ok t" "list_all symbol_ok rhs"
    "(t, rhs) \<in> set (index_rules g)"
proof -
  have "case (k, t, rhs) of (k, t, rhs) \<Rightarrow>
      k = all_get_key rhs \<and> rhs \<noteq> [] \<and> symbol_ok t \<and> list_all symbol_ok rhs"
    using assms(1) unfolding rules_ok_def list_all_iff by (rule bspec [OF _ assms(2)])
  then show "k = all_get_key rhs" "rhs \<noteq> []" "symbol_ok t" "list_all symbol_ok rhs"
    by (simp_all only: prod.case simp_thms not_False_eq_True)
  show "(t, rhs) \<in> set (index_rules g)"
    using imageI [OF assms(2), of snd] by (simp only: index_rules_def set_map snd_conv)
qed

lemma rules_ok_same: "same_rules g g' \<Longrightarrow> rules_ok g' = rules_ok g" "same_rules g g' \<Longrightarrow> index_rules g' = index_rules g"
  by (simp_all add: rules_ok_def index_rules_def same_rules_def)

section \<open>Invariant of one step\<close>

definition step_ok :: "grammar \<Rightarrow> (string \<times> string) list \<Rightarrow> step_state \<Rightarrow> bool" where
  "step_ok g input st \<longleftrightarrow>
    same_rules g (step_grammar st)
  \<and> (\<forall>e \<in> set (by_complexity st). \<forall>x \<in> set (snd (snd e)). words_ok (index_rules g) input (snd x))"

lemma set_um_erase: "set (um_erase k m) \<subseteq> set m"
  by (auto simp: um_erase_def)

lemma set_um_set: "set (um_set k v m) \<subseteq> insert (k, v) (set m)"
  by (auto simp: um_set_def split: if_splits)

lemma try_rule_ok:
  assumes g: "rules_ok g" and mem: "(k, t, rhs) \<in> set (concat (red g))"
    and occ: "str_contains (all_get_key old) k"
    and old: "words_ok (index_rules g) input old" and st: "step_ok g input st"
  shows "step_ok g input (try_rule old (t, rhs) st)"
proof -
  note r = rules_okD [OF g mem]
  have new: "words_ok (index_rules g) input (fst (replace_in_vector old rhs t h))" for h
    using replaced_ok(1) [OF r(5,3,4,2) old] occ r(1) replace_in_vector_eq(1) [OF r(2)] by simp
  let ?ck = "complexity_key t" and ?c = "length rhs"
  let ?best = "case um_find (by_complexity st) ?ck of Some (c, l) \<Rightarrow> c | None \<Rightarrow> 0"
  show ?thesis
  proof (cases "(reduce_to st \<noteq> [] \<and> ?ck \<noteq> reduce_to st) \<or> \<not> ?best \<le> ?c")
    case True
    then have "try_rule old (t, rhs) st = st" by (auto simp: try_rule_def Let_def)
    with st show ?thesis by simp
  next
    case False
    define st1 where "st1 = (if ?best < ?c then
        st\<lparr>by_complexity := um_insert ?ck (?c, []) (um_erase ?ck (by_complexity st)),
           reduce_to := ?ck, found := True\<rparr> else st)"
    define n where "n = replace_in_vector old rhs t (step_grammar st1)"
    define l0 where "l0 = (case um_find (by_complexity st1) ?ck of Some (c, l) \<Rightarrow> l | None \<Rightarrow> [])"
    define l1 where "l1 = um_insert (all_to_str (fst n)) (fst n) l0"
    define l2 where "l2 = (if str_contains ?ck ''*'' then um_insert (all_to_str old) old l1 else l1)"
    have eq: "try_rule old (t, rhs) st = st1\<lparr>by_complexity := um_set ?ck (?c, l2) (by_complexity st1),
        step_grammar := snd n\<rparr>"
      using False by (auto simp: try_rule_def Let_def st1_def n_def l0_def l1_def l2_def split_beta)
    have "set (um_insert ?ck (?c, []) (um_erase ?ck (by_complexity st)))
        \<subseteq> insert (?ck, ?c, []) (set (by_complexity st))"
      using set_um_insert [of ?ck "(?c, [])" "um_erase ?ck (by_complexity st)"]
        set_um_erase [of ?ck "by_complexity st"] by blast
    then have ok1: "step_ok g input st1"
      using st by (auto simp: st1_def step_ok_def dest!: subsetD)
    have l0: "\<forall>x \<in> set l0. words_ok (index_rules g) input (snd x)"
    proof (cases "um_find (by_complexity st1) ?ck")
      case None
      then show ?thesis by (simp add: l0_def)
    next
      case (Some cl)
      from um_find_in_set [OF this] ok1
      have "\<forall>x \<in> set (snd (snd (?ck, cl))). words_ok (index_rules g) input (snd x)"
        unfolding step_ok_def by blast
      with Some show ?thesis by (simp add: l0_def split_beta)
    qed
    have l1: "\<forall>x \<in> set l1. words_ok (index_rules g) input (snd x)"
      using l0 new [of "step_grammar st1"] set_um_insert [of "all_to_str (fst n)" "fst n" l0]
      unfolding l1_def n_def by fastforce
    have l2: "\<forall>x \<in> set l2. words_ok (index_rules g) input (snd x)"
      using l1 old set_um_insert [of "all_to_str old" old l1]
      by (cases "str_contains ?ck ''*''") (auto simp only: l2_def if_True if_False snd_conv)
    have "same_rules g (snd n)"
      using ok1 replace_in_vector_eq(2) same_rules_trans by (auto simp: step_ok_def n_def)
    moreover have "\<forall>e \<in> set (um_set ?ck (?c, l2) (by_complexity st1)).
        \<forall>x \<in> set (snd (snd e)). words_ok (index_rules g) input (snd x)"
      using ok1 l2 set_um_set [of ?ck "(?c, l2)" "by_complexity st1"] unfolding step_ok_def by fastforce
    ultimately show ?thesis by (simp add: eq step_ok_def)
  qed
qed

lemma try_key_ok:
  assumes "rules_ok g" "rules \<in> set (red g)" "words_ok (index_rules g) input old" "step_ok g input st"
  shows "step_ok g input (try_key old rules key st)"
proof (cases "str_contains (all_get_key old) key")
  case True
  have "step_ok g input (fold (try_rule old) (mm_range key rules) st)"
  proof (rule fold_invariant [where P = "step_ok g input", OF _ assms(4)])
    fix x s
    assume x: "x \<in> set (mm_range key rules)" and s: "step_ok g input s"
    obtain t rhs where tr: "x = (t, rhs)" by (cases x)
    then have "(key, t, rhs) \<in> set (concat (red g))"
      using x assms(2) by (auto simp: set_mm_range)
    from try_rule_ok [OF assms(1) this True assms(3) s] show "step_ok g input (try_rule old x s)"
      by (simp add: tr)
  qed
  then show ?thesis using True by (simp add: try_key_def)
next
  case False
  then show ?thesis using assms(4) by (simp add: try_key_def)
qed

lemma try_orders_ok:
  assumes "rules_ok g" "words_ok (index_rules g) input old"
  shows "step_ok g input st \<Longrightarrow> snd ` set orders \<subseteq> set (red g) \<Longrightarrow> step_ok g input (try_orders old orders st)"
proof (induction orders arbitrary: st)
  case Nil
  then show ?case by simp
next
  case (Cons o1 orders)
  obtain keys rules where o1: "o1 = (keys, rules)" by (cases o1)
  have "step_ok g input (fold (try_key old rules) keys st)"
    using Cons.prems by (intro fold_invariant [where P = "step_ok g input"]) (auto simp: o1 intro: try_key_ok [OF assms(1) _ assms(2)])
  with Cons show ?case by (simp add: o1)
qed

lemma reduce_step_ok:
  assumes g: "rules_ok g" and old: "words_ok (index_rules g) input old" and ord: "good_order ord"
  shows "\<forall>(k, ws) \<in> set (fst (reduce_step ord old g)). words_ok (index_rules g) input ws"
    and "same_rules g (snd (reduce_step ord old g))"
proof -
  let ?st = "try_orders old (zip (red_keys_sorted g) (red g))
                \<lparr>by_complexity = [], reduce_to = [], found = False, step_grammar = g\<rparr>"
  have "snd ` set (zip (red_keys_sorted g) (red g)) \<subseteq> set (red g)"
    by (auto dest: set_zip_rightD)
  then have ok: "step_ok g input ?st" using g old by (intro try_orders_ok) (simp_all add: step_ok_def)
  then show "same_rules g (snd (reduce_step ord old g))" by (simp add: reduce_step_def step_ok_def Let_def)
  let ?es = "concat (map (\<lambda>(ck, c, l). iterate ord l) (iterate ord (by_complexity ?st)))"
  have "\<forall>(k, ws) \<in> set ?es. words_ok (index_rules g) input ws"
    using ok by (fastforce simp: step_ok_def set_iterate [OF ord])
  then show "\<forall>(k, ws) \<in> set (fst (reduce_step ord old g)). words_ok (index_rules g) input ws"
    using set_fold_um_insert [of ?es "[]"] by (auto simp: reduce_step_def Let_def)
qed


section \<open>Invariant of the search\<close>

definition list_ok :: "grammar \<Rightarrow> (string \<times> string) list \<Rightarrow> (string \<times> entities) list \<Rightarrow> bool" where
  "list_ok g input l \<longleftrightarrow> (\<forall>x \<in> set l. words_ok (index_rules g) input (snd x))"

lemma reduce_all_ok:
  assumes "rules_ok g" "good_order ord"
  shows "list_ok g input states \<Longrightarrow> list_ok g input new \<Longrightarrow> same_rules g h \<Longrightarrow>
    list_ok g input (fst (reduce_all ord states new h)) \<and> same_rules g (snd (reduce_all ord states new h))"
proof (induction states arbitrary: new h)
  case Nil
  then show ?case by simp
next
  case (Cons s1 states)
  obtain k ws where s1: "s1 = (k, ws)" by (cases s1)
  have h: "rules_ok h" "index_rules h = index_rules g"
    using rules_ok_same [OF Cons.prems(3)] assms(1) by simp_all
  have ws: "words_ok (index_rules h) input ws" using Cons.prems(1) by (simp add: list_ok_def s1 h)
  note st = reduce_step_ok [OF h(1) ws assms(2)]
  let ?temp = "fst (reduce_step ord ws h)"
  have t: "list_ok g input (iterate ord ?temp)"
    using st(1) h(2) by (auto simp: list_ok_def set_iterate [OF assms(2)])
  have "list_ok g input (fold (\<lambda>(k, v). um_insert k v) (iterate ord ?temp) new)"
    using t Cons.prems(2) set_fold_um_insert [of "iterate ord ?temp" new]
    unfolding list_ok_def by blast
  moreover have "same_rules g (snd (reduce_step ord ws h))"
    using Cons.prems(3) st(2) same_rules_trans by blast
  moreover have "list_ok g input states" using Cons.prems(1) by (simp add: list_ok_def)
  ultimately show ?case using Cons.IH by (simp add: s1 split_beta)
qed

lemma reduce_loop_ok:
  assumes "rules_ok g" "good_order ord"
  shows "list_ok g input wl \<Longrightarrow> same_rules g h \<Longrightarrow>
    \<forall>f \<in> set final. is_final f \<and> words_ok (index_rules g) input f \<Longrightarrow>
    \<forall>f \<in> set (fst (reduce_loop ord n wl final h)). is_final f \<and> words_ok (index_rules g) input f"
proof (induction n arbitrary: wl final h)
  case 0
  then show ?case by simp
next
  case (Suc n)
  let ?r = "reduce_all ord (iterate ord wl) [] h"
  have "list_ok g input (iterate ord wl)"
    using Suc.prems(1) by (simp add: list_ok_def set_iterate [OF assms(2)])
  moreover have "list_ok g input []" by (simp add: list_ok_def)
  ultimately have r: "list_ok g input (fst ?r)" "same_rules g (snd ?r)"
    using reduce_all_ok [OF assms] Suc.prems(2) by blast+
  then have "\<forall>f \<in> set (final @ filter is_final (map snd (iterate ord (fst ?r)))).
      is_final f \<and> words_ok (index_rules g) input f"
    using Suc.prems(3) by (auto simp: list_ok_def set_iterate [OF assms(2)])
  note ih = Suc.IH [OF r this]
  show ?case
  proof (cases "wl = []")
    case True
    then show ?thesis using Suc.prems(3) by simp
  next
    case False
    then have "reduce_loop ord (Suc n) wl final h =
      reduce_loop ord n (fst ?r) (final @ filter is_final (map snd (iterate ord (fst ?r)))) (snd ?r)"
      by (simp add: split_beta)
    with ih show ?thesis by (simp only:)
  qed
qed

definition leaf_of :: "entity \<Rightarrow> string \<times> string" where
  "leaf_of e = (to_key e, etext e)"

lemma leaves_leaf: "embed e = [] \<Longrightarrow> leaves e = [leaf_of e]"
  by (subst leaves.simps) (simp add: leaf_of_def)

lemma words_ok_input:
  "list_all symbol_ok ws \<Longrightarrow> words_ok rules (map leaf_of ws) ws"
  by (induction ws)
    (auto simp: words_ok_def symbol_ok_def tree_ok_def all_leaves_def leaves_leaf valid_leaf)

lemma is_final_iff: "is_final ws \<longleftrightarrow> (\<exists>e. ws = [e] \<and> to_key e = ''s-all'')"
  by (auto simp: is_final_def split: list.splits)

lemma reduce_ok:
  assumes "rules_ok g" "good_order ord" "list_all symbol_ok ws" "f \<in> set (fst (reduce ord ws g))"
  shows "\<exists>e. f = [e] \<and> to_key e = ''s-all'' \<and> valid_tree (index_rules g) e \<and> leaves e = map leaf_of ws"
proof -
  have "list_ok g (map leaf_of ws) [(all_to_str ws, ws)]"
    using words_ok_input [OF assms(3)] by (simp add: list_ok_def)
  from reduce_loop_ok [OF assms(1,2) this same_rules_refl, of "[]" reduce_steps] assms(4)
  have "is_final f" "words_ok (index_rules g) (map leaf_of ws) f" by (auto simp: reduce_def)
  then show ?thesis
    by (auto simp: is_final_iff words_ok_def tree_ok_def all_leaves_def)
qed

section \<open>The words of the input\<close>

text \<open>What \<^verbatim>\<open>parse_input\<close> makes of a text, without the symbol table.\<close>

definition word_entity :: "string \<Rightarrow> entity option" where
  "word_entity w =
    (if w = [] \<or> w = ''null'' then None
     else (case split (is_any_of ''|<'') w of
             [part, txt] \<Rightarrow> Some (set_text (trim txt) (new_entity (trim part) []))
           | _ \<Rightarrow> None))"

definition input_entities :: "string \<Rightarrow> entities" where
  "input_entities words =
    new_entity ''d-^'' [] # List.map_filter word_entity (split (is_any_of ''#>'') words)
    @ [new_entity ''d-$'' []]"

lemma set_text_id: "etext e = [] \<Longrightarrow> set_text [] e = e"
  by (cases e) (simp add: set_text_def)

lemma input_word_eq:
  "fst (input_word part t g) = set_text t (new_entity part []) \<and> same_rules g (snd (input_word part t g))"
  by (simp add: input_word_def)

lemma parse_words_eq:
  "fst (parse_words ws g) = List.map_filter word_entity ws \<and> same_rules g (snd (parse_words ws g))"
proof (induction ws arbitrary: g)
  case Nil
  then show ?case by (simp add: map_filter_simps)
next
  case (Cons w ws)
  show ?case
  proof (cases "word_entity w")
    case None
    then have "parse_words (w # ws) g = parse_words ws g"
      by (auto simp: word_entity_def split: list.splits if_splits)
    with Cons None show ?thesis by (simp add: map_filter_simps)
  next
    case (Some e)
    then obtain part t where sp: "split (is_any_of ''|<'') w = [part, t]" "w \<noteq> []" "w \<noteq> ''null''"
      and e: "e = set_text (trim t) (new_entity (trim part) [])"
      by (auto simp: word_entity_def split: list.splits if_splits)
    note i = input_word_eq [of "trim part" "trim t" g]
    with Cons [of "snd (input_word (trim part) (trim t) g)"] show ?thesis
      using sp by (auto simp: map_filter_simps Some e split_beta intro: same_rules_trans)
  qed
qed

lemma parse_input_eq:
  "fst (parse_input words g) = input_entities words \<and> same_rules g (snd (parse_input words g))"
proof -
  let ?a = "input_word ''d-^'' [] g"
  let ?b = "parse_words (split (is_any_of ''#>'') words) (snd ?a)"
  let ?c = "input_word ''d-$'' [] (snd ?b)"
  have "same_rules g (snd ?c)"
    using input_word_eq [of "''d-^''" "[]" g] parse_words_eq [of _ "snd ?a"]
      input_word_eq [of "''d-$''" "[]" "snd ?b"] same_rules_trans by blast
  then show ?thesis
    using input_word_eq [of "''d-^''" "[]" g] parse_words_eq [of "split (is_any_of ''#>'') words" "snd ?a"]
      input_word_eq [of "''d-$''" "[]" "snd ?b"]
    by (simp add: parse_input_def split_beta Let_def input_entities_def set_text_id)
qed

lemma word_entity_leaf: "word_entity w = Some e \<Longrightarrow> wf_entity e \<and> embed e = []"
  by (auto simp: word_entity_def inv_intros split: list.splits if_splits)

lemma input_entities_leaf: "e \<in> set (input_entities words) \<Longrightarrow> wf_entity e \<and> embed e = []"
  by (auto simp: input_entities_def inv_intros List.map_filter_def dest: word_entity_leaf)


section \<open>Grammars for which the reducer is sound\<close>

lemma indexed_concat: "x \<in> set (concat rd) \<longleftrightarrow> (\<exists>n. indexed_at rd n x)"
  by (force simp: indexed_at_def in_set_conv_nth)

lemma build_reducemap_rules_ok:
  assumes ord: "good_order ord" and g: "state_ok g"
    and h: "\<forall>k \<in> fst ` set (gra g). CHR '' '' \<notin> set k"
  shows "rules_ok (build_reducemap ord g)"
proof -
  let ?st = "fold (index_rule g) (iterate ord (gra g)) ([], [])"
  have rd: "red (build_reducemap ord g) = fst ?st" by (simp add: build_reducemap_def split_beta)
  have km: "keys_match ([], [])" by (simp add: keys_match_def)
  have at: "indexed_at (fst ?st) n x \<longleftrightarrow> (\<exists>rule \<in> set (gra g). rule_entry g rule n x)" for n x
    using fold_index_rule [OF km, of g "iterate ord (gra g)" n x]
    by (simp add: set_iterate [OF ord]) (simp add: indexed_at_def)
  have "k = all_get_key rhs \<and> rhs \<noteq> [] \<and> symbol_ok t \<and> list_all symbol_ok rhs"
    if mem: "(k, t, rhs) \<in> set (concat (fst ?st))" for k t rhs
  proof -
    obtain n where "indexed_at (fst ?st) n (k, t, rhs)" using mem indexed_concat by blast
    then obtain h' where r: "(h', rhs) \<in> set (gra g)" "s2o g h' = Some t" "k = all_get_key rhs" "k \<noteq> []"
      unfolding at by (auto simp: rule_entry_def)
    have "to_str t = h' \<and> wf_entity t \<and> embed t = []"
      using r(2) g by (auto simp: s2o_def state_ok_def table_ok_def symbols_ok_def dest!: um_find_in_set)
    moreover have "CHR '' '' \<notin> set h'" using h r(1) by force
    ultimately have "symbol_ok t"
      using spaceless_to_str to_key_no_space by (auto simp: symbol_ok_def)
    moreover have "list_all plain_symbol rhs" using g r(1) by (force simp: state_ok_def rules_plain_def)
    then have "list_all symbol_ok rhs"
      by (auto simp: list_all_iff plain_symbol_def symbol_ok_def to_key_no_space)
    ultimately show ?thesis using r(3,4) by (auto simp: all_get_key_def)
  qed
  then show ?thesis unfolding rules_ok_def list_all_iff rd by blast
qed

section \<open>What one step chooses\<close>

text \<open>The rules that apply at one order, in the order in which they are tried.\<close>

definition applicable :: "entities \<Rightarrow> string list \<times> reducemap \<Rightarrow> (entity \<times> entities) list" where
  "applicable old order =
    concat (map (\<lambda>k. mm_range k (snd order)) (filter (str_contains (all_get_key old)) (fst order)))"

text \<open>Of those, the first decides the target, and the longest right-hand sides for it win.\<close>

definition same_target :: "(entity \<times> entities) list \<Rightarrow> (entity \<times> entities) list" where
  "same_target rs = filter (\<lambda>r. complexity_key (fst r) = complexity_key (fst (hd rs))) rs"

definition best_length :: "(entity \<times> entities) list \<Rightarrow> nat" where
  "best_length rs = Max (set (map (\<lambda>r. length (snd r)) (same_target rs)))"

definition chosen :: "(entity \<times> entities) list \<Rightarrow> (entity \<times> entities) list" where
  "chosen rs = filter (\<lambda>r. length (snd r) = best_length rs) (same_target rs)"

definition add_result :: "entities \<Rightarrow> entity \<times> entities \<Rightarrow> reducelist \<Rightarrow> reducelist" where
  "add_result old rule l =
    (let new = replaced old (snd rule) (fst rule);
         l1 = um_insert (all_to_str new) new l
     in if str_contains (complexity_key (fst rule)) ''*'' then um_insert (all_to_str old) old l1 else l1)"

definition results :: "entities \<Rightarrow> (entity \<times> entities) list \<Rightarrow> reducelist" where
  "results old rs = fold (add_result old) (chosen rs) []"

definition state_of :: "entities \<Rightarrow> (entity \<times> entities) list \<Rightarrow> step_state \<Rightarrow> bool" where
  "state_of old rs st \<longleftrightarrow>
    (if rs = [] then by_complexity st = [] \<and> reduce_to st = [] \<and> \<not> found st
     else by_complexity st = [(complexity_key (fst (hd rs)), best_length rs, results old rs)]
        \<and> reduce_to st = complexity_key (fst (hd rs)) \<and> found st)"

lemma complexity_key_not_Nil [simp]: "complexity_key t \<noteq> []"
  by (simp add: complexity_key_def Let_def print_entity_def)

lemma same_target_snoc:
  "rs \<noteq> [] \<Longrightarrow> same_target (rs @ [r]) =
    same_target rs @ (if complexity_key (fst r) = complexity_key (fst (hd rs)) then [r] else [])"
  by (simp add: same_target_def)

lemma same_target_not_Nil: "rs \<noteq> [] \<Longrightarrow> same_target rs \<noteq> []"
  by (cases rs) (simp_all add: same_target_def)

lemma best_length_ge: "r \<in> set (same_target rs) \<Longrightarrow> length (snd r) \<le> best_length rs"
  by (simp add: best_length_def)

lemma best_length_snoc:
  assumes "rs \<noteq> []"
  shows "best_length (rs @ [r]) =
    (if complexity_key (fst r) = complexity_key (fst (hd rs)) then max (best_length rs) (length (snd r))
     else best_length rs)"
  using same_target_not_Nil [OF assms]
  by (simp add: best_length_def same_target_snoc [OF assms] max.commute)

lemma chosen_snoc:
  assumes "rs \<noteq> []"
  shows "chosen (rs @ [r]) =
    (if complexity_key (fst r) \<noteq> complexity_key (fst (hd rs)) \<or> length (snd r) < best_length rs then chosen rs
     else if length (snd r) = best_length rs then chosen rs @ [r]
     else [r])"
proof -
  have "filter (\<lambda>q. length (snd q) = length (snd r)) (same_target rs) = []"
    if "best_length rs < length (snd r)"
    using that best_length_ge [of _ rs] by (fastforce simp: filter_empty_conv)
  then show ?thesis
    by (auto simp: chosen_def best_length_snoc [OF assms] same_target_snoc [OF assms] max_def)
qed


lemma um_single [simp, tab_simps]:
  "um_find [(k, v)] k = Some v" "um_erase k [(k, v)] = []" "um_insert k v [] = [(k, v)]"
  "um_set k v [(k, w)] = [(k, v)]" "um_erase k [] = []"
  by (simp_all add: um_find_def um_erase_def um_insert_def um_set_def)

lemma add_result_eq:
  "snd r \<noteq> [] \<Longrightarrow> add_result old r l =
    (let new = fst (replace_in_vector old (snd r) (fst r) g);
         l1 = um_insert (all_to_str new) new l
     in if str_contains (complexity_key (fst r)) ''*'' then um_insert (all_to_str old) old l1 else l1)"
  by (simp add: add_result_def replace_in_vector_eq(1))

lemma try_rule_state:
  assumes st: "state_of old rs st" and r: "snd r \<noteq> []"
  shows "state_of old (rs @ [r]) (try_rule old r st)"
proof -
  obtain t rhs where tr: "r = (t, rhs)" by (cases r)
  let ?ck = "complexity_key t"
  have ar: "add_result old (t, rhs) l = (let new = fst (replace_in_vector old rhs t g);
         l1 = um_insert (all_to_str new) new l
     in if str_contains ?ck ''*'' then um_insert (all_to_str old) old l1 else l1)" for l g
    using add_result_eq [of r old l g] r by (simp add: tr)
  show ?thesis
  proof (cases "rs = []")
    case True
    have "chosen [r] = [r]" "best_length [r] = length rhs"
      by (simp_all add: chosen_def same_target_def best_length_def tr)
    then show ?thesis
      using st True r ar [of "[]" "step_grammar st"]
      by (simp add: state_of_def try_rule_def tr Let_def split_beta results_def)
  next
    case False
    then have by_c: "by_complexity st = [(complexity_key (fst (hd rs)), best_length rs, results old rs)]"
      and to: "reduce_to st = complexity_key (fst (hd rs))" and fd: "found st"
      using st by (simp_all add: state_of_def)
    have hd: "hd (rs @ [r]) = hd rs" using False by simp
    consider (other) "?ck \<noteq> complexity_key (fst (hd rs))"
      | (less) "?ck = complexity_key (fst (hd rs))" "length rhs < best_length rs"
      | (equal) "?ck = complexity_key (fst (hd rs))" "length rhs = best_length rs"
      | (more) "?ck = complexity_key (fst (hd rs))" "best_length rs < length rhs"
      by linarith
    then show ?thesis
    proof cases
      case other
      then have "try_rule old r st = st" by (simp add: try_rule_def tr to Let_def)
      with st other False show ?thesis
        by (simp add: state_of_def hd best_length_snoc [OF False] results_def chosen_snoc [OF False] tr)
    next
      case less
      then have "try_rule old r st = st" by (simp add: try_rule_def tr to by_c Let_def)
      with st less False show ?thesis
        by (simp add: state_of_def hd best_length_snoc [OF False] results_def chosen_snoc [OF False] tr)
    next
      case equal
      have "results old (rs @ [r]) = add_result old (t, rhs) (results old rs)"
        using equal by (simp add: results_def chosen_snoc [OF False] tr)
      with equal False ar [of "results old rs" "step_grammar st"] show ?thesis
        by (simp add: state_of_def hd best_length_snoc [OF False] try_rule_def tr to by_c fd Let_def split_beta)
    next
      case more
      have "results old (rs @ [r]) = add_result old (t, rhs) []"
        using more by (simp add: results_def chosen_snoc [OF False] tr)
      with more False ar [of "[]" "step_grammar st"] show ?thesis
        by (simp add: state_of_def hd best_length_snoc [OF False] try_rule_def tr to by_c fd Let_def split_beta)
    qed
  qed
qed

lemma fold_try_rule_state:
  assumes "\<forall>r \<in> set rs. snd r \<noteq> []"
  shows "state_of old qs st \<Longrightarrow> state_of old (qs @ rs) (fold (try_rule old) rs st)"
  using assms
proof (induction rs arbitrary: qs st)
  case Nil
  then show ?case by simp
next
  case (Cons r rs)
  have "state_of old (qs @ [r]) (try_rule old r st)" using Cons.prems by (intro try_rule_state) simp_all
  from Cons.IH [OF this] Cons.prems(2) show ?case by simp
qed

lemma fold_try_key:
  "fold (try_key old rules) keys st = fold (try_rule old) (applicable old (keys, rules)) st"
  by (induction keys arbitrary: st) (simp_all add: try_key_def applicable_def)

lemma applicable_subset: "set (applicable old (keys, rules)) \<subseteq> snd ` set rules"
  by (force simp: applicable_def set_mm_range)

definition step_results :: "entities \<Rightarrow> (string list \<times> reducemap) list \<Rightarrow> reducelist" where
  "step_results old orders =
    (case find (\<lambda>o1. applicable old o1 \<noteq> []) orders of
       None \<Rightarrow> []
     | Some o1 \<Rightarrow> results old (applicable old o1))"

lemma try_orders_state:
  assumes "\<forall>o1 \<in> set orders. \<forall>x \<in> set (snd o1). snd (snd x) \<noteq> []" and "state_of old [] st"
  shows "\<exists>ck n. by_complexity (try_orders old orders st) =
    (if find (\<lambda>o1. applicable old o1 \<noteq> []) orders = None then []
     else [(ck, n, step_results old orders)])"
  using assms
proof (induction orders arbitrary: st)
  case Nil
  then show ?case by (simp add: state_of_def)
next
  case (Cons o1 orders)
  obtain keys rules where o1: "o1 = (keys, rules)" by (cases o1)
  let ?rs = "applicable old (keys, rules)"
  let ?st = "fold (try_rule old) ?rs st"
  have ne: "\<forall>r \<in> set ?rs. snd r \<noteq> []"
    using applicable_subset [of old keys rules] Cons.prems(1) by (fastforce simp: o1)
  have s: "state_of old ?rs ?st" using fold_try_rule_state [OF ne Cons.prems(2)] by simp
  have nf: "\<not> found st" using Cons.prems(2) by (simp add: state_of_def)
  show ?case
  proof (cases "?rs = []")
    case True
    then have "state_of old [] ?st" using s by simp
    have ih: "\<exists>ck n. by_complexity (try_orders old orders ?st) =
      (if find (\<lambda>o1. applicable old o1 \<noteq> []) orders = None then []
       else [(ck, n, step_results old orders)])"
      by (rule Cons.IH [OF _ \<open>state_of old [] ?st\<close>]) (use Cons.prems(1) in simp)
    have "try_orders old (o1 # orders) st = try_orders old orders ?st"
      by (simp add: o1 nf fold_try_key)
    moreover have "find (\<lambda>o1. applicable old o1 \<noteq> []) (o1 # orders) = find (\<lambda>o1. applicable old o1 \<noteq> []) orders"
      by (simp add: o1 True)
    ultimately show ?thesis using ih by (simp only: step_results_def)
  next
    case False
    then have "found ?st" and b: "by_complexity ?st =
        [(complexity_key (fst (hd ?rs)), best_length ?rs, results old ?rs)]"
      using s by (simp_all add: state_of_def)
    then have "try_orders old orders ?st = ?st" by (cases orders) auto
    with False b show ?thesis by (simp add: o1 nf fold_try_key step_results_def)
  qed
qed

lemma iterate_single: "good_order ord \<Longrightarrow> iterate ord [(k, v)] = [(k, v)]"
proof -
  assume "good_order ord"
  then have "distinct (ord [k])" "set (ord [k]) = {k}" by (simp_all add: good_order_def)
  then have "ord [k] = [k]"
    by (metis distinct_card distinct_singleton length_0_conv length_Suc_conv list.set_intros(1)
        card.empty card_insert_disjoint empty_iff finite.emptyI One_nat_def list.set(1) length_Cons
        singletonD list.size(3))
  then show ?thesis by (simp add: iterate_def mm_range_def)
qed

lemma iterate_Nil [simp]: "good_order ord \<Longrightarrow> iterate ord [] = []"
proof -
  assume "good_order ord"
  then have "set (ord []) = {}" by (simp add: good_order_def)
  then show ?thesis by (simp add: iterate_def)
qed

lemma reduce_step_spec:
  assumes ord: "good_order ord" and g: "rules_ok g"
  shows "um_find (fst (reduce_step ord old g)) k =
    um_find (step_results old (zip (red_keys_sorted g) (red g))) k"
proof -
  let ?st = "\<lparr>by_complexity = [], reduce_to = [], found = False, step_grammar = g\<rparr>"
  let ?orders = "zip (red_keys_sorted g) (red g)"
  have ne: "\<forall>o1 \<in> set ?orders. \<forall>x \<in> set (snd o1). snd (snd x) \<noteq> []"
  proof (intro ballI)
    fix o1 x
    assume "o1 \<in> set ?orders" and x: "x \<in> set (snd o1)"
    then have "snd o1 \<in> set (red g)"
      using set_zip_rightD [of "fst o1" "snd o1" "red_keys_sorted g" "red g"] by simp
    with x have "(fst x, fst (snd x), snd (snd x)) \<in> set (concat (red g))" by auto
    then show "snd (snd x) \<noteq> []" by (rule rules_okD(2) [OF g])
  qed
  have "state_of old [] ?st" by (simp add: state_of_def)
  from try_orders_state [OF ne this] obtain ck n where
    "by_complexity (try_orders old ?orders ?st) =
      (if find (\<lambda>o1. applicable old o1 \<noteq> []) ?orders = None then [] else [(ck, n, step_results old ?orders)])"
    by blast
  then have "um_find (fst (reduce_step ord old g)) k =
      (if find (\<lambda>o1. applicable old o1 \<noteq> []) ?orders = None then None
       else um_find (step_results old ?orders) k)"
    by (simp add: reduce_step_def Let_def iterate_single [OF ord] ord um_find_collect [OF ord])
  then show ?thesis by (simp add: step_results_def split: option.splits)
qed


section \<open>Writing the input\<close>

text \<open>A word of the input as the tagger's caller writes it, and what such a word must not contain.\<close>

definition word_text :: "string \<times> string \<Rightarrow> string" where
  "word_text w = fst w @ ''|'' @ snd w"

definition field_ok :: "string \<Rightarrow> bool" where
  "field_ok s \<longleftrightarrow> (\<forall>c \<in> set s. \<not> is_any_of ''#>|<'' c) \<and> trim s = s"

lemma field_no_sep: "field_ok s \<Longrightarrow> c \<in> set s \<Longrightarrow> \<not> is_any_of ''#>'' c"
  by (simp add: field_ok_def is_any_of_def)

lemma word_text_no_sep:
  "field_ok (fst w) \<Longrightarrow> field_ok (snd w) \<Longrightarrow> c \<in> set (word_text w) \<Longrightarrow> \<not> is_any_of ''#>'' c"
  using field_no_sep [of "fst w" c] field_no_sep [of "snd w" c]
  by (cases "c = CHR ''|''") (auto simp: word_text_def is_any_of_def)

lemma word_entity_text:
  assumes "field_ok (fst w)" "field_ok (snd w)"
  shows "word_entity (word_text w) = Some (set_text (snd w) (new_entity (fst w) []))"
proof -
  have s: "split (is_any_of ''|<'') (word_text w) = [fst w, snd w]"
    unfolding word_text_def append_Cons append_Nil
    using assms by (subst split_append_sep) (auto simp: field_ok_def is_any_of_def split_no_sep)
  have n: "word_text w \<noteq> []" "word_text w \<noteq> ''null''"
    by (auto simp: word_text_def append_eq_Cons_conv)
  show ?thesis
    unfolding word_entity_def s using n assms by (simp add: field_ok_def)
qed

lemma parse_input_words:
  assumes "list_all (\<lambda>w. field_ok (fst w) \<and> field_ok (snd w)) ws"
  shows "fst (parse_input (join ''#'' (map word_text ws)) g) =
    new_entity ''d-^'' [] # map (\<lambda>w. set_text (snd w) (new_entity (fst w) [])) ws @ [new_entity ''d-$'' []]"
proof -
  have m: "List.map_filter word_entity (map word_text ws) = map (\<lambda>w. set_text (snd w) (new_entity (fst w) [])) ws"
    using assms by (induction ws) (simp_all add: map_filter_simps word_entity_text)
  have "List.map_filter word_entity (split (is_any_of ''#>'') (join ''#'' (map word_text ws))) =
    map (\<lambda>w. set_text (snd w) (new_entity (fst w) [])) ws"
  proof (cases "ws = []")
    case True
    then show ?thesis by (simp add: map_filter_simps word_entity_def)
  next
    case False
    have "split (is_any_of ''#>'') (join ''#'' (map word_text ws)) = map word_text ws"
    proof (rule split_join)
      show "map word_text ws \<noteq> []" using False by simp
      show "is_any_of ''#>'' (CHR ''#'')" by (simp add: is_any_of_def)
      show "\<forall>w \<in> set (map word_text ws). \<forall>c \<in> set w. \<not> is_any_of ''#>'' c"
        using assms word_text_no_sep unfolding list_all_iff set_map by blast
    qed
    with m show ?thesis by simp
  qed
  then show ?thesis
    unfolding parse_input_eq [THEN conjunct1] input_entities_def by (simp only:)
qed

lemma parse_leaves:
  assumes ord: "good_order ord"
    and read: "read_grammar ord (Some rules_text) grammar_new = Inr (r, g)"
    and headers: "list_all (\<lambda>rule. CHR '' '' \<notin> set (fst rule)) (gra g)"
    and expanded: "expand ord g = Some g'"
    and input: "list_all (\<lambda>e. CHR '' '' \<notin> set (to_key e)) (input_entities words)"
    and result: "f \<in> set (fst (parse ord words g'))"
  shows "\<exists>tree. f = [tree] \<and> to_key tree = ''s-all'' \<and> valid_tree (index_rules g') tree
    \<and> leaves tree = map leaf_of (input_entities words)"
proof -
  have g: "state_ok g" using read_grammar_ok [OF read state_ok_new] .
  obtain h where h: "expand_loop ord g = Some h" and g': "g' = build_reducemap ord h"
    using expanded by (auto simp: expand_def)
  have sh: "state_ok h" "fst ` set (gra h) \<subseteq> fst ` set (gra g)"
    using expand_loop_ok [OF h] ord g by blast+
  have "\<forall>k \<in> fst ` set (gra h). CHR '' '' \<notin> set k"
  proof -
    have "\<forall>k \<in> fst ` set (gra g). CHR '' '' \<notin> set k" using headers by (auto simp: list_all_iff)
    then show ?thesis using sh(2) by blast
  qed
  then have ok: "rules_ok g'" unfolding g' by (rule build_reducemap_rules_ok [OF ord sh(1)])
  let ?g1 = "snd (parse_input words g')"
  have p: "fst (parse_input words g') = input_entities words" "same_rules g' ?g1"
    using parse_input_eq by blast+
  have "list_all symbol_ok (input_entities words)"
    using input input_entities_leaf by (auto simp: list_all_iff symbol_ok_def)
  moreover have "f \<in> set (fst (reduce ord (input_entities words) ?g1))"
    using result p(1) by (simp add: parse_def split_beta)
  ultimately show ?thesis
    using reduce_ok [of ?g1 ord "input_entities words" f] ok ord rules_ok_same [OF p(2)] by simp
qed

section \<open>Properties\<close>

text \<open>C5. The parser is sound, from the text of the grammar to the trees: when a grammar was read and
  expanded and no header in it contains a space, every result of a parse is one tree with the key
  \<^verbatim>\<open>s-all\<close> in which every inner node is an instance of a rule of the grammar, with the markers of
  the rule on the node and on its children, and whose leaves are the words of the input, in order,
  with their texts.\<close>

theorem parse_sound:
  assumes ord: "good_order ord"
    and read: "read_grammar ord (Some rules_text) grammar_new = Inr (r, g)"
    and headers: "list_all (\<lambda>rule. CHR '' '' \<notin> set (fst rule)) (gra g)"
    and expanded: "expand ord g = Some g'"
    and input: "list_all (\<lambda>e. CHR '' '' \<notin> set (to_key e)) (input_entities words)"
    and result: "f \<in> set (fst (parse ord words g'))"
  shows "\<exists>tree. f = [tree] \<and> to_key tree = ''s-all'' \<and> valid_tree (index_rules g') tree
    \<and> leaves tree = map leaf_of (input_entities words)"
  using assms by (rule parse_leaves)

text \<open>One step of the reduction takes the lowest order at which a rule applies; the first rule
  there (in the order of decreasing key length) fixes the target; of the rules for this target those
  with the longest right-hand side are applied, each at its first occurrence; and the state itself
  stays a result when the target is repeatable.\<close>

theorem reduce_step_choice:
  assumes "good_order ord" and "rules_ok g"
  shows "um_find (fst (reduce_step ord old g)) k =
    (case find (\<lambda>o1. applicable old o1 \<noteq> []) (zip (red_keys_sorted g) (red g)) of
       None \<Rightarrow> None
     | Some o1 \<Rightarrow> um_find (results old (applicable old o1)) k)"
  using reduce_step_spec [OF assms] by (simp add: step_results_def split: option.split)

text \<open>C11. The input that is written word by word is read back: one entity per word, with the part of
  speech as its key and the text, between the two markers.\<close>

theorem parse_input_round_trip:
  assumes "list_all (\<lambda>w. field_ok (fst w) \<and> field_ok (snd w)) ws"
  shows "fst (parse_input (join ''#'' (map word_text ws)) g) =
    new_entity ''d-^'' [] # map (\<lambda>w. set_text (snd w) (new_entity (fst w) [])) ws @ [new_entity ''d-$'' []]"
  using assms by (rule parse_input_words)

theorem parse_input_round_trip_witness:
  "fst (parse_input ''d-art|der#d-noun|Mann'' grammar_new) =
    [new_entity ''d-^'' [], set_text ''der'' (new_entity ''d-art'' []),
     set_text ''Mann'' (new_entity ''d-noun'' []), new_entity ''d-$'' []]"
  using parse_input_round_trip [of "[(''d-art'', ''der''), (''d-noun'', ''Mann'')]" grammar_new]
  by (simp add: word_text_def field_ok_def is_any_of_def trim_def trim_if_def trim_left_if_def
      trim_right_if_def is_space_def code_def)


text \<open>A small grammar and sentence on which the parser is run.\<close>

definition sample_rules :: string where
  "sample_rules = concat (map (\<lambda>l. l @ [newline])
    [''s-all:'', ''  d-^ s-np/v-subject d-$'', ''s-np:'', ''  r-word'', ''  d-art r-word'',
     ''r-word:'', ''  d-noun'', ''  d-name''])"

definition sample_grammar :: grammar where
  "sample_grammar =
    (case read_grammar remdups (Some sample_rules) grammar_new of Inr (r, g) \<Rightarrow> g | Inl err \<Rightarrow> grammar_new)"

definition sample_expanded :: grammar where
  "sample_expanded =
    (case expand_step remdups sample_grammar of (d, n, g) \<Rightarrow> build_reducemap remdups g)"

definition sample_input :: string where
  "sample_input = ''d-art|der#d-noun|Mann''"

lemma sample_read: "read_grammar remdups (Some sample_rules) grammar_new = Inr (0, sample_grammar)"
  by code_simp

lemma sample_expand: "expand remdups sample_grammar = Some sample_expanded"
proof -
  have "fst (expand_step remdups sample_grammar)" by code_simp
  then obtain n g where s: "expand_step remdups sample_grammar = (True, n, g)"
    by (cases "expand_step remdups sample_grammar") auto
  show ?thesis by (simp add: expand_def expand_loop_done [OF s] sample_expanded_def s)
qed

lemma sample_checks:
  "list_all (\<lambda>rule. CHR '' '' \<notin> set (fst rule)) (gra sample_grammar)"
  "list_all (\<lambda>e. CHR '' '' \<notin> set (to_key e)) (input_entities sample_input)"
  by code_simp+

lemma sample_parse: "length (fst (parse remdups sample_input sample_expanded)) = 1"
  by code_simp


theorem parse_sound_witness:
  "\<exists>tree. fst (parse remdups sample_input sample_expanded) = [[tree]]
    \<and> valid_tree (index_rules sample_expanded) tree
    \<and> leaves tree = [(''d-^'', []), (''d-art'', ''der''), (''d-noun'', ''Mann''), (''d-$'', [])]"
proof -
  obtain f where f: "fst (parse remdups sample_input sample_expanded) = [f]"
    using sample_parse by (auto simp: length_Suc_conv)
  have "map leaf_of (input_entities sample_input) =
      [(''d-^'', []), (''d-art'', ''der''), (''d-noun'', ''Mann''), (''d-$'', [])]"
    by code_simp
  with parse_sound [OF good_order_remdups sample_read sample_checks(1) sample_expand sample_checks(2), of f]
  show ?thesis using f by auto
qed

lemma sample_rules_ok: "rules_ok sample_expanded"
  by code_simp

theorem reduce_step_choice_witness:
  "um_find (fst (reduce_step remdups (input_entities sample_input) sample_expanded))
      '' d-^ d-art/d-art s-np d-$ '' = None
    \<and> um_find (fst (reduce_step remdups (input_entities sample_input) sample_expanded))
      '' d-^ s-np < d-art/d-art, d-noun/d-noun >  d-$ '' \<noteq> None"
  unfolding reduce_step_choice [OF good_order_remdups sample_rules_ok]
  by code_simp

end
