(* ===== verification/GrammarPrint.thy ===== *)
theory GrammarPrint
  imports Reduce
begin

text \<open>
  The printers of \<^verbatim>\<open>hal2012-grammar2012.cpp\<close> for parse trees: the graph, the XML fact that the
  database reads, the Perl hash, and the groups of words (\<^verbatim>\<open>to_groups\<close>) that the Perl printer
  uses. A line end (\<^verbatim>\<open>endl\<close>) is \<^term>\<open>newline\<close>.

  The lemmas show that the XML is balanced, that the groups contain the texts of the leaves and
  nothing else, and that the clause marker of an inner node never reaches the groups.
\<close>

section \<open>Groups of words\<close>

definition group_marker :: "string \<Rightarrow> string \<times> string list \<Rightarrow> string \<times> string list" where
  "group_marker w st =
    (let (keyprefix, v_keys) = st in
     if starts_with w ''v-clause'' then (w, v_keys)
     else if starts_with w ''v-subject'' then (keyprefix, v_keys @ [''subjects''])
     else if starts_with w ''v-object'' then (keyprefix, v_keys @ [''objects''])
     else if starts_with w ''v-verb'' \<and> \<not> starts_with w ''v-verbprefix'' then (keyprefix, v_keys @ [''verbs''])
     else if starts_with w ''v-verbprefix'' then (keyprefix, v_keys @ [''verbprefixes''])
     else if starts_with w ''v-adverb'' \<or> starts_with w ''v-longadverb'' then (keyprefix, v_keys @ [''adverbs''])
     else if starts_with w ''v-questionword'' then (keyprefix, v_keys @ [''questionwords''])
     else if starts_with w ''v-extra-after'' then (keyprefix, v_keys @ [''extra''])
     else if starts_with w ''v-extra-before'' then (keyprefix, v_keys @ [''before-adverbs''])
     else (keyprefix, v_keys))"

fun insert_groups :: "string \<Rightarrow> string \<Rightarrow> string \<Rightarrow> string list \<Rightarrow> string hmap \<Rightarrow> string hmap" where
  "insert_groups keyprefix txt last_key [] pm = pm"
| "insert_groups keyprefix txt last_key (k # ks) pm =
    insert_groups keyprefix txt k ks
      (if k \<noteq> last_key then mm_insert (keyprefix @ ''/'' @ k) txt pm else pm)"

fun to_groups :: "entity \<Rightarrow> string list \<Rightarrow> string \<Rightarrow> string hmap \<Rightarrow> string hmap" where
  "to_groups (Entity d s r v t em n) v_keys0 keyprefix0 pm =
    (let (keyprefix, v_keys) = fold group_marker v (keyprefix0, v_keys0) in
     if t \<noteq> [] then insert_groups keyprefix t [] v_keys pm
     else fold (\<lambda>e pm. to_groups e v_keys ''v-clause-1'' pm) em pm)"

definition groups_of :: "entity \<Rightarrow> string hmap" where
  "groups_of e = to_groups e [] ''v-clause-1'' []"

section \<open>The Perl hash\<close>

definition perl_word :: "string \<Rightarrow> string" where
  "perl_word w = ''[ '' @ [CHR 0x27] @ w @ [CHR 0x27] @ '', 0 ], ''"

definition perl_key :: "string \<Rightarrow> string" where
  "perl_key k = [CHR 0x27] @ k @ [CHR 0x27] @ '' => [''"

text \<open>\<^verbatim>\<open>print_perl\<close> with a group: the words of the group, with a verb prefix joined to a single verb
  or, failing that, listed with the adverbs.\<close>

definition perl_group :: "string hmap \<Rightarrow> string \<Rightarrow> string \<Rightarrow> string" where
  "perl_group pm v_key keyprefix =
    (let verbs = mm_range (keyprefix @ ''/verbs'') pm;
         prefixes = mm_range (keyprefix @ ''/verbprefixes'') pm
     in (if v_key = ''verbs'' \<and> length verbs = 1 \<and> 0 < length prefixes
         then perl_word (hd prefixes @ hd verbs)
         else concat (map perl_word (mm_range (keyprefix @ ''/'' @ v_key) pm)))
        @ (if v_key = ''adverbs'' \<and> length verbs \<noteq> 1 \<and> 0 < length prefixes
           then perl_word (hd prefixes) else []))"

text \<open>\<^verbatim>\<open>print_perl\<close> without a group prints the clause; the main clause holds the second one.\<close>

function print_perl :: "string hmap \<Rightarrow> string \<Rightarrow> string \<Rightarrow> string" where
  "print_perl pm v_key keyprefix =
    (if v_key \<noteq> [] then perl_group pm v_key keyprefix
     else
       (let main = (keyprefix = ''v-clause-1'');
            subjects = perl_group pm ''subjects'' keyprefix;
            objects = perl_group pm ''objects'' keyprefix;
            verbs = perl_group pm ''verbs'' keyprefix;
            adverbs = perl_group pm ''before-adverbs'' keyprefix @ perl_group pm ''adverbs'' keyprefix;
            extra = perl_group pm ''extra'' keyprefix;
            questionword = perl_group pm ''questionwords'' keyprefix
        in (if main then ''$parsed = '' else [])
           @ (if main \<or> subjects \<noteq> [] \<or> objects \<noteq> [] \<or> verbs \<noteq> [] \<or> adverbs \<noteq> [] \<or> extra \<noteq> []
                 \<or> questionword \<noteq> []
              then
                ''{'' @ [newline]
                @ perl_key ''subjects'' @ '' '' @ subjects @ '' ],''
                @ perl_key ''objects'' @ '' '' @ objects @ '' ],''
                @ perl_key ''verbs'' @ '' '' @ verbs @ '' ],''
                @ perl_key ''adverbs'' @ '' '' @ adverbs @ '' ],''
                @ perl_key ''extra'' @ '' '' @ extra @ '' ],''
                @ perl_key ''questionword'' @ '' '' @ questionword @ '' ],''
                @ (if main then
                     [newline] @ perl_key ''clauses'' @ print_perl pm [] ''v-clause-2'' @ ''],''
                   else [])
                @ ''}'' @ (if main then '';'' else '','' @ [newline])
              else [])))"
  by pat_completeness auto
termination
  by (relation "measure (\<lambda>(pm, v_key, keyprefix). if keyprefix = ''v-clause-1'' then 1 else 0)") auto

declare print_perl.simps [simp del]

section \<open>The graph\<close>

text \<open>The static counter is passed along; the result is the text, the name of the node and the
  counter.\<close>

definition node_decl :: "string \<Rightarrow> string \<Rightarrow> string" where
  "node_decl name style = [quote] @ name @ [quote] @ '' [shape=record,'' @ style @ ''regular=1];'' @ [newline]"

definition edge_decl :: "string \<Rightarrow> string \<Rightarrow> string" where
  "edge_decl a b =
    [quote] @ a @ [quote] @ '' -> '' @ [quote] @ b @ [quote] @ '' [dir=none,weight=10];'' @ [newline]"

definition numbered :: "string \<Rightarrow> nat \<Rightarrow> string" where
  "numbered s u = s @ '' ('' @ show_nat u @ '')''"

fun print_graph :: "entity \<Rightarrow> nat \<Rightarrow> string \<times> string \<times> nat" where
  "print_graph (Entity d s r v t em n) u0 =
    (let key = numbered (if v \<noteq> [] then hd v else to_key (Entity d s r v t em n)) u0;
         u1 = Suc u0;
         head = node_decl key []
     in if t \<noteq> [] then
          (let leaf = numbered t u1
           in (head @ node_decl leaf ''fontsize=14,style=filled,fillcolor=yellow,'' @ edge_decl key leaf,
               key, Suc u1))
        else
          (let (ss, u2) = fold (\<lambda>e (ss, u).
                 let (g, key_it, u') = print_graph e u in (ss @ g @ edge_decl key key_it, u')) em (head, u1)
           in (ss, key, u2)))"

section \<open>The XML fact\<close>

definition xml_tag :: "string \<Rightarrow> string" where
  "xml_tag k =
    (if k = ''s-all'' then ''fact''
     else if k = ''v-subject'' then ''subject''
     else if k = ''v-object'' then ''object''
     else if k = ''v-questionword'' then ''questionword''
     else if starts_with k ''v-extra-'' then ''extra''
     else if k = ''v-verb'' then ''verb''
     else if starts_with k ''v-clause-'' \<and> k \<noteq> ''v-clause-1'' then ''clause''
     else if k = ''v-adverb'' then ''adverbs''
     else if k = ''v-linked'' then ''linked''
     else if k = ''d-linking'' then ''linking''
     else [])"

definition grammar_key :: "entity \<Rightarrow> string" where
  "grammar_key e = (if virt e \<noteq> [] then hd (virt e) else to_key e)"

definition open_tag :: "string \<Rightarrow> string" where
  "open_tag k = ''<'' @ k @ ''>''"

definition close_tag :: "string \<Rightarrow> string" where
  "close_tag k = ''</'' @ k @ ''>''"

text \<open>What the loop over the children gets from each: its XML, its grammar key and its text. A run of
  linked children becomes one link element, named by the last linking word in it.\<close>

type_synonym child = "string \<times> string \<times> string"

definition is_link :: "child \<Rightarrow> bool" where
  "is_link c = starts_with (fst (snd c)) ''v-link''"

definition link_step :: "child \<Rightarrow> string \<times> string \<Rightarrow> string \<times> string" where
  "link_step c st =
    (let (x, k, t) = c; (link_key, ss) = st in
     if str_contains t ''&'' \<or> t = ''und'' \<or> t = ''and'' then (''link_&'', ss)
     else if str_contains t ''|'' \<or> t = ''oder'' \<or> t = ''or'' then (''link_|'', ss)
     else (link_key, ss @ x))"

definition link_xml :: "child list \<Rightarrow> string" where
  "link_xml cs =
    (let (link_key, ss) = fold link_step cs (''link_?'', [])
     in open_tag link_key @ ss @ close_tag link_key)"

function children_xml :: "child list \<Rightarrow> string" where
  "children_xml [] = []"
| "children_xml (c # cs) =
    (if is_link c then link_xml (takeWhile is_link (c # cs)) @ children_xml (dropWhile is_link (c # cs))
     else fst c @ children_xml cs)"
  by pat_completeness auto
termination
  by (relation "measure length") (auto simp: le_imp_less_Suc length_dropWhile_le)

definition wrap_xml :: "string \<Rightarrow> int \<Rightarrow> string \<Rightarrow> string" where
  "wrap_xml key level ss =
    (if key \<noteq> [] then
       (if level = 0 then open_tag key @ [newline] @ ss @ close_tag key @ [newline]
        else if level = 1 then open_tag key @ ss @ close_tag key @ [newline]
        else open_tag key @ ss @ close_tag key)
     else ss)"

fun to_xml :: "int \<Rightarrow> entity \<Rightarrow> string" where
  "to_xml level0 (Entity d s r v t em n) =
    (let gk = grammar_key (Entity d s r v t em n);
         key = xml_tag gk;
         level = (if key = ''clause'' then 0 else level0)
     in if gk = ''d-linking'' \<or> gk = ''d-komma'' then []
        else
          wrap_xml key level
            (if t \<noteq> [] then open_tag ''text'' @ t @ close_tag ''text''
             else children_xml (map (\<lambda>e.
               (to_xml (if key \<noteq> [] then level + 1 else level) e, grammar_key e, etext e)) em)))"

section \<open>Printing results\<close>

text \<open>The word list that \<^verbatim>\<open>parse\<close> logs, and the printers of a list of results; the graph and the XML
  stop after the first result.\<close>

definition print_input_word :: "string \<Rightarrow> string" where
  "print_input_word w =
    (if w = [] \<or> w = ''null'' then []
     else (case split (is_any_of ''|<'') w of
             [part, t] \<Rightarrow>
               ''  - '' @ trim part @ '': '' @ [CHR 0x27] @ trim t @ [CHR 0x27, newline]
           | _ \<Rightarrow> []))"

definition print_input :: "string \<Rightarrow> string" where
  "print_input words = concat (map print_input_word (split (is_any_of ''#>'') words))"

definition print_output :: "entities list \<Rightarrow> string" where
  "print_output rs =
    concat (map (\<lambda>e. print_long [] e @ [newline, newline]
      @ print_perl (groups_of e) [] ''v-clause-1'' @ [newline, newline]) (concat rs))"

definition print_perl_all :: "entities list \<Rightarrow> string" where
  "print_perl_all rs = concat (map (\<lambda>e. print_perl (groups_of e) [] ''v-clause-1'') (concat rs))"

definition print_graph_all :: "entities list \<Rightarrow> nat \<Rightarrow> string \<times> nat" where
  "print_graph_all rs u =
    (let (ss, u') = (case rs of [] \<Rightarrow> ([], u)
       | r # _ \<Rightarrow> fold (\<lambda>e (ss, u). let (g, k, u') = print_graph e u in (ss @ g, u')) r ([], u))
     in (''digraph parsed {'' @ [newline] @ ss @ ''}'' @ [newline], u'))"

definition print_xml :: "entities list \<Rightarrow> string" where
  "print_xml rs = (case rs of [] \<Rightarrow> [] | r # _ \<Rightarrow> concat (map (to_xml 0) r))"


section \<open>Lemmas\<close>

text \<open>The words that can be printed: the texts met on the way down.\<close>

fun texts :: "entity \<Rightarrow> string list" where
  "texts (Entity d s r v t em n) = (if t \<noteq> [] then [t] else concat (map texts em))"

lemma insert_groups_set:
  "set (insert_groups p t l ks pm) \<subseteq> set pm \<union> {(p @ ''/'' @ k, t) | k. k \<in> set ks}"
proof (induction ks arbitrary: l pm)
  case Nil
  then show ?case by simp
next
  case (Cons k ks)
  show ?case
    using Cons [of k "if k \<noteq> l then mm_insert (p @ ''/'' @ k) t pm else pm"]
    by (auto simp: mm_insert_def split: if_splits)
qed

lemma to_groups_texts:
  "snd ` set (to_groups e ks p pm) \<subseteq> snd ` set pm \<union> set (texts e)"
proof (induction e arbitrary: ks p pm)
  case (Entity d s r v t em n)
  obtain p1 ks1 where f: "fold group_marker v (p, ks) = (p1, ks1)" by (cases "fold group_marker v (p, ks)")
  show ?case
  proof (cases "t = []")
    case False
    then show ?thesis using insert_groups_set [of p1 t "[]" ks1 pm] by (auto simp: f)
  next
    case True
    have "snd ` set (fold (\<lambda>e pm. to_groups e ks1 ''v-clause-1'' pm) es pm) \<subseteq>
        snd ` set pm \<union> set (concat (map texts es))" if "set es \<subseteq> set em" for es pm
      using that
    proof (induction es arbitrary: pm)
      case Nil
      then show ?case by simp
    next
      case (Cons e es)
      have a: "snd ` set (to_groups e ks1 ''v-clause-1'' pm) \<subseteq> snd ` set pm \<union> set (texts e)"
        using Cons.prems by (intro Entity) simp
      have b: "snd ` set (fold (\<lambda>e pm. to_groups e ks1 ''v-clause-1'' pm) es (to_groups e ks1 ''v-clause-1'' pm))
          \<subseteq> snd ` set (to_groups e ks1 ''v-clause-1'' pm) \<union> set (concat (map texts es))"
        using Cons.prems by (intro Cons.IH) simp
      from a b show ?case unfolding fold_Cons o_apply list.map concat.simps set_append by blast
    qed
    with True show ?thesis by (simp add: f)
  qed
qed

lemma fold_group_marker_keys:
  "snd (fold group_marker (filter (\<lambda>w. \<not> starts_with w ''v-clause'') v) (p', ks)) =
   snd (fold group_marker v (p, ks))"
proof -
  have key: "snd (group_marker w (q, l)) = snd (group_marker w (q', l))" for w q q' l
    by (simp add: group_marker_def)
  have skip: "snd (group_marker w (q, l)) = l" if "starts_with w ''v-clause''" for w q l
    using that by (simp add: group_marker_def)
  have "snd st = snd st' \<Longrightarrow> snd (fold group_marker (filter (\<lambda>w. \<not> starts_with w ''v-clause'') v) st) =
      snd (fold group_marker v st')" for st st'
  proof (induction v arbitrary: st st')
    case Nil
    then show ?case by simp
  next
    case (Cons w v)
    obtain q q' l where st: "st = (q, l)" "st' = (q', l)"
      using Cons.prems by (cases st; cases st') auto
    show ?case
    proof (cases "starts_with w ''v-clause''")
      case True
      then have "snd st = snd (group_marker w st')" using skip by (simp add: st)
      with True Cons.IH show ?thesis by simp
    next
      case False
      have "snd (group_marker w st) = snd (group_marker w st')" using key by (simp add: st)
      with False Cons.IH show ?thesis by simp
    qed
  qed
  then show ?thesis by simp
qed

text \<open>Balanced XML: text without angle brackets, elements and sequences.\<close>

inductive balanced :: "string \<Rightarrow> bool" where
  balanced_text: "CHR ''<'' \<notin> set s \<Longrightarrow> CHR ''>'' \<notin> set s \<Longrightarrow> balanced s"
| balanced_elem: "balanced s \<Longrightarrow> CHR ''<'' \<notin> set k \<Longrightarrow> CHR ''>'' \<notin> set k \<Longrightarrow>
    balanced (open_tag k @ s @ close_tag k)"
| balanced_append: "balanced s \<Longrightarrow> balanced t \<Longrightarrow> balanced (s @ t)"

lemma balanced_Nil [simp]: "balanced []"
  by (rule balanced_text) simp_all

lemma balanced_newline [simp]: "balanced [newline]"
  by (rule balanced_text) (simp_all add: newline_def)

lemma xml_tag_plain: "CHR ''<'' \<notin> set (xml_tag k)" "CHR ''>'' \<notin> set (xml_tag k)"
  by (simp_all add: xml_tag_def)

lemma balanced_wrap:
  assumes "balanced s" "CHR ''<'' \<notin> set k" "CHR ''>'' \<notin> set k"
  shows "balanced (wrap_xml k l s)"
proof -
  have "balanced ((open_tag k @ ([newline] @ s) @ close_tag k) @ [newline])"
    "balanced ((open_tag k @ s @ close_tag k) @ [newline])" "balanced (open_tag k @ s @ close_tag k)"
    by (intro balanced_append balanced_elem assms balanced_newline)+
  then show ?thesis using assms(1) by (simp add: wrap_xml_def)
qed

lemma link_step_balanced:
  "\<forall>c \<in> set cs. balanced (fst c) \<Longrightarrow> balanced (snd st) \<Longrightarrow> fst st \<in> {''link_?'', ''link_&'', ''link_|''} \<Longrightarrow>
    balanced (snd (fold link_step cs st)) \<and> fst (fold link_step cs st) \<in> {''link_?'', ''link_&'', ''link_|''}"
proof (induction cs arbitrary: st)
  case Nil
  then show ?case by simp
next
  case (Cons c cs)
  have "balanced (snd (link_step c st)) \<and> fst (link_step c st) \<in> {''link_?'', ''link_&'', ''link_|''}"
    using Cons.prems by (cases c; cases st) (simp add: link_step_def balanced_append)
  with Cons show ?case by simp
qed

lemma link_xml_balanced: "\<forall>c \<in> set cs. balanced (fst c) \<Longrightarrow> balanced (link_xml cs)"
proof -
  assume "\<forall>c \<in> set cs. balanced (fst c)"
  from link_step_balanced [OF this, of "(''link_?'', [])"]
  have "balanced (snd (fold link_step cs (''link_?'', [])))"
    and k: "fst (fold link_step cs (''link_?'', [])) \<in> {''link_?'', ''link_&'', ''link_|''}"
    by simp_all
  moreover from k have "CHR ''<'' \<notin> set (fst (fold link_step cs (''link_?'', [])))"
    "CHR ''>'' \<notin> set (fst (fold link_step cs (''link_?'', [])))"
    by auto
  ultimately show ?thesis unfolding link_xml_def split_beta Let_def by (intro balanced_elem)
qed

lemma children_xml_balanced: "\<forall>c \<in> set cs. balanced (fst c) \<Longrightarrow> balanced (children_xml cs)"
proof (induction cs rule: children_xml.induct)
  case 1
  then show ?case by simp
next
  case (2 c cs)
  have "\<forall>d \<in> set (takeWhile is_link (c # cs)). balanced (fst d)"
    using 2(3) set_takeWhileD by fastforce
  then have "balanced (link_xml (takeWhile is_link (c # cs)))" by (rule link_xml_balanced)
  moreover have "\<forall>d \<in> set (dropWhile is_link (c # cs)). balanced (fst d)"
    using 2(3) set_dropWhileD by fastforce
  ultimately show ?case using 2 by (auto simp del: takeWhile.simps dropWhile.simps intro: balanced_append)
qed

lemma to_xml_balanced:
  "\<forall>w \<in> set (texts e). CHR ''<'' \<notin> set w \<and> CHR ''>'' \<notin> set w \<Longrightarrow> balanced (to_xml level e)"
proof (induction e arbitrary: level)
  case (Entity d s r v t em n)
  have b: "balanced (if t \<noteq> [] then open_tag ''text'' @ t @ close_tag ''text''
             else children_xml (map (\<lambda>e. (to_xml l e, grammar_key e, etext e)) em))" for l
  proof (cases "t = []")
    case False
    then show ?thesis using Entity.prems by (simp add: balanced_elem balanced_text)
  next
    case True
    then have "\<forall>c \<in> set (map (\<lambda>e. (to_xml l e, grammar_key e, etext e)) em). balanced (fst c)"
      using Entity by auto
    then show ?thesis using True children_xml_balanced by simp
  qed
  show ?case
    using balanced_wrap [OF b xml_tag_plain] by (simp add: Let_def del: if_split)
qed


section \<open>Properties\<close>

text \<open>The XML of a parse tree is balanced, whatever the shape of the tree, as long as the words of
  the sentence contain no angle brackets: linked children are grouped into one element and nothing is
  left open.\<close>

theorem to_xml_is_balanced:
  assumes "\<forall>w \<in> set (texts e). CHR ''<'' \<notin> set w \<and> CHR ''>'' \<notin> set w"
  shows "balanced (to_xml level e)"
  using assms by (rule to_xml_balanced)

definition sample_tree :: entity where
  "sample_tree = new_entity ''s-all''
    [new_entity ''s-np/v-subject''
       [set_text ''Hund'' (new_entity ''d-noun/v-linked'' []), set_text ''und'' (new_entity ''d-linking/v-linking'' []),
        set_text ''Katze'' (new_entity ''d-noun/v-linked'' [])],
     set_text ''schlafen'' (new_entity ''d-verb/v-verb'' [])]"

theorem to_xml_is_balanced_witness:
  "balanced (to_xml 0 sample_tree) \<and> to_xml 0 sample_tree =
    ''<fact>'' @ [newline]
    @ ''<subject><link_&><linked><text>Hund</text></linked><linked><text>Katze</text></linked></link_&></subject>''
    @ [newline] @ ''<verb><text>schlafen</text></verb>'' @ [newline] @ ''</fact>'' @ [newline]"
proof
  have "list_all (\<lambda>w. CHR ''<'' \<notin> set w \<and> CHR ''>'' \<notin> set w) (texts sample_tree)" by code_simp
  then show "balanced (to_xml 0 sample_tree)"
    by (intro to_xml_is_balanced) (simp add: list_all_iff)
  show "to_xml 0 sample_tree =
    ''<fact>'' @ [newline]
    @ ''<subject><link_&><linked><text>Hund</text></linked><linked><text>Katze</text></linked></link_&></subject>''
    @ [newline] @ ''<verb><text>schlafen</text></verb>'' @ [newline] @ ''</fact>'' @ [newline]"
    by code_simp
qed

text \<open>The groups for the Perl hash contain words of the tree and nothing else.\<close>

theorem groups_are_words: "snd ` set (groups_of e) \<subseteq> set (texts e)"
  using to_groups_texts [of e "[]" "''v-clause-1''" "[]"] by (simp add: groups_of_def)

text \<open>The clause of an inner node is lost: for a node without a text of its own, neither its clause
  markers nor the clause of its parent change the groups, because the recursion does not pass the key
  prefix on. Only a leaf that carries the marker itself is filed under its clause.\<close>

theorem inner_clause_is_lost:
  "to_groups (Entity d s r v [] em n) ks p pm =
   to_groups (Entity d s r (filter (\<lambda>w. \<not> starts_with w ''v-clause'') v) [] em n) ks p' pm"
  using fold_group_marker_keys [of v p' ks p] by (simp add: split_beta)

end
