(* ===== verification/TaggerTables.thy ===== *)
theory TaggerTables
  imports Util2012
begin

text \<open>
  The built-in tables of \<^verbatim>\<open>hal2012-tagger2012-builtin.cpp\<close>: the words that are never
  names, the names, and the parts of speech. Adjacent string literals of the source are the elements
  of a list that is concatenated; a long table is split into parts of at most 150 source lines. The
  empty element that ends the array of parts of speech is kept.
\<close>

definition entity_ends_text :: "string" where
  "entity_ends_text =
    concat [
      ''i;h;g;f;e;d;'', ''c;b;a;er;sie;es;ihm;ihr;ihn;mir;dir;'', ''mich;dich;ich;du'']"

definition male_names_1 :: "string" where
  "male_names_1 =
    concat [
      ''aaron;abraham;achaz;'', ''achim;adalbert;adam;adelbert;adelfried;adelhard;adi;'',
      ''adolf;adolph;adrian;aegidius;agilbert;agilmar;alban;'',
      ''albert;albin;albrecht;alex;alexander;alf;alfhard;'',
      ''alfinus;alfons;alfred;alfried;alhard;allmar;alois;'',
      ''aloisius;aloys;aloysius;alphonsus;alrik;altfried;'',
      ''alwin;amadeus;ambros;ambrosius;andreas;andree;andy;'',
      ''annik;anrich;ansbert;anselm;ansgar;anton;antonius;'',
      ''arend;aribert;arist;arkadius;armin;arnbert;arnd;'',
      ''arndt;arne;arnfred;arnfried;arnhart;arnim;arno;'',
      ''arnold;arnolf;arnt;arnulf;aron;arthur;artur;'',
      ''arved;arwed;arwid;arwin;ascan;august;augustin;'',
      ''augustinus;augustus;axel;baldur;balthasar;baptist;'',
      ''barack;barrack;bardo;barnabas;bartho;barthold;'',
      ''bartholomaeus;bartold;bartosch;bastian;beat;benedict;'',
      ''benedikt;benediktus;benjamin;benno;bernd;berndt;'',
      ''bernfried;bernhard;bernhardin;bernhardt;bernhart;berni;'',
      ''berno;bernold;bernulf;bernward;bert;berthold;berti;'',
      ''bertin;bertl;bertold;bertolt;bertram;bertwald;'',
      ''bertwin;birk;bjoern;blasius;bodmar;bodo;bodomar;'',
      ''bolko;bonifaz;boris;boerries;borromaeus;borwin;'',
      ''botho;boto;brandolf;bringfried;bruno;burchard;'',
      ''burckhard;burckhardt;burgfried;burghard;burghardt;'',
      ''burghart;burkard;burkardt;burkhard;burkhardt;burkhart;'',
      ''cai;carl;carlheinz;carsten;caspar;cay;cersten;'',
      ''chris;christfried;christhard;christhardt;christhart;'',
      ''christhelm;christian;christmut;christof;christoph;'',
      ''christopher;christopherus;christophorus;christward;'',
      ''claudius;claus;clemens;conrad;constantin;corbinian;'',
      ''cord;cordian;cordt;cornelius;cornell;cuno;curd;'',
      ''curt;cyrill;dagobert;dagomar;damian;daniel;'',
      ''dankfried;dankhard;dankmar;dankward;dankwart;danny;'',
      ''darius;david;degenhard;degenhardt;degenhart;delf;'',
      ''denis;dennis;denny;desiderius;dethard;detlef;detlev;'',
      ''detmar;detrich;didi;diemo;dierk;dietbald;dietbert;'',
      ''dieter;dieterich;dietfried;dietgar;dietger;diethard;'',
      ''diethardt;diethart;diethelm;diether;diethmar;dietmar;'',
      ''dietmund;dietolf;dietram;dietrich;dietwald;dietwalt;'',
      ''dietwolf;dietwulf;dietz;dimitri;dionys;dirk;ditmar;'',
      ''dittmar;dominic;dominik;dominikus;donat;donatus;'',
      ''eberhard;eberhardt;eberhart;eckard;eckardt;eckart;'',
      ''eckbert;eckehard;eckehardt;eckehart;eckert;eckfried;'',
      ''eckhard;eckhardt;eckhart;eckhold;eddi;edelbert;'',
      ''edelfried;edelhard;edelmut;edelwald;edgar;edmar;'',
      ''edmund;eduard;eduardt;edwin;egbert;egidius;eginald;'',
      ''eginhard;eginhardt;egmont;egomar;egon;ehrenfried;'',
      ''ehrenreich;ehrhard;ehrhardt;ehrmut;eik;eike;einhard;'',
      ''einhardt;eitelbert;eitelfritz;ekhard;ekhardt;ekkard;'',
      ''ekkardt;ekkart;ekkehard;ekkehardt;ekkehart;elbert;'',
      ''elkmar;elmar;emanuel;emeram;emerich;emil;emmeram;'',
      ''emmeran;emmerich;engelbert;engelbrecht;engelhard;'',
      ''engelhardt;engelmar;englbert;enrico;erdfried;erdmann;'',
      ''erdwin;erfried;erhard;erhardt;erhart;eric;erich;'',
      ''erik;erk;erkmar;erlfried;ermenfried;erni;erno;'',
      ''ernst;ernstfried;erwin;eugen;eustachius;ewald;eyck;'',
      ''fabian;falk;falkhard;falkmar;falko;felix;ferdi;'',
      ''ferdinand;ferdinandus;ferfried;ferhard;ferhart;'',
      ''fidelius;firma;florentin;florentius;florenz;florian;'',
      ''folker;folkhard;folkhardt;folkhart;folko;follrich;'',
      ''frank;frankmut;franz;franziskus;franzl;franzpeter;'',
      ''fred;freddy;freimund;freimut;freimuth;freiwald;'',
      ''fridolin;fridulf;fried;friedbald;friedberg;friedbert;'',
      ''friedebert;friedeborn;friedel;friedemann;friedemar;'',
      ''frieder;friedewald;friedhard;friedhardt;friedhart;'',
      ''friedhelm;friedhold;friedjoerg;friedl;friedlieb;'',
      ''friedmar;friedmut;friedmuth;friedolf;friedolin;'',
      ''friedrich;friedwald;friedwin;frithjof;fritz;frohmund;'',
      ''frohmut;frohwald;frowin;gabriel;gangolf;gebhard;'',
      ''gebhart;gelbert;georg;gerald;gerd;gerdfried;gerdt;'',
      ''gereon;gerfried;gerhard;gerhardt;gerhart;gerlach;'',
      ''german;germar;germo;germut;gernfried;gernod;gernot;'',
      ''gernulf;gero;gerold;gerolf;gerrit;gert;gerthold;'',
      ''gertmund;gertwin;gerwald;gerwin;giesbert;gisbert;'',
      ''giselbert;giselher;gismar;godo;golo;gordian;goswin;'',
      ''gottfried;gotthard;gotthardt;gotthart;gotthelf;'',
      ''gotthilf;gotthold;gottlieb;gottlob;gottreich;gottwald;'',
      ''gottwaldt;gottwalt;goetz;gregor;grimbert;guido;'',
      ''gundhard;gundhart;gundmar;gundolf;gunfried;gunhard;'',
      ''gunnar;gunter;guenter;gunthard;gunther;guenther;'',
      ''guntmar;guntram;gustav;gustel;gustl;hadubert;hagen;'',
      ''haimo;hanfried;hannes;hanno;hanns;hannsgeorg;'',
      ''hannsjoerg;hannsjuergen;hannspeter;hans;hansdieter;'',
      ''hansfried;hansfriedrich;hansgeorg;hansgerd;hansguenter;'',
      ''hansguenther;hansheinz;hanshelmut;hanshermann;hansi;'',
      ''hansjakob;hansjoachim;hansjochen;hansjoerg;hansjoern;'',
      ''hansjuergen;hanskarl;hansl;hansludwig;hansmartin;'',
      ''hansotto;hanspeter;hanswalter;hanswerner;hanswilhelm;'',
      ''hanswolf;harald;hardi;hardo;hardy;hariolf;harri;'',
      ''harribert;harro;harry;hartfried;hartger;hartlieb;'',
      ''hartmann;hartmund;hartmut;hartmuth;hartwald;hartwig;'',
      ''hartwin;hasko;hasso;hatto;haug;haymo;heidebert;'',
      ''heiderich;heidfried;heiko;heilmuth;heilwig;heimar;'',
      ''heimbert;heimfrid;heimhart;heimo;heimwald;heiner;'',
      ''heinfried;heini;heino;heinolf;heinrich;heintje;'',
      ''heinz;heinzdieter;heinzfried;heinzhermann;heinzjoerg;'',
      ''heinzjuergen;heinzkarl;heinzpeter;heinzwerner;helbert;'',
      ''helfred;helfrid;helfried;helge;helgert;helgomar;'',
      ''hellfried;hellmut;hellmuth;helm;helmar;helmbrecht;'',
      ''helmfried;helmo;helmrich;helmut;helmuth;helmward;'',
      ''helwart;helwig;helwin;hendrik;henning;henrik;henry;'',
      ''herald;herbert;herfried;herger;heribert;herko;'',
      ''hermann;hermfried;herold;herrmann;herwald;herward;'',
      ''herwart;herwarth;herwig;heyko;heyo;hieronimus;'']"

definition male_names_2 :: "string" where
  "male_names_2 =
    concat [
      ''hieronymus;hilar;hilarius;hildebert;hildebrand;'',
      ''hildemar;hildmar;hilfried;hilmar;hippolytus;hoimar;'',
      ''holger;holk;holm;holmer;horst;horstfried;horstmar;'',
      ''hubert;hubertus;hugo;humbert;ignatz;ignaz;ilrich;'',
      ''immanuel;ingbert;ingfried;inghard;ingmar;ingo;'',
      ''ingobert;ingolf;ingomar;ingowart;ingram;inkmar;'',
      ''innozenz;irenaeus;ireneus;irmfried;irmin;irminfried;'',
      ''irmo;isbert;isfried;isidor;iven;ivo;jacob;jakob;'',
      ''jan;janfried;jannick;jean;jens;jo;joachim;jobst;'',
      ''jochen;joel;johann;johannes;jonas;jonathan;jonny;'',
      ''jons;joerg;joergfried;joern;joscha;joschka;josef;'',
      ''joseph;jost;josua;julian;julius;jupp;juergen;'',
      ''just;justus;kai;kajetan;karl;karlernst;karleugen;'',
      ''karlfried;karlfrieder;karlfriedrich;karlgeorg;karlguenter;'',
      ''karlhans;karlheiner;karlheinrich;karlheinz;karlhorst;'',
      ''karli;karlmann;karlotto;karlpeter;karsten;kasimir;'',
      ''kaspar;kay;kersten;kevin;kilian;klaudius;klaus;'',
      ''klausdieter;klausjuergen;klauspeter;klemens;knut;knuth;'',
      ''konrad;konradin;konstantin;korbinian;kord;kornelius;'',
      ''kristian;kruno;kunibert;kuno;kurd;kurt;kurth;'',
      ''lambert;landolf;lars;laurentius;laurenz;leander;'',
      ''leberecht;lebrecht;lenard;lenz;leo;leon;leonhard;'',
      ''leonhardt;leopold;leuthold;lewin;liborius;liebhard;'',
      ''liebhardt;lienard;lienhard;lienhardt;lindmar;linhart;'',
      ''lois;loisl;lorenz;lothar;louis;lucas;ludger;'',
      ''ludolf;ludwig;luitpold;luitwin;lukas;lutz;maic;'',
      ''maik;malte;manfred;manfried;manhard;manhardt;'',
      ''manhold;manuel;marbod;marc;marcel;marcellus;marco;'',
      ''marcus;marfried;margolf;marian;mario;marius;mark;'',
      ''marko;markolf;markus;markward;markwart;marold;'',
      ''martin;marzel;marzellus;mathias;mathis;matthaeus;'',
      ''matthias;maurus;max;maximilian;maximillian;maxl;'',
      ''mayk;medard;medardus;meik;meikel;meinard;meinfried;'',
      ''meinhard;meinhart;meinold;meinolf;meinrad;meinulf;'',
      ''melchior;merten;micha;michael;michel;michl;mike;'',
      ''mirco;mirko;mischel;moritz;nathanael;neidhard;'',
      ''neidhardt;neithard;neithart;nepomuk;nick;nicki;'',
      ''nicky;nico;nicolas;nicolaus;niels;niklas;niklaus;'',
      ''niko;nikodem;nikodemus;nikolas;nikolaus;nils;'',
      ''norbert;nordfried;norfried;norman;norwin;notfried;'',
      ''notker;nunzius;odilo;olaf;olf;oliver;olli;ornulf;'',
      ''ortfried;ortmund;ortwin;oskar;osmund;oswald;oswin;'',
      ''otbert;otfried;otger;otheinrich;othmar;otmar;'',
      ''ottfried;otthard;otthart;otthein;ottheinrich;ottheinz;'',
      ''otthold;ottkar;ottmar;otto;ottobert;ottokar;ottomar;'',
      ''ottwin;otwald;otwin;pankratius;pankraz;pascal;'',
      ''patrick;paul;paulfried;paulinus;paulus;peter;philip;'',
      ''philipp;phillip;phillipp;phillippus;pierre;pirmin;'',
      ''pius;quintus;quirin;raik;raimar;raimer;raimond;'',
      ''raimund;rainald;rainer;rainhard;rainhardt;rainmund;'',
      ''ralf;ralph;randolf;randolph;raphael;rasso;raymund;'',
      ''reginbert;reginhardt;reimo;reimund;reinald;reinar;'',
      ''reinbert;reiner;reinfried;reinhard;reinhardt;reinhart;'',
      ''reinhold;reinholdt;reinmar;reino;reinold;reinulf;'',
      ''reinwald;rembert;remigius;renald;renatus;renold;'',
      ''rezzo;richard;rico;rigbert;rigo;rigobert;rimbert;'',
      ''ringo;robby;robert;roberto;rochus;roderich;roger;'',
      ''roland;rolf;roman;romanus;ronald;ronny;roselius;'',
      ''rotger;rothmund;rouven;ruben;rudenz;rudger;rudi;'',
      ''ruediger;rudolf;rudolph;runald;runfried;rupert;'',
      ''rupertus;ruppert;rupprecht;ruprecht;rutger;ruetger;'',
      ''ruthard;samuel;sascha;schorsch;sebald;sebastian;'',
      ''seibold;sepp;seppl;sergius;severin;sibrand;sidonius;'',
      ''siegbert;siegenot;siegert;siegfrid;siegfried;sieghard;'',
      ''sieghardt;sieghart;sieghelm;siegmar;siegmund;siegulf;'',
      ''siegwald;siegward;siegwart;sigbert;sigenot;sigfrid;'',
      ''sigfried;siggi;sighard;sighart;sighelm;sigi;'',
      ''sigisbert;sigishelm;sigismund;sigmar;sigmund;sigmut;'',
      ''sigolf;sigurd;sigward;sigwart;silvester;silvio;'',
      ''simon;simpert;sixtus;soenke;sonnfried;sonnhard;'',
      ''sonnhardt;soeren;stanislaus;stefan;steff;steffan;'',
      ''steffen;steph;stephan;stephanus;steve;steven;'',
      ''sturmhard;sturmius;sven;swen;sylvester;sylvio;'',
      ''sylvius;tankred;tassilo;tell;thaddaeus;thankmar;'',
      ''thassilo;theo;theobald;theobert;theodor;theofried;'',
      ''theohold;theophil;theophilus;thielo;thiemo;thilo;'',
      ''thomas;thoralf;thorsten;tiberius;tiburtius;tiemo;'',
      ''til;till;tillmann;tilman;tilmann;tilo;tim;timmo;'',
      ''timo;timon;timotheus;tino;titus;tobias;tom;tommy;'',
      ''toni;toens;tony;toralf;torben;torge;torsten;'',
      ''traugott;trauhard;treufried;treuhard;treuhart;tristan;'',
      ''trudbert;trutz;udo;ulf;ulfried;uli;ulli;ullrich;'',
      ''ulrich;ulvi;ulwin;uranius;urban;ursus;utho;uto;'',
      ''utto;utz;uve;uwe;valentin;valerian;veit;veith;'',
      ''velten;viktor;vincenz;vinzent;vinzenz;vitalis;vitus;'',
      ''volkard;volkart;volkbert;volker;volkhard;volkhardt;'',
      ''volkhart;volkher;volkmar;volkrad;volkward;volkwart;'',
      ''vollrath;volrad;walbert;waldemar;waldfried;walfried;'',
      ''walter;walther;walti;warnfried;wastl;wedig;wedigo;'',
      ''weikhard;welf;welfhard;wendel;wendelin;wendelinus;'',
      ''wendemar;wennemar;wenzel;werner;wernfried;wernhard;'',
      ''wernher;wichard;wido;wiegand;wiegbert;wieghart;'',
      ''wieland;wiethold;wigand;wigbert;wiglaf;wilbert;'',
      ''wilbrand;wilbrandt;wilderich;wilfrid;wilfried;wilhard;'',
      ''wilhardt;wilhelm;willehad;willhart;willi;willibald;'',
      ''willibert;willmar;willrich;willy;wilmar;wilmhard;'',
      ''wilmut;winand;winfrid;winfried;wingolf;winnimar;'',
      ''winrich;withold;witmar;wittmar;wladislaus;woldemar;'',
      ''wolf;wolfbert;wolfdieter;wolfdietrich;wolfeckart;wolff;'',
      ''wolfgang;wolfguenter;wolfhard;wolfhardt;wolfhart;'',
      ''wolfhelm;wolfhermann;wolfmar;wolfram;wolfrid;wolfried;'',
      ''wolrad;wulf;wulfhard;wulfhardt;wunibald;wunnibald;'', ''xaver;xaverius;york;zacharias;zeno'']"

definition male_names_text :: string where
  "male_names_text = male_names_1 @ male_names_2"

definition female_names_text :: string where
  "female_names_text = []"

definition pos_types_1 :: "string list" where
  "pos_types_1 =
    [
      ''&: linking'', ''|: linking'', ''?: n'', ''$a$: n'', ''$b$: n'', ''$c$: n'', ''$d$: n'',
      ''$e$: n'', ''$f$: n'', ''$g$: n'', ''$h$: n'', ''$i$: n'', ''abends: adj'', ''aber: adj'',
      ''about: prep'', ''ab: prep'', ''ab: prep'', ''acht: adj'', ''achte: adj'', ''achtzehn: adj'',
      ''achtzehnte: adj'', ''achzig: adj'', ''aerobe: n'', ''against: prep'', ''ah: n'',
      ''alle: adj'', ''allerdings: adj'', ''allerliebst: adj'', ''alles: n'', ''allgemein: adj'',
      ''allgemeine: adj'', ''allgemeinem: adj'', ''allgemeinen: adj'', ''allgemeiner: adj'',
      ''allgemeines: adj'', ''als: prep'', ''alt: adj'', ''alt: adj'', ''always: adj'',
      ''am: prep'', ''a: n'', ''(a): art'', ''(the): art'', ''anbrennen: v'', ''andere: adj'',
      ''anderen: adj'', ''andererseits: adj'', ''anders: adj'', ''and: linking'', ''anfangs: adj'',
      ''angst: n'', ''anhaben: v'', ''anhaeltst: v'', ''anhalten: v'', ''anhalte: v'', ''an: prep'',
      ''an: prep'', ''anstatt: questionword'', ''$$anyone$$: n'', ''arbeiten: v'', ''arbeite: v'',
      ''arena: n'', ''are: v'', ''arg: adj'', ''arm: adj'', ''Arm: n'', ''$$aswellas$$: adj'',
      ''atomar: adj'', ''atomaren: adj'', ''auch: adj'', ''auch: adj'', ''auf: prep'',
      ''auf: prep'', ''ausdruecke: n'', ''aus: prep'', ''Aus: n'', ''aussagen: n'', ''Aussagen: n'',
      ''Aussehen: n'', ''aussehen: v'', ''aussen: adj'', ''baeren: n'', ''baer: n'', ''bald: adj'',
      ''bar: adj'', ''barocke: adj'', ''barock: n'', ''barsch: adj'', ''baut: v'',
      ''because: questionword'', ''bedeuten: v'', ''bedeutet: v'', ''beeinflussend: adj'',
      ''beeinflussen: v'', ''beeinflusse: v'', ''beeinflusst: v'', ''beendet: v'',
      ''beherrscht: v'', ''beiden: adj'', ''beiderseits: adj'', ''bei: prep'',
      ''beispielsweise: adj'', ''beizeiten: adj'', ''bekannt: adj'', ''beleidigt: adj'',
      ''benachbart: adj'', ''benachbarte: adj'', ''bereit: adj'', ''bereits: adj'', ''berg: n'',
      ''Berichten: n'', ''berichten: v'', ''bern: n'', ''beruehmt: adj'', ''beruehmte: adj'',
      ''beruehmtest: adj'', ''berufe: n'', ''berufen: v'', ''berufe: v'', ''beruf: n'',
      ''beruf: n'', ''berufst: v'', ''beruhen: v'', ''beruht: v'', ''beschaedigt: adj'',
      ''beschaeftigt: adj'', ''bescheiden: adj'', ''beschlagnahmt: adj'', ''beschlossen: v'',
      ''besetzt: adj'', ''besondere: adj'', ''besonderem: adj'', ''besonderen: adj'',
      ''besonderer: adj'', ''besonderes: adj'', ''besonders: adj'', ''best: adj'', ''beste: adj'',
      ''bestehende: adj'', ''bestehendem: adj'', ''bestehenden: adj'', ''bestehender: adj'',
      ''bestehendes: adj'', ''bestehen: v'', ''besteht: v'', ''bett: n'', ''between: prep'',
      ''be: v'', ''bewahren: v'', ''bewusst: adj'', ''bezeichnen: v'', ''bezeichnet: v'',
      ''biblisch: adj'', ''biblische: adj'', ''biblischem: adj'', ''biblischen: adj'',
      ''biblischer: adj'', ''biblisches: adj'', ''bieder: adj'', ''bilden: v'', ''bildet: v'',
      ''bilde: v'', ''bin: v'', ''bisauf: prep'', ''bisher: adj'', ''bisin: prep'', ''bis: prep'',
      ''bist: v'', ''bisweilen: adj'', ''biszu: prep'', ''bitter: adj'', ''blank: adj'',
      ''blass: adj'', ''blau: adj'', ''bleib: v'', ''blind: adj'', ''blo?: adj'', ''bloed: adj'',
      ''bloss: adj'', ''b: n'', ''bockwurst: n'', ''boes: adj'', ''braucht: v'', ''brav: adj'',
      ''breit: adj'', ''bringen: v'', ''bringst: v'', ''bringt: v'', ''bring: v'', ''bruder: n'',
      ''brueder: n'', ''brunkhorst: n'', ''buergerprotest: n'', ''by: prep'', ''by: prep'',
      ''ca: adj'', ''cdu: n'', ''china: n'', ''c: n'', ''cooles: adj'', ''da: adj'',
      ''dafuer: questionword'', ''damals: adj'', ''damit: questionword'', ''danach: adj'',
      ''dann: adj'', ''darfst: v'', ''darf: v'', ''das: art'', ''dass: questionword'',
      ''dazu: prep'', ''dein: art'', ''deine: art'', ''deinem: art'', ''deinen: art'',
      ''deiner: art'', ''deins: n'', ''den: art'', ''dengleichen: adj'', ''denken: v'',
      ''denn: adj'', ''denselben: adj'', ''der: art'', ''derb: adj'', ''dere: adj'', ''deren: adj'',
      ''dererseits: adj'', ''ders: adj'', ''des: art'', ''deutsch: adj'', ''deutsche: adj'',
      ''dich: n'', ''dicht: adj'', ''dick: adj'', ''did: v'', ''die: art'', ''dienstags: adj'',
      ''dies: art'', ''diese: art'', ''diesem: art'', ''diesen: art'', ''dieser: art'',
      ''dieses: art'', ''dinge: n'', ''dingen: n'', ''dir: n'', ''d: n'', ''doch: inter'',
      ''done: adj'', ''doof: adj'', ''doppelt: adj'', ''dort: adj'', ''do: v'', ''drei: adj'',
      ''dreimal: adj'', ''dreissig: adj'', ''dreist: adj'', ''dreizehn: adj'', ''dreizehnte: adj'',
      ''dritte: adj'', ''drittem: adj'', ''dritten: adj'', ''dritter: adj'', ''drittes: adj'',
      ''droide: n'', ''droiden: n'', ''droid: n'', ''druesenendstueck: n'', ''duenn: adj'',
      ''duerfen: v'', ''duerfte: v'', ''duerr: adj'', ''duester: adj'', ''dumm: adj'',
      ''dumpf: adj'', ''du: n'', ''dunkel: adj'', ''durch: prep'', ''durch: prep'', ''durst: prep'',
      ''eben: adj'', ''ebenfalls: adj'', ''echt: adj'', ''edel: adj'', ''eher: adj'',
      ''eigen: adj'', ''ein: art'', ''ein: art'', ''eine: art'', ''eine: art'', ''einem: art'',
      ''einem: art'', ''einem: art'', ''einen: art'', ''einer: art'', ''einer: art'',
      ''einerseits: adj'', ''eines: art'', ''eines: art'', ''eingenommen: v'', ''eingestellt: adj'',
      ''einkaufen: v'', ''einmal: adj'', ''eins: adj'', ''einstein: n'', ''elend: adj'',
      ''elend: adj'', ''Elend: n'', ''elf: adj'', ''elfte: adj'', ''elter: n'', ''eltern: n'',
      ''e: n'', ''enden: v'', ''enden: v'', ''endeten: v'', ''endete: v'', ''endet: v'',
      ''endlich: adj'', ''ends: adj'', ''eng: adj'', ''en: n'', ''entfernt: adj'', ''ent: prep'',
      ''enumall: v'', ''equal: v'', ''erbaut: v'', ''erfand: v'', ''erfunden: adj'',
      ''erfunden: v'', ''erklaeren: v'', ''er: n'', ''ernst: adj'', ''er: prep'', ''erst: adj'',
      ''erste: adj'', ''erstem: adj'', ''ersten: adj'', ''erster: adj'', ''erstes: adj'',
      ''erstmals: adj'', ''erweitern: v'', ''erzaehlen: v'', ''es: n'', ''essen: v'', ''etwa: adj'',
      ''euch: n'', ''euer: art'', ''eueren: art'', ''eueres: art'', ''euers: art'', ''eurem: art'',
      ''euren: art'', ''eures: art'', ''everest: n'', ''ewig: adj'', ''existiert: v'',
      ''fade: adj'', ''faehrst: v'', ''fahl: adj'', ''fahren: v'', ''fahre: v'', ''fair: adj'',
      ''falls: questionword'', ''falsch: adj'', ''falsche: adj'', ''_false_: adj'',
      ''_(false)_: adj'', ''fangs: adj'', ''farbe: n'', ''fast: adj'', ''faul: adj'', ''faust: n'',
      ''fehler: n'', ''feig: adj'', ''fein: adj'', ''fern: adj'', ''Fernsehen: n'',
      ''fernsehen: v'', ''fesch: adj'', ''fest: adj'', ''fest: prep'', ''fett: adj'',
      ''feucht: adj'', ''fisch: n'', ''fische: n'', ''fidel: adj'', ''fies: adj'', ''film: n'',
      ''financial: adj'', ''finden: v'', ''findest: v'', ''findet: v'', ''finster: adj'',
      ''fix: adj'', ''flach: adj'', ''flau: adj'', ''fliegen: v'', ''flink: adj'', ''fluchen: v'',
      ''flughafen: n'', ''f: n'', ''folgende: adj'', ''for: prep'', ''forsch: adj'', ''Fragen: n'',
      ''fragen: v'', ''frankreich: n'', ''frech: adj'', ''freehal: n'', ''frei: adj'',
      ''frei: prep'', ''fremd: adj'', ''freuen: v'', ''freue: v'', ''freust: v'', ''freut: v'',
      ''froh: adj'', ''fromm: adj'', ''frost: n'', ''frueh: adj'', ''frueher: adj'',
      ''fuehlen: vi'', ''fuehle: v'', ''fuehlst: v'', ''fuenf: adj'', ''fuenfte: adj'',
      ''fuenfzehn: adj'', ''fuenfzehnte: adj'', ''fuenfzig: adj'', ''fuer: prep'', ''fr: prep'',
      ''fuerchte: v'', ''fuerchten: v'', ''fuerchtest: v'', ''fuerst: n'', ''funden: adj'',
      ''f=>: v'', ''gab: v'', ''ganz: adj'', ''gebaeren: v'', ''geben: v'', ''geboren: v'',
      ''geborgenheit: n'', ''geduld: n'', ''gegen: prep'', ''gegenueber: prep'', ''gehen: v'',
      ''gehe: v'', ''gehirn: n'', ''gehoeren: v'', ''gehoert: v'', ''gehst: v'', ''geht: v'',
      ''geh: v'', ''geil: adj'', ''gelb: adj'', ''gelegentlich: adj'', ''gelten: v'',
      ''gemein: adj'', ''genau: adj'']"

definition pos_types_2 :: "string list" where
  "pos_types_2 =
    [
      ''genauso: adj'', ''german: adj'', ''gern: adj'', ''gerne: adj'', ''gesagt: v'',
      ''gefragt: v'', ''gesamt: adj'', ''gespielt: v'', ''gestern: adj'', ''gestorben: v'',
      ''gesund: adj'', ''gewaschen: v'', ''gewesen: v'', ''gilt: v'', ''gilt: v'', ''glatt: adj'',
      ''gleich: adj'', ''gottesdienst: n'', ''gratis: adj'', ''gro?: adj'', ''grob: adj'',
      ''gross: adj'', ''grosses: adj'', ''gruen: adj'', ''grundlegend: adj'', ''gst: n'',
      ''gut: adj'', ''gut: adj'', ''gute: adj'', ''gutem: adj'', ''guten: adj'', ''guter: adj'',
      ''gutes: adj'', ''haben: v'', ''habe: v'', ''hacker: n'', ''hackt: v'', ''haeltst: v'',
      ''haelt: v'', ''haetten: v'', ''haettest: v'', ''haette: v'', ''hager: adj'', ''halb: adj'',
      ''halben: adj'', ''hallo: n'', ''halten: v'', ''halte: v'', ''hand: n'', ''harsch: adj'',
      ''hart: adj'', ''hase: n'', ''hast: v'', ''has: v'', ''hattest: v'', ''hatte: v'', ''hat: v'',
      ''haeufig: adj'', ''haupt: adj'', ''hauptstadt: n'', ''hautfarbe: n'', ''hautfarben: n'',
      ''have: v'', ''hehr: adj'', ''hei?: adj'', ''heikel: adj'', ''heil: adj'', ''heiser: adj'',
      ''heise: v'', ''heissen: v'', ''heisser: adj'', ''heisse: v'', ''heisst: v'', ''heiter: adj'',
      ''helfen: v'', ''hell: adj'', ''her: adj'', ''herauf: prep'', ''herb: adj'', ''her: prep'',
      ''herunter: prep'', ''herz: n'', ''hessen: n'', ''heute: adj'', ''heutzutage: adj'',
      ''hier: adj'', ''hinab: prep'', ''hin: adj'', ''hin: prep'', ''hinunter: prep'',
      ''hinzu: prep'', ''hirn: n'', ''h: n'', ''hoch: adj'', ''hoechst: adj'', ''hoechste: adj'',
      ''hoechster: adj'', ''hoeren: v'', ''(hoh): adj'', ''hohl: adj'', ''hold: adj'',
      ''how: questionword'', ''huebsch: adj'', ''hundert: adj'', ''hunderte: adj'',
      ''hunderttausend: adj'', ''ich: n'', ''if: questionword'', ''ihr: art'', ''ihre: art'',
      ''ihrem: art'', ''ihren: art'', ''ihrer: art'', ''ihres: n'', ''immer: adj'', ''im: prep'',
      ''inka: n'', ''inkas: n'', ''innen: adj'', ''in: prep'', ''in: prep'', ''insoweit: adj'',
      ''intakt: adj'', ''intelligent: adj'', ''interessieren: v'', ''interessiere: v'',
      ''interessiere: v'', ''interessierst: v'', ''internet: n'', ''inzwischen: adj'', ''io: n'',
      ''ist-mit: v'', ''ist: v'', ''isunknown: v'', ''is: v'', ''jaeh: adj'', ''jahre: n'',
      ''jeck: adj'', ''jede: adj'', ''jedem: adj'', ''jeden: adj'', ''_jeden_tag_: adj'',
      ''jeder: adj'', ''jedes: adj'', ''jedoch: adj'', ''jedoch: questionword'', ''jetzt: adj'',
      ''jeweils: adj'', ''j: n'', ''jung: adj'', ''jungem: adj'', ''jungen: adj'', ''junger: adj'',
      ''junges: adj'', ''kahl: adj'', ''kalt: adj'', ''kalte: adj'', ''kannst: v'', ''kann: v'',
      ''kann: v'', ''kaputt: adj'', ''karg: adj'', ''kein: adj'', ''keine: adj'', ''keinem: adj'',
      ''keinen: adj'', ''keiner: adj'', ''keines: adj'', ''keinesfalls: adj'', ''keineswegs: adj'',
      ''kenne: v'', ''kennst: v'', ''kenn: v'', ''kess: adj'', ''keusch: adj'', ''kinder: n'',
      ''kindern: n'', ''klamm: adj'', ''klar: adj'', ''klein: adj'', ''kleinste: adj'',
      ''klug: adj'', ''knapp: adj'', ''komma: komma'', ''kompliziert: adj'', ''konservativ: adj'',
      ''konservativen: adj'', ''krank: adj'', ''krass: adj'', ''kraus: adj'', ''krude: adj'',
      ''krumm: adj'', ''kuehl: adj'', ''kuehn: adj'', ''kuenftig: adj'', ''kunst: n'',
      ''kurfuerst: n'', ''kurz: adj'', ''lahm: adj'', ''lang: adj'', ''lange: adj'', ''lasch: adj'',
      ''lassen: v'', ''lately: adj'', ''lau: adj'', ''laut: adj'', ''lauter: adj'',
      ''_laut_: prep'', ''lax: adj'', ''Leben: n'', ''leben: v'', ''lebe: v'', ''lebewesen: n'',
      ''leck: adj'', ''leer: adj'', ''leicht: adj'', ''leichte: adj'', ''leichtem: adj'',
      ''leichten: adj'', ''leichter: adj'', ''leichtes: adj'', ''leise: adj'', ''lernen: v'',
      ''letzt: adj'', ''licht: adj'', ''licht: n'', ''lieb: adj'', ''Liebe: n'', ''lieben: v'',
      ''liebe: v'', ''lieblingsessen: n'', ''liegen: v'', ''liege: v'', ''liegst: v'', ''liegt: v'',
      ''lind: adj'', ''link: adj'', ''linke: adj'', ''linkem: adj'', ''linken: adj'',
      ''linker: adj'', ''linkes: adj'', ''/: linking'', ''&: linking'', ''links: adj'',
      ''locker: adj'', ''loesung: n'', ''logic: adj'', ''_logic_: adj'', ''_(logic)_: adj'',
      ''Luege: n'', ''Luegen: n'', ''luegen: v'', ''luege: v'', ''lust: n'', ''machen: v'',
      ''mache: v'', ''Macht: n'', ''macht: v'', ''macht: v'', ''mager: adj'', ''magst: v'',
      ''mag: v'', ''mal: adj'', ''manchmal: adj'', ''man: n'', ''_maybe_: adj'', ''_(maybe)_: adj'',
      ''maiziere: n'', ''mehr: adj'', ''mehrals: prep'', ''mehrmals: adj'', ''mein: art'',
      ''meine: art'', ''meinem: art'', ''meinen: art'', ''meiner: art'', ''meins: n'',
      ''meintest: v'', ''meinte: v'', ''meint: v'', ''meinung: n'', ''meiste: adj'',
      ''meisten: adj'', ''merken: v'', ''mich: n'', ''mies: adj'', ''mild: adj'',
      ''milliarde: adj'', ''milliarden: adj'', ''million: adj'', ''millionen: adj'', ''mir: n'',
      ''mit: prep'', ''mit: prep'', ''mittels: prep'', ''mitten: prep'', ''mittlerweile: adj'',
      ''mitunter: adj'', ''mochten: v'', ''mochtest: v'', ''mochte: v'', ''moechten: v'',
      ''moechtest: v'', ''moechte: v'', ''moegen: v'', ''mond: n'', ''monoton: adj'',
      ''monotone: adj'', ''monotonem: adj'', ''monotonen: adj'', ''monotoner: adj'',
      ''monotones: adj'', ''morgen: adj'', ''morsch: adj'', ''m: questionword'', ''muede: adj'',
      ''muedem: adj'', ''mueden: adj'', ''mueder: adj'', ''muedes: adj'', ''muerbe: adj'',
      ''muessen: v'', ''muessten: v'', ''mund: n'', ''munter: adj'', ''musst: v'', ''muss: v'',
      ''must: v'', ''my: art'', ''nachdem: questionword'', ''nachher: adj'', ''nachnamen: n'',
      ''nach: prep'', ''nach: prep'', ''_nach_: prep'', ''nachts: adj'', ''nackt: adj'',
      ''nah: adj'', ''nahe: adj'', ''nahm: v'', ''name: n'', ''namen: n'', ''nass: adj'',
      ''natural: adj'', ''neben: prep'', ''neben: prep'', ''nehme: v'', ''nein: n'', ''Nein: n'',
      ''nen: adj'', ''nett: adj'', ''netzen: n'', ''neu: adj'', ''neue: adj'', ''neuem: adj'',
      ''neuen: adj'', ''neuer: adj'', ''neues: adj'', ''neulich: adj'', ''neun: adj'',
      ''neunte: adj'', ''neunzehn: adj'', ''neunzehnte: adj'', ''neunzig: adj'', ''never: adj'',
      ''nicht: adj'', ''nieder: adj'', ''niemand: n'', ''nil: n'', ''noch: adj'',
      ''no-question: qq'', ''_no-question_: qq'', ''normalerweise: adj'', ''not: adj'',
      ''$$notaswellas$$: adj'', ''nothing: n'', ''now: adj'', ''nst: adj'', ''nudeln: n'',
      ''nun: adj'', ''nur: adj'', ''nutte: n'', ''ob: questionword'', ''obschon: questionword'',
      ''oder: linking'', ''oede: adj'', ''offen: adj'', ''offenbar: adj'', ''offiziell: adj'',
      ''offline: adj'', ''of: prep'', ''oft: adj'', ''often: adj'', ''oftmals: adj'',
      ''ohne: prep'', ''online: adj'', ''on: prep'', ''opposite: v'', ''ordinaer: adj'',
      ''ordinaerer: adj'', ''or: linking'', ''our: art'', ''out: prep'', ''page: n'', ''pages: n'',
      ''papst: n'', ''Papst: n'', ''per: prep'', ''plump: adj'', ''Pokern: n'', ''pokern: v'',
      ''prall: adj'', ''programmfehler: n'', ''protest: n'', ''pulls: v'', ''pur: adj'',
      ''_q_: adj'', ''q=>: v'', ''rank: adj'', ''rar: adj'', ''rarely: adj'', ''rasch: adj'',
      ''rau: adj'', ''rauf: prep'', ''rauh: adj'', ''reasonof: v'', ''recently: adj'',
      ''rechnen: v'', ''recht: adj'', ''rechte: adj'', ''rechtem: adj'', ''rechten: adj'',
      ''rechter: adj'', ''rechtes: adj'', ''rechts: adj'', ''reden: v'', ''rege: adj'',
      ''regen: n'', ''reich: adj'', ''rein: adj'', ''reizen: v'', ''Riechen: v'', ''riechen: v'',
      ''roh: adj'', ''rot: adj'', ''r: questionword'', ''rueckwaerts: adj'', ''rund: adj'',
      ''sacht: adj'', ''saeugetier: n'', ''sagen: v'', ''sage: v'', ''sagst: v'', ''sanft: adj'',
      ''satt: adj'', ''sauber: adj'', ''sauer: adj'', ''scharf: adj'', ''schauen: v'',
      ''schaue: v'', ''schaust: v'', ''scheel: adj'', ''schenke: v'', ''schenkte: v'',
      ''schick: adj'', ''schief: adj'']"

definition pos_types_3 :: "string list" where
  "pos_types_3 =
    [
      ''schier: adj'', ''schimpfwort: n'', ''schlaff: adj'', ''schlank: adj'', ''schlapp: adj'',
      ''schlau: adj'', ''schlecht: adj'', ''schlimm: adj'', ''schmal: adj'', ''schmerzen: n'',
      ''schmuck: adj'', ''schnecke: n'', ''schnecken: n'', ''schneiden: v'', ''schneidet: v'',
      ''schnell: adj'', ''schneller: adj'', ''schnoede: adj'', ''schoen: adj'', ''schon: adj'',
      ''schraeg: adj'', ''schreiben: v'', ''schrill: adj'', ''schroff: adj'', ''schuechtern: adj'',
      ''schuetter: adj'', ''schwach: adj'', ''schwanger: adj'', ''schwarz: adj'', ''schwer: adj'',
      ''schwuel: adj'', ''schwul: adj'', ''sechs: adj'', ''sechste: adj'', ''sechzehn: adj'',
      ''sechzehnte: adj'', ''sechzig: adj'', ''sehen: v'', ''sehe: v'', ''sehr: adj'', ''seh: v'',
      ''seine: art'', ''seinem: art'', ''seinen: art'', ''seiner: art'', ''seins: n'', ''sein: v'',
      ''seitdem: adj'', ''seither: adj'', ''seit: prep'', ''selbe: adj'', ''selten: adj'',
      ''sen: adj'', ''setzen: v'', ''sicher: adj'', ''sich: n'', ''sieben: adj'', ''siebte: adj'',
      ''siebzehn: adj'', ''siebzehnte: adj'', ''siebzig: adj'', ''siehst: v'', ''sie: n'',
      ''simpel: adj'', ''simple: adj'', ''sind: v'', ''sobald: questionword'', ''sollen: v'',
      ''solle: v'', ''sollten: v'', ''sollte: v'', ''sollt: v'', ''soll: v'', ''sometimes: adj'',
      ''sondern: prep'', ''soon: adj'', ''soviel: adj'', ''soweit: questionword'', ''sowie: prep'',
      ''sowohl: prep'', ''spaet: adj'', ''spaeter: adj'', ''spd: n'', ''Speisen: n'', ''spiele: v'',
      ''speisen: v'', ''spielen: v'', ''spielst: v'', ''spielt: v'', ''spitz: adj'',
      ''sprechen: v'', ''spreche: v'', ''spricht: v'', ''sproede: adj'', ''stand: v'',
      ''stark: adj'', ''starr: adj'', ''statt: prep'', ''ste: adj'', ''stehen: v'', ''stehst: v'',
      ''steht: v'', ''steif: adj'', ''steil: adj'', ''stem: adj'', ''sten: adj'', ''ster: adj'',
      ''sterben: v'', ''sterbe: v'', ''stes: adj'', ''stet: adj'', ''stets: adj'', ''stifte: n'',
      ''stiften: n'', ''stiftet: v'', ''stift: n'', ''still: adj'', ''stirbt: v'', ''stmals: adj'',
      ''stolz: adj'', ''streng: adj'', ''studiert: v'', ''stumm: adj'', ''stumpf: adj'',
      ''stur: adj'', ''suche: v'', ''suchst: v'', ''sue?: adj'', ''tag: n'', ''takt: adj'',
      ''tal: n'', ''tapfer: adj'', ''taub: adj'', ''tauchen: v'', ''tauche: v'', ''tauchst: v'',
      ''taucht: v'', ''tausend: adj'', ''tausende: adj'', ''teils: prep'', ''telligent: adj'',
      ''ten: prep'', ''teressieren: v'', ''teressiere: v'', ''teressierst: v'', ''testen: v'',
      ''test: n'', ''teuer: adj'', ''that: art'', ''the: art'', ''their: art'', ''this: art'',
      ''tief: adj'', ''time: n'', ''$$time$$: n'', ''tiere: n'', ''tlerweile: adj'', ''today: adj'',
      ''tod: n'', ''toll: adj'', ''tomorrow: adj'', ''to: prep'', ''_to_: questionword'',
      ''tot: adj'', ''traege: adj'', ''trage: v'', ''tree: n'', ''trees: n'', ''treu: adj'',
      ''trinken: v'', ''trocken: adj'', ''tuckernde: adj'', ''_true_: adj'', ''_(true)_: adj'',
      ''trueb: adj'', ''ts: adj'', ''tumb: adj'', ''tun: v'', ''uebermorgen: adj'', ''uebel: adj'',
      ''ueben: v'', ''ueberhaupt: adj'', ''uebernahm: v'', ''ueber: prep'', ''ueber: prep'',
      ''uebe: v'', ''uebst: v'', ''uebt: v'', ''uhr: n'', ''um: prep'', ''um: prep'',
      ''und: linking'', ''unerlaubt: adj'', ''unerlaubte: adj'', ''unerlaubtem: adj'',
      ''unerlaubten: adj'', ''unerlaubter: adj'', ''unerlaubtes: adj'', ''ungefaehr: adj'',
      ''universitaet: n'', ''unreif: adj'', ''unreife: adj'', ''unreifem: adj'', ''unreifen: adj'',
      ''unreifer: adj'', ''unreifes: adj'', ''unsere: art'', ''unserem: art'', ''unseren: art'',
      ''unseres: art'', ''uns: n'', ''unterhalten: v'', ''unter: prep'', ''unter: prep'',
      ''untertauchen: v'', ''untertauche: v'', ''untertauchst: v'', ''untertaucht: v'',
      ''unterwegs: adj'', ''unterwelt: n'', ''us-amerikanisch: adj'', ''us-amerikanische: adj'',
      ''us-amerikanischem: adj'', ''us-amerikanischen: adj'', ''us-amerikanischer: adj'',
      ''us-amerikanisches: adj'', ''usually: adj'', ''~~~: v'', ''~: v'', ''==: v'', ''=>: v'',
      ''=: v'', ''is-a: v'', ''is-part: v'', ''is-property: v'', ''is-own: v'', ''=: v'',
      ''>>>: v'', ''->: v'', ''!=>: v'', ''?=>: v'', '':: n'', ''vereinigten: adj'',
      ''verfuegbar: adj'', ''verliebt: v'', ''verwendet: v'', ''verwirrt: adj'', ''viel: adj'',
      ''viele: adj'', ''vielen: adj'', ''vieler: adj'', ''vieles: adj'', ''vielleicht: adj'',
      ''vier: adj'', ''vierte: adj'', ''vierzehn: adj'', ''vierzehnte: adj'', ''vierzig: adj'',
      ''voll: adj'', ''volle: adj'', ''von: prep'', ''vorerst: adj'', ''vorher: adj'',
      ''vorhin: adj'', ''vornamen: n'', ''vor: prep'', ''vor: prep'', ''vorwaerts: adj'',
      ''wach: adj'', ''wacker: adj'', ''waehrend: questionword'', ''waerest: v'', ''waere: v'',
      ''waerst: v'', ''waerts: adj'', ''wahr: adj'', ''wann: questionword'', ''waren: v'',
      ''warm: adj'', ''warum: questionword'', ''war: v'', ''waschen: v'', ''was: questionword'',
      ''weder: prep'', ''wegen: prep'', ''weg: prep'', ''wegs: adj'', ''weh: adj'', ''weich: adj'',
      ''weilen: adj'', ''weil: questionword'', ''weise: adj'', ''Weiss: n'', ''weiss: adj'',
      ''weisswurst: n'', ''weinen: v'', ''weit: adj'', ''weitgehend: adj'',
      ''welchem: questionword'', ''welchen: questionword'', ''welche: questionword'',
      ''welcher: questionword'', ''welches: questionword'', ''welch: questionword'', ''welk: adj'',
      ''welsch: adj'', ''welt: n'', ''weltweit: adj'', ''wem: questionword'', ''wenig: adj'',
      ''wenigerals: prep'', ''wenn: questionword'', ''wen: questionword'', ''werden: v'',
      ''werde: v'', ''wer: questionword'', ''wert: adj'', ''wesen: n'', ''weshalb: questionword'',
      ''west: adj'', ''what: questionword'', ''what-nowiki: questionword'', ''when: questionword'',
      ''where: questionword'', ''whether: questionword'', ''which: questionword'',
      ''who: questionword'', ''why: questionword'', ''wichtig: adj'', ''wichtige: adj'',
      ''wichtigem: adj'', ''wichtigen: adj'', ''wichtiger: adj'', ''wichtiges: adj'', ''wien: n'',
      ''wie: questionword'', ''wieso: questionword'', ''wild: adj'', ''willst: v'', ''will: v'',
      ''wird: v'', ''wir: n'', ''wirr: adj'', ''wirst: v'', ''Wissen: n'', ''wissen: v'',
      ''woanders: adj'', ''woher: questionword'', ''wohingegen: questionword'',
      ''wohin: questionword'', ''wohl: adj'', ''wohne: v'', ''wohnst: v'', ''wohnt: v'',
      ''wollen: v'', ''wolltest: v'', ''wollte: v'', ''wollten: v'', ''wo: questionword'',
      ''woran: questionword'', ''worauf: questionword'', ''wort: n'', ''worum: questionword'',
      ''Wuerde: n'', ''wuerden: v'', ''wuerdest: v'', ''wuerde: v'', ''wuest: adj'', ''wund: adj'',
      ''wurden: v'', ''wurdest: v'', ''wurde: v'', ''wurst: n'', ''xxtoxx: questionword'',
      ''XXtoXX: questionword'', ''yesterday: adj'', ''your: art'', ''zaeh: adj'', ''zahm: adj'',
      ''zart: adj'', ''zehn: adj'', ''zehntausend: adj'', ''zehnte: adj'', ''zeichen: n'',
      ''zeitlebens: adj'', ''zer: prep'', ''zier: n'', ''zone: n'', ''zonen: n'',
      ''zufrieden: adj'', ''zugleich: adj'', ''zuletzt: adj'', ''zum: adj'', ''zum: questionword'',
      ''zunaechst: adj'', ''zu: prep'', ''zur: questionword'', ''zurueck: prep'', ''zusammen: adj'',
      ''zusammen: prep'', ''zuweilen: adj'', ''zwanzig: adj'', ''zwanzigste: adj'', ''zwei: adj'',
      ''zweimal: adj'', ''zweite: adj'', ''zweelement: adj'', ''zweiten: adj'', ''zweiter: adj'',
      ''zweites: adj'', ''zwischen: prep'', ''zwischen: prep'', ''zwoelf: adj'', ''zwoelfte: adj'',
      []]"

definition builtin_pos_types :: "string list" where
  "builtin_pos_types = pos_types_1 @ pos_types_2 @ pos_types_3"

end
