(* ===== verification/Tagger2012.thy ===== *)
theory Tagger2012
  imports TaggerTables "HOL-Library.Signed_Division"
begin

text \<open>
  \<^verbatim>\<open>hal2012-tagger2012.cpp\<close>: the dictionaries of parts of speech and genders, the files they are
  read from, the cascade of lookups of a word, guessing by word endings, and the change of a verb
  between first and second person. \<^verbatim>\<open>get_article\<close> and \<^verbatim>\<open>get_verb\<close> are in
  \<^verbatim>\<open>hal2012-tagger2012-builtin.cpp\<close>.

  Parameters: \<open>r\<close> is the expression engine, \<open>ord\<close> the order in which a hashed container is visited,
  \<open>config\<close> the configuration value that \<^verbatim>\<open>check_config\<close> returns, and \<open>ask\<close> the operation
  \<^verbatim>\<open>ask_user\<close>, which every program that links the tagger defines for itself.
\<close>

section \<open>Tags\<close>

type_synonym tags = "string \<times> string"

definition is_empty :: "tags \<Rightarrow> bool" where
  "is_empty t = (fst t = [] \<and> snd t = [])"

definition print_tags :: "tags \<Rightarrow> string" where
  "print_tags t = ''type='' @ fst t @ (if snd t = [] then [] else '',genus='' @ snd t)"

definition print_tags_vector :: "tags list \<Rightarrow> string" where
  "print_tags_vector v = ''['' @ join '', '' (map (\<lambda>t. ''('' @ print_tags t @ '')'') v) @ '']''"

definition unique_pos_type :: "string \<Rightarrow> string" where
  "unique_pos_type t =
    (if t = ''komma'' then ''komma''
     else if t = ''vi'' \<or> t = ''vt'' \<or> t = ''ci'' then ''v''
     else if starts_with t ''a'' \<and> t \<noteq> ''art'' then ''adj''
     else if t = ''n'' \<or> t = ''f'' \<or> t = ''m'' \<or> starts_with t ''n,'' \<or> t = ''pron'' \<or> t = ''b'' then ''n''
     else if t = ''fw'' \<or> starts_with t ''ques'' then ''questionword''
     else t)"

section \<open>State\<close>

text \<open>\<open>tg_written\<close> holds what was appended to files, in order: the name of the file and the text.\<close>

record tagger = freehal_base +
  tg_type :: "string hmap"
  tg_genus :: "string hmap"
  regex_type :: "(string \<times> string) list"
  regex_genus :: "string hmap"
  togglemap :: "string hmap"
  custom_names :: "string list"
  tg_written :: "(string \<times> string) list"

definition builtin_entity_ends :: "string list" where
  "builtin_entity_ends = split (is_any_of '';'') entity_ends_text"

definition builtin_male_names :: "string list" where
  "builtin_male_names = split (is_any_of '';'') male_names_text"

definition builtin_female_names :: "string list" where
  "builtin_female_names = split (is_any_of '';'') female_names_text"

text \<open>The loop over the built-in parts of speech ends at the first empty element.\<close>

fun add_builtin :: "string list \<Rightarrow> string hmap \<Rightarrow> string hmap" where
  "add_builtin [] m = m"
| "add_builtin (e # es) m =
    (if e = [] then m
     else add_builtin es
       (case split_compress (\<lambda>c. c = CHR '':'' \<or> is_space c) e of
          [word, pos] \<Rightarrow> um_insert word (unique_pos_type pos) m
        | _ \<Rightarrow> m))"

definition tagger_new :: tagger where
  "tagger_new =
    \<lparr>verbose = True, buffered = False, lang = [], path = [],
     tg_type = add_builtin builtin_pos_types [], tg_genus = [], regex_type = [], regex_genus = [],
     togglemap = [], custom_names = [], tg_written = []\<rparr>"

section \<open>Files\<close>

text \<open>\<^verbatim>\<open>write_to_file\<close> when the file can be opened.\<close>

definition write_to_file :: "string \<Rightarrow> string \<Rightarrow> tags \<Rightarrow> tagger \<Rightarrow> tagger" where
  "write_to_file filename word t g =
    g\<lparr>tg_written := tg_written g @
      [(path_append (get_language_directory g) filename,
        word @ '':'' @ [newline]
        @ (if fst t \<noteq> [] then ''  type: '' @ fst t @ [newline] else [])
        @ (if snd t \<noteq> [] then ''  genus: '' @ snd t @ [newline] else []))]\<rparr>"

definition colon_space :: "char \<Rightarrow> bool" where
  "colon_space c \<longleftrightarrow> c = CHR '':'' \<or> is_space c"

definition punct_space :: "char \<Rightarrow> bool" where
  "punct_space c \<longleftrightarrow> is_any_of '':,;'' c \<or> is_space c"

text \<open>What a line of a part-of-speech file says.\<close>

datatype pos_line = Header string | Type_is string | Genus_is string | Other

definition read_pos_line :: "string \<Rightarrow> pos_line" where
  "read_pos_line line0 =
    (let line = trim_right_if is_space line0 in
     if ends_with line '':'' then Header (trim_if colon_space line)
     else if starts_with line '' '' then
       (let l = trim_if punct_space line in
        if starts_with l ''type'' then Type_is (unique_pos_type (trim_left_if colon_space (drop 4 l)))
        else if starts_with l ''genus'' then Genus_is (trim_left_if colon_space (drop 5 l))
        else Other)
     else Other)"

definition pos_file_step :: "string \<Rightarrow> string \<times> tagger \<Rightarrow> string \<times> tagger" where
  "pos_file_step line st =
    (let (word, g) = st in
     case read_pos_line line of
       Header w \<Rightarrow> (w, g)
     | Type_is t \<Rightarrow> (word, g\<lparr>tg_type := um_insert word t (tg_type g)\<rparr>)
     | Genus_is t \<Rightarrow> (word, g\<lparr>tg_genus := um_insert word t (tg_genus g)\<rparr>)
     | Other \<Rightarrow> (word, g))"

definition read_pos_file :: "string option \<Rightarrow> tagger \<Rightarrow> nat \<times> tagger" where
  "read_pos_file file g =
    (case file of None \<Rightarrow> (1, g)
     | Some s \<Rightarrow> (0, snd (fold pos_file_step (split_lines s) ([], g))))"

definition regex_pos_file_step :: "string \<Rightarrow> string \<times> tagger \<Rightarrow> string \<times> tagger" where
  "regex_pos_file_step line st =
    (let (word, g) = st in
     case read_pos_line line of
       Header w \<Rightarrow> (w, g)
     | Type_is t \<Rightarrow> (word, g\<lparr>regex_type := regex_type g @ [(word, t)]\<rparr>)
     | Genus_is t \<Rightarrow> (word, g\<lparr>regex_genus := um_insert word t (regex_genus g)\<rparr>)
     | Other \<Rightarrow> (word, g))"

definition read_regex_pos_file :: "string option \<Rightarrow> tagger \<Rightarrow> nat \<times> tagger" where
  "read_regex_pos_file file g =
    (case file of None \<Rightarrow> (1, g)
     | Some s \<Rightarrow> (0, snd (fold regex_pos_file_step (split_lines s) ([], g))))"

definition verbs_line :: "string \<Rightarrow> string hmap \<Rightarrow> string hmap" where
  "verbs_line line m =
    (case split_compress (is_any_of '','') (trim line) of
       a # b # _ \<Rightarrow> um_insert b a (um_insert a b m)
     | _ \<Rightarrow> m)"

definition read_verbs_file :: "string option \<Rightarrow> tagger \<Rightarrow> nat \<times> tagger" where
  "read_verbs_file file g =
    (if togglemap g \<noteq> [] then (1, g)
     else (case file of None \<Rightarrow> (1, g)
       | Some s \<Rightarrow>
           (let m = fold verbs_line (split_lines s) (togglemap g)
            in (if m \<noteq> [] then 0 else 1, g\<lparr>togglemap := m\<rparr>))))"


section \<open>Names and grammar symbols\<close>

definition is_job :: "rx \<Rightarrow> string \<Rightarrow> bool" where
  "is_job r name =
    regex_find r name
      ''(soehne|shne|toechter|tchter|gebrueder|brueder)|(^bundes)|(minister)|(meister$)|(ger$)''"

definition is_name :: "rx \<Rightarrow> string list \<Rightarrow> string \<Rightarrow> bool" where
  "is_name r custom name0 =
    (let name = lc name0 in
     if name \<in> set builtin_entity_ends then False
     else if name \<in> set builtin_male_names then True
     else if name \<in> set builtin_female_names then True
     else if name \<in> set custom then True
     else is_job r name)"

definition to_grammar_pos :: "rx \<Rightarrow> string list \<Rightarrow> tags \<Rightarrow> string \<Rightarrow> string" where
  "to_grammar_pos r custom t word =
    (if fst t = ''komma'' then ''d-komma''
     else if fst t = ''v'' then ''d-verb''
     else if fst t = ''art'' then ''d-article''
     else if fst t = ''adj'' then ''d-adjective''
     else if fst t = ''prep'' then ''d-preposition''
     else if fst t = ''questionword'' then ''d-questionword''
     else if fst t = ''linking'' then ''d-linking''
     else if fst t = ''n'' then (if is_name r custom word then ''d-title'' else ''d-noun'')
     else ''q'')"

section \<open>Guessing\<close>

text \<open>An \<^verbatim>\<open>int\<close> computation that wraps at 32 bits, as the target does.\<close>

definition wrap32 :: "int \<Rightarrow> int" where
  "wrap32 i = (i + 2147483648) mod 4294967296 - 2147483648"

definition guess_ends :: "string \<Rightarrow> (string \<times> int) list" where
  "guess_ends word =
    (let n = length word in
     map (\<lambda>(k, v). (drop (n - k) word, v))
       (filter (\<lambda>(k, v). k < n) [(1, 2), (2, 6), (3, 12), (4, 8), (5, 10), (6, 12)]))"

definition guess_begins :: "string \<Rightarrow> (string \<times> int) list" where
  "guess_begins word =
    map (\<lambda>(k, v). (take k word, v)) (filter (\<lambda>(k, v). k < length word) [(1, 1), (2, 2), (3, 3)])"

text \<open>\<open>ratings\<close>: the maps \<^verbatim>\<open>pos_to_rating\<close> and \<^verbatim>\<open>pos_to_count\<close>, which get their entries
  together.\<close>

type_synonym ratings = "(int \<times> int) hmap"

definition rate :: "string \<Rightarrow> int \<Rightarrow> ratings \<Rightarrow> ratings" where
  "rate pos v m =
    (case um_find m pos of
       None \<Rightarrow> um_set pos (wrap32 v, 1) m
     | Some (rating, cnt) \<Rightarrow> um_set pos (wrap32 (rating + v), wrap32 (cnt + 1)) m)"

definition rate_word :: "string \<Rightarrow> string \<times> string \<Rightarrow> ratings \<Rightarrow> ratings" where
  "rate_word word entry m =
    (let (val_word, val_type) = entry in
     if val_type \<noteq> ''n'' \<and> val_type \<noteq> ''adj'' \<and> val_type \<noteq> ''v'' then m
     else if (is_lower word \<and> \<not> is_lower val_word) \<or> (\<not> is_lower word \<and> is_lower val_word) then m
     else
       fold (\<lambda>(b, v) m. if starts_with val_word b then rate val_type v m else m) (guess_begins word)
         (fold (\<lambda>(e, v) m. if ends_with val_word e then rate val_type v m else m) (guess_ends word) m))"

definition guess_score :: "int \<Rightarrow> int \<Rightarrow> int" where
  "guess_score rating cnt = wrap32 (100 * wrap32 (rating * rating)) sdiv cnt"

definition best_rating :: "string \<times> int \<times> int \<Rightarrow> string \<times> int \<Rightarrow> string \<times> int" where
  "best_rating e best =
    (let (pos, rating, cnt) = e; (best_pos, best_score) = best; score = guess_score rating cnt
     in if best_score < score \<or> best_score = 0 then (pos, score) else best)"

definition impl_guess :: "hash_order \<Rightarrow> string \<Rightarrow> tags \<Rightarrow> tagger \<Rightarrow> tags \<times> tagger" where
  "impl_guess ord word t g =
    (let ratings = fold (rate_word word) (iterate ord (tg_type g)) [];
         best = fst (fold best_rating (iterate ord ratings) ([], 0));
         t1 = (best, snd t)
     in (t1, write_to_file ''guessed.pos'' word t1 (g\<lparr>tg_type := um_insert word best (tg_type g)\<rparr>)))"

definition guess :: "hash_order \<Rightarrow> string \<Rightarrow> string \<Rightarrow> tags \<Rightarrow> tagger \<Rightarrow> tags \<times> tagger" where
  "guess ord config word t g =
    (if str_contains config ''1'' then impl_guess ord word t g else (t, g))"

section \<open>Looking up a word\<close>

definition impl_get_pos :: "tagger \<Rightarrow> string \<Rightarrow> tags \<Rightarrow> tags" where
  "impl_get_pos g word t =
    (case um_find (tg_type g) word of
       None \<Rightarrow> t
     | Some ty \<Rightarrow>
         (ty, if ty = ''n'' then (case um_find (tg_genus g) word of Some ge \<Rightarrow> ge | None \<Rightarrow> snd t)
              else snd t))"

fun impl_regex_get_pos :: "rx \<Rightarrow> (string \<times> string) list \<Rightarrow> string hmap \<Rightarrow> string \<Rightarrow> tags \<Rightarrow> rx_error + tags" where
  "impl_regex_get_pos r [] genus word t = Inr t"
| "impl_regex_get_pos r ((exp, value) # es) genus word t =
    (case regex_ifind_m r word exp of
       Inl err \<Rightarrow> Inl err
     | Inr None \<Rightarrow> impl_regex_get_pos r es genus word t
     | Inr (Some caps) \<Rightarrow>
         Inr (value, if value = ''n'' then (case um_find genus exp of Some ge \<Rightarrow> ge | None \<Rightarrow> snd t)
                     else snd t))"

definition capture :: "nat \<Rightarrow> string list \<Rightarrow> string" where
  "capture n caps = (if n < length caps then caps ! n else [])"

definition builtin_pos :: "rx \<Rightarrow> string \<Rightarrow> tags \<Rightarrow> rx_error + tags" where
  "builtin_pos r word t =
    (let t1 = (if word = '','' \<or> word = '';'' then (''komma'', snd t) else t) in
     case regex_ifind_m r word ''[{]{3}(.*?)[}]{3}'' of
       Inl err \<Rightarrow> Inl err
     | Inr None \<Rightarrow> Inr t1
     | Inr (Some caps) \<Rightarrow> Inr (capture 1 caps, snd t1))"

definition upper_pos :: "rx \<Rightarrow> string \<Rightarrow> tags \<Rightarrow> rx_error + tags" where
  "upper_pos r word t =
    (case regex_find_m r word ''[ABCDEFGHIJKLMNOPQRSTUVWXYZ]'' of
       Inl err \<Rightarrow> Inl err
     | Inr None \<Rightarrow> Inr t
     | Inr (Some caps) \<Rightarrow> Inr (''n'', snd t))"

text \<open>The lookups before guessing: exact, capitalised and lower-case spelling, built-in rules, names,
  expressions, capital letters. Each is tried only while the tags are empty.\<close>

definition known_pos :: "rx \<Rightarrow> string \<Rightarrow> tagger \<Rightarrow> rx_error + tags" where
  "known_pos r word g =
    (let t1 = impl_get_pos g word ([], []);
         t2 = (if is_empty t1 then impl_get_pos g (ucfirst word) t1 else t1);
         t3 = (if is_empty t2 then impl_get_pos g (lc word) t2 else t2)
     in case (if is_empty t3 then builtin_pos r word t3 else Inr t3) of
          Inl err \<Rightarrow> Inl err
        | Inr t4 \<Rightarrow>
            (let t5 = (if is_empty t4 \<and> is_name r (custom_names g) word then (''n'', snd t4) else t4)
             in case (if is_empty t5 then impl_regex_get_pos r (regex_type g) (regex_genus g) word t5
                      else Inr t5) of
                  Inl err \<Rightarrow> Inl err
                | Inr t6 \<Rightarrow> if is_empty t6 then upper_pos r word t6 else Inr t6))"

definition get_pos ::
  "rx \<Rightarrow> hash_order \<Rightarrow> string \<Rightarrow> (string \<Rightarrow> tags \<Rightarrow> tags) \<Rightarrow> string \<Rightarrow> tagger \<Rightarrow> rx_error + (tags \<times> tagger)"
where
  "get_pos r ord config ask word0 g =
    (let word = to_ascii word0 in
     if word = [] then Inr (([], []), g)
     else
       (case known_pos r word g of
          Inl err \<Rightarrow> Inl err
        | Inr t7 \<Rightarrow>
            (let (t8, g1) = (if is_empty t7 then guess ord config word t7 g else (t7, g))
             in Inr (if is_empty t8 then ask word t8 else t8, g1))))"

section \<open>Verb forms\<close>

definition toggle_rules :: "(string \<times> string) list" where
  "toggle_rules =
    [(''([gdm])elst$'', CHR 0x5C # ''1le''), (''([gdm])le$'', CHR 0x5C # ''1elst''),
     (''te$'', ''test''), (''test$'', ''te''), (''sst$'', ''sse''), (''est$'', ''e''), (''st$'', ''e''),
     (''[td]e$'', CHR 0x5C # ''1est''), (''e$'', ''st''), (''sss'', ''ss'')]"

definition toggle_word :: "rx \<Rightarrow> string \<Rightarrow> string" where
  "toggle_word r word =
    fold (\<lambda>(exp, repl) w. if w = word then regex_replace r w exp repl else w) toggle_rules word"

definition toggle ::
  "rx \<Rightarrow> hash_order \<Rightarrow> string \<Rightarrow> (string \<Rightarrow> tags \<Rightarrow> tags) \<Rightarrow> string \<Rightarrow> tagger
    \<Rightarrow> rx_error + (nat \<times> string \<times> tagger)"
where
  "toggle r ord config ask word g =
    (case um_find (togglemap g) word of
       Some w \<Rightarrow> Inr (0, w, g)
     | None \<Rightarrow>
         (case get_pos r ord config ask word g of
            Inl err \<Rightarrow> Inl err
          | Inr (t, g1) \<Rightarrow>
              if fst t \<noteq> ''v'' then Inr (1, word, g1)
              else (let w = toggle_word r word in Inr (if w \<noteq> word then 0 else 1, w, g1))))"

definition get_article :: "string \<Rightarrow> string \<Rightarrow> string \<Rightarrow> string" where
  "get_article article genus part_of_sentence =
    (if article = ''(the)'' \<and> part_of_sentence = ''object'' then
       (if genus = ''m'' then ''den'' else if genus = ''f'' then ''die'' else ''das'')
     else if article = ''(the)'' \<and> part_of_sentence = ''subject'' then
       (if genus = ''m'' then ''der'' else if genus = ''f'' then ''die'' else ''das'')
     else if article = ''(a)'' \<and> part_of_sentence = ''object'' then
       (if genus = ''m'' then ''einen'' else if genus = ''f'' then ''eine'' else ''ein'')
     else if article = ''(a)'' \<and> part_of_sentence = ''subject'' then
       (if genus = ''m'' then ''ein'' else if genus = ''f'' then ''eine'' else ''ein'')
     else article)"

text \<open>The forms of \<^verbatim>\<open>get_verb\<close>, in the order first to third person, singular then plural.\<close>

definition verb_forms_1 :: "(string \<times> string list) list" where
  "verb_forms_1 =
    [(''be'', [''bin'', ''bist'', ''ist'', ''sind'', ''seid'', ''sind'']),
     (''have'', [''habe'', ''hast'', ''hat'', ''haben'', ''habt'', ''haben'']),
     (''want'', [''will'', ''willst'', ''will'', ''wollen'', ''wollt'', ''wollen'']),
     (''must'', [''muss'', ''musst'', ''muss'', ''muessen'', ''muesst'', ''muessen'']),
     (''can'', [''kann'', ''kannst'', ''kann'', ''koennen'', ''koennt'', ''koennen'']),
     (''may'', [''darf'', ''darfst'', ''darf'', ''duerfen'', ''duerft'', ''duerfen''])]"

definition verb_forms_2 :: "(string \<times> string list) list" where
  "verb_forms_2 =
    [(''should'', [''sollte'', ''solltest'', ''sollte'', ''sollten'', ''solltet'', ''sollten'']),
     (''is-a'', [''bin'', ''bist'', ''ist'', ''sind'', ''seid'', ''sind'']),
     (''is-same-as'', [''entspricht'', ''entsprichst'', ''entspricht'', ''entsprechen'', ''entsprecht'', ''entsprechen'']),
     (''is-part-0'', [''gehoere zu'', ''gehoerst zu'', ''gehoert zu'', ''gehoeren zu'', ''gehoert zu'', ''gehoeren zu'']),
     (''is-part-1'', [''bin ein Teil von'', ''bist ein Teil von'', ''ist ein Teil von'', ''sind ein Teil von'', ''seid ein Teil von'', ''sind ein Teil von'']),
     (''is-own-'', [''gehoere'', ''gehoerst'', ''gehoert'', ''gehoeren'', ''gehoert'', ''gehoeren''])]"

definition persons :: "string list" where
  "persons = [''1s'', ''2s'', ''3s'', ''1p'', ''2p'', ''3p'']"

definition get_verb :: "string \<Rightarrow> string \<Rightarrow> string" where
  "get_verb verb person =
    (case map_of (verb_forms_1 @ verb_forms_2) verb of
       None \<Rightarrow> verb
     | Some forms \<Rightarrow> (case map_of (zip persons forms) person of Some f \<Rightarrow> f | None \<Rightarrow> verb))"


section \<open>Lemmas: files and dictionaries\<close>

text \<open>The entries of a file of one kind, in order, each with the last header before it.\<close>

fun file_entries :: "(pos_line \<Rightarrow> string option) \<Rightarrow> string \<Rightarrow> string list \<Rightarrow> (string \<times> string) list" where
  "file_entries sel word [] = []"
| "file_entries sel word (l # ls) =
    (case read_pos_line l of
       Header w \<Rightarrow> file_entries sel w ls
     | p \<Rightarrow> (case sel p of Some t \<Rightarrow> (word, t) # file_entries sel word ls | None \<Rightarrow> file_entries sel word ls))"

definition type_entry :: "pos_line \<Rightarrow> string option" where
  "type_entry p = (case p of Type_is t \<Rightarrow> Some t | _ \<Rightarrow> None)"

definition genus_entry :: "pos_line \<Rightarrow> string option" where
  "genus_entry p = (case p of Genus_is t \<Rightarrow> Some t | _ \<Rightarrow> None)"

lemma fold_pos_file:
  "tg_type (snd (fold pos_file_step ls (w, g))) =
     fold (\<lambda>(k, v). um_insert k v) (file_entries type_entry w ls) (tg_type g)
   \<and> tg_genus (snd (fold pos_file_step ls (w, g))) =
     fold (\<lambda>(k, v). um_insert k v) (file_entries genus_entry w ls) (tg_genus g)"
  by (induction ls arbitrary: w g)
    (auto simp: pos_file_step_def type_entry_def genus_entry_def split: pos_line.splits)

lemma unique_pos_type_idem [simp]: "unique_pos_type (unique_pos_type t) = unique_pos_type t"
  by (simp add: unique_pos_type_def)

definition types_ok :: "tagger \<Rightarrow> bool" where
  "types_ok g \<longleftrightarrow> (\<forall>e \<in> set (tg_type g). unique_pos_type (snd e) = snd e)"

lemma types_ok_insert:
  "\<forall>e \<in> set m. unique_pos_type (snd e) = snd e \<Longrightarrow> unique_pos_type v = v \<Longrightarrow>
    \<forall>e \<in> set (um_insert k v m). unique_pos_type (snd e) = snd e"
  using set_um_insert [of k v m] by auto

lemma types_ok_builtin:
  "\<forall>e \<in> set m. unique_pos_type (snd e) = snd e \<Longrightarrow>
    \<forall>e \<in> set (add_builtin es m). unique_pos_type (snd e) = snd e"
proof (induction es arbitrary: m)
  case Nil
  then show ?case by simp
next
  case (Cons e es)
  have "\<forall>e \<in> set (case split_compress (\<lambda>c. c = CHR '':'' \<or> is_space c) e of
      [word, pos] \<Rightarrow> um_insert word (unique_pos_type pos) m | _ \<Rightarrow> m). unique_pos_type (snd e) = snd e"
    using Cons.prems types_ok_insert [OF Cons.prems unique_pos_type_idem]
    by (simp split: list.split)
  from Cons.IH [OF this] Cons.prems show ?case by simp
qed

lemma types_ok_new: "types_ok tagger_new"
  unfolding types_ok_def tagger_new_def using types_ok_builtin [of "[]"] by simp

lemma types_ok_pos_step: "types_ok (snd st) \<Longrightarrow> types_ok (snd (pos_file_step l st))"
proof -
  assume ok: "types_ok (snd st)"
  obtain w g where st: "st = (w, g)" by (cases st)
  have "unique_pos_type t = t" if "read_pos_line l = Type_is t" for t
    using that by (auto simp: read_pos_line_def Let_def split: if_splits)
  then show ?thesis
    using ok types_ok_insert [of "tg_type g" _ w]
    by (auto simp: pos_file_step_def st types_ok_def split: pos_line.split)
qed

lemma types_ok_pos_file: "types_ok g \<Longrightarrow> types_ok (snd (read_pos_file file g))"
proof -
  have "types_ok (snd st) \<Longrightarrow> types_ok (snd (fold pos_file_step ls st))" for st ls
    by (rule fold_invariant [where P = "\<lambda>st. types_ok (snd st)", OF types_ok_pos_step])
  then show "types_ok g \<Longrightarrow> ?thesis" by (simp add: read_pos_file_def split: option.split)
qed

lemma regex_pos_step_type: "tg_type (snd (regex_pos_file_step l st)) = tg_type (snd st)"
  by (cases st) (simp add: regex_pos_file_step_def split: pos_line.split)

lemma regex_pos_file_type: "tg_type (snd (read_regex_pos_file file g)) = tg_type g"
proof -
  have "tg_type (snd (fold regex_pos_file_step ls st)) = tg_type (snd st)" for st ls
    by (induction ls arbitrary: st) (auto simp: regex_pos_step_type)
  then show ?thesis by (simp add: read_regex_pos_file_def split: option.split)
qed

lemma verbs_file_type: "tg_type (snd (read_verbs_file file g)) = tg_type g"
  by (simp add: read_verbs_file_def Let_def split: option.split)

section \<open>Lemmas: guessing\<close>

definition guessable :: "string list" where
  "guessable = [''n'', ''adj'', ''v'']"

lemma guessable_unique: "\<forall>t \<in> set ([] # guessable). unique_pos_type t = t"
proof -
  have "list_all (\<lambda>t. unique_pos_type t = t) ([] # guessable)" by code_simp
  then show ?thesis by (simp only: list_all_iff)
qed

lemma rate_keys: "fst ` set (rate pos v m) \<subseteq> insert pos (fst ` set m)"
  using keys_um_set [of pos _ m] by (auto simp: rate_def split: option.split)

lemma fold_rate_keys:
  fixes m :: ratings
  assumes "pos \<in> set guessable" "fst ` set m \<subseteq> set guessable"
  shows "fst ` set (fold (\<lambda>(b, v) m. if q b then rate pos v m else m) bs m) \<subseteq> set guessable"
proof (rule fold_invariant [where P = "\<lambda>m. fst ` set m \<subseteq> set guessable", OF _ assms(2)])
  fix x and m :: ratings
  assume "fst ` set m \<subseteq> set guessable"
  then show "fst ` set ((case x of (b, v) \<Rightarrow> \<lambda>m. if q b then rate pos v m else m) m) \<subseteq> set guessable"
    using rate_keys [of pos "snd x" m] assms(1)
    by (cases x) (simp split: if_split, blast)
qed

lemma rate_word_keys:
  assumes "fst ` set m \<subseteq> set guessable"
  shows "fst ` set (rate_word word e m) \<subseteq> set guessable"
proof (cases e)
  case (Pair w t)
  show ?thesis
  proof (cases "t \<in> set guessable")
    case True
    have "fst ` set (fold (\<lambda>(b, v) m. if starts_with w b then rate t v m else m) (guess_begins word)
        (fold (\<lambda>(e, v) m. if ends_with w e then rate t v m else m) (guess_ends word) m)) \<subseteq> set guessable"
      by (rule fold_rate_keys [OF True fold_rate_keys [OF True assms]])
    with assms show ?thesis unfolding rate_word_def Pair by (simp split: if_split)
  next
    case False
    then show ?thesis using assms by (simp add: rate_word_def Pair guessable_def)
  qed
qed

lemma best_rating_key:
  "fst (fold best_rating es b) \<in> insert (fst b) (fst ` set es)"
proof (induction es arbitrary: b)
  case Nil
  then show ?case by simp
next
  case (Cons e es)
  have "fst (best_rating e b) \<in> {fst b, fst e}"
    by (cases e; cases b) (auto simp: best_rating_def Let_def)
  with Cons [of "best_rating e b"] show ?case by auto
qed

lemma impl_guess_eq:
  assumes "good_order ord"
  obtains best where "impl_guess ord word t g =
      ((best, snd t), write_to_file ''guessed.pos'' word (best, snd t) (g\<lparr>tg_type := um_insert word best (tg_type g)\<rparr>))"
    "best = [] \<or> best \<in> set guessable"
proof -
  let ?ratings = "fold (rate_word word) (iterate ord (tg_type g)) []"
  have "fst ` set m \<subseteq> set guessable \<Longrightarrow> fst ` set (fold (rate_word word) es m) \<subseteq> set guessable" for es m
    by (induction es arbitrary: m) (simp_all add: rate_word_keys)
  then have "fst ` set ?ratings \<subseteq> set guessable" by simp
  then have "fst (fold best_rating (iterate ord ?ratings) ([], 0)) \<in> insert [] (set guessable)"
    using best_rating_key [of "iterate ord ?ratings" "([], 0)"] by (auto simp: set_iterate [OF assms])
  then show thesis by (intro that) (auto simp: impl_guess_def Let_def)
qed

lemma tg_type_write [simp]: "tg_type (write_to_file f w t g) = tg_type g"
  by (simp add: write_to_file_def)

lemma types_ok_guess:
  assumes "good_order ord" "types_ok g"
  shows "types_ok (snd (guess ord config word t g))"
proof -
  obtain best where b: "impl_guess ord word t g =
      ((best, snd t), write_to_file ''guessed.pos'' word (best, snd t) (g\<lparr>tg_type := um_insert word best (tg_type g)\<rparr>))"
    and k: "best = [] \<or> best \<in> set guessable"
    by (rule impl_guess_eq [OF assms(1)])
  have "unique_pos_type best = best" using k guessable_unique by auto
  then show ?thesis
    using assms(2) types_ok_insert [of "tg_type g" best word] by (simp add: guess_def b types_ok_def)
qed

lemma get_pos_cases:
  assumes "get_pos r ord config ask w g = Inr (t, g')"
  shows "g' = g \<or> (\<exists>u. g' = snd (guess ord config (to_ascii w) u g))"
  using assms
  by (auto simp: get_pos_def Let_def split_beta split: if_splits sum.splits)


text \<open>The states of a tagger: what its constructor and any sequence of its operations give.\<close>

inductive tagger_reachable :: "tagger \<Rightarrow> bool" where
  reach_new: "tagger_reachable tagger_new"
| reach_pos: "tagger_reachable g \<Longrightarrow> tagger_reachable (snd (read_pos_file file g))"
| reach_regex: "tagger_reachable g \<Longrightarrow> tagger_reachable (snd (read_regex_pos_file file g))"
| reach_verbs: "tagger_reachable g \<Longrightarrow> tagger_reachable (snd (read_verbs_file file g))"
| reach_get: "tagger_reachable g \<Longrightarrow> good_order ord \<Longrightarrow> get_pos r ord config ask w g = Inr (t, g') \<Longrightarrow>
    tagger_reachable g'"
| reach_toggle: "tagger_reachable g \<Longrightarrow> good_order ord \<Longrightarrow>
    toggle r ord config ask w g = Inr (n, w', g') \<Longrightarrow> tagger_reachable g'"

lemma types_ok_get_pos:
  "good_order ord \<Longrightarrow> types_ok g \<Longrightarrow> get_pos r ord config ask w g = Inr (t, g') \<Longrightarrow> types_ok g'"
  using get_pos_cases types_ok_guess by blast

lemma types_ok_toggle:
  assumes "good_order ord" "types_ok g" "toggle r ord config ask w g = Inr (n, w', g')"
  shows "types_ok g'"
proof (cases "um_find (togglemap g) w")
  case (Some v)
  then show ?thesis using assms by (simp add: toggle_def)
next
  case None
  then obtain t g1 where p: "get_pos r ord config ask w g = Inr (t, g1)"
    using assms(3) by (cases "get_pos r ord config ask w g") (auto simp: toggle_def)
  then have "g' = g1" using assms(3) None by (simp add: toggle_def Let_def split: if_splits)
  then show ?thesis using types_ok_get_pos [OF assms(1,2) p] by simp
qed

lemma impl_guess_look:
  assumes "um_find (tg_type g) w = None"
  shows "um_find (tg_type (snd (impl_guess ord w t g))) w = Some (fst (fst (impl_guess ord w t g)))"
  using assms by (simp add: impl_guess_def Let_def um_find_insert)

lemma known_pos_hit:
  assumes "um_find (tg_type g) w = Some ty" "ty \<noteq> []"
  shows "known_pos r w g = Inr (ty, if ty = ''n'' then (case um_find (tg_genus g) w of Some ge \<Rightarrow> ge | None \<Rightarrow> [])
    else [])"
  using assms by (simp add: known_pos_def impl_get_pos_def is_empty_def Let_def split: option.split)

section \<open>Lemmas: scores and verb pairs\<close>

lemma wrap32_id: "- 2147483648 \<le> i \<Longrightarrow> i \<le> 2147483647 \<Longrightarrow> wrap32 i = i"
  by (simp add: wrap32_def)

lemma guess_score_exact:
  assumes "0 \<le> rating" "rating \<le> 4634" "0 < cnt"
  shows "guess_score rating cnt = 100 * (rating * rating) div cnt"
proof -
  have q: "rating * rating \<le> 4634 * 4634" using assms by (intro mult_mono) simp_all
  have q0: "0 \<le> rating * rating" by simp
  have "wrap32 (rating * rating) = rating * rating"
    by (rule wrap32_id) (use q q0 in linarith)+
  moreover have "wrap32 (100 * (rating * rating)) = 100 * (rating * rating)"
    by (rule wrap32_id) (use q q0 in linarith)+
  moreover have "(100 * (rating * rating)) sdiv cnt = 100 * (rating * rating) div cnt"
    using q0 assms(3) by (simp add: signed_divide_int_def sgn_if)
  ultimately show ?thesis by (simp only: guess_score_def)
qed

text \<open>The pairs of a verbs file.\<close>

definition verb_pair :: "string \<Rightarrow> (string \<times> string) list" where
  "verb_pair line =
    (case split_compress (is_any_of '','') (trim line) of a # b # _ \<Rightarrow> [(a, b)] | _ \<Rightarrow> [])"

lemma verbs_line_eq:
  "verbs_line l m = fold (\<lambda>(k, v). um_insert k v) (concat (map (\<lambda>(a, b). [(a, b), (b, a)]) (verb_pair l))) m"
  by (simp add: verbs_line_def verb_pair_def split: list.split)

lemma fold_verbs_line:
  "fold verbs_line ls m =
    fold (\<lambda>(k, v). um_insert k v) (concat (map (\<lambda>(a, b). [(a, b), (b, a)]) (concat (map verb_pair ls)))) m"
  by (induction ls arbitrary: m) (simp_all add: verbs_line_eq)

lemma pairs_symmetric:
  assumes "distinct (concat (map (\<lambda>(a, b). [a, b]) ps))"
    and "map_of (concat (map (\<lambda>(a, b). [(a, b), (b, a)]) ps)) x = Some y"
  shows "map_of (concat (map (\<lambda>(a, b). [(a, b), (b, a)]) ps)) y = Some x"
  using assms
proof (induction ps)
  case Nil
  then show ?case by simp
next
  case (Cons p ps)
  obtain a b where p: "p = (a, b)" by (cases p)
  let ?m = "map_of (concat (map (\<lambda>(a, b). [(a, b), (b, a)]) ps))"
  have keys: "z \<in> set (concat (map (\<lambda>(a, b). [a, b]) ps))" if "?m u = Some z" for u z
    using that by (force dest!: map_of_SomeD)
  have nk: "a \<noteq> b" "a \<notin> set (concat (map (\<lambda>(a, b). [a, b]) ps))"
    "b \<notin> set (concat (map (\<lambda>(a, b). [a, b]) ps))"
    using Cons.prems(1) by (auto simp: p)
  show ?case
  proof (cases "x = a \<or> x = b")
    case True
    then show ?thesis using Cons.prems(2) nk(1) by (auto simp: p split: if_splits)
  next
    case False
    then have "?m x = Some y" using Cons.prems(2) by (simp add: p)
    moreover from keys [OF this] have "y \<noteq> a" "y \<noteq> b" using nk by blast+
    ultimately show ?thesis using Cons by (simp add: p)
  qed
qed

section \<open>Properties\<close>

text \<open>Reading a file adds what the dictionary does not have yet: for every word the earlier entry
  wins, before the file or higher up in it, for types and for genders.\<close>

theorem read_pos_file_first_wins:
  "let g' = snd (read_pos_file (Some s) g); ls = split_lines s
   in um_find (tg_type g') w =
        (case um_find (tg_type g) w of Some t \<Rightarrow> Some t | None \<Rightarrow> map_of (file_entries type_entry [] ls) w)
    \<and> um_find (tg_genus g') w =
        (case um_find (tg_genus g) w of Some t \<Rightarrow> Some t | None \<Rightarrow> map_of (file_entries genus_entry [] ls) w)"
  using fold_pos_file [of "split_lines s" "[]" g]
  by (simp add: read_pos_file_def Let_def um.look_fold)

text \<open>In every state of the tagger the dictionary holds only normalised types, whatever was read
  and guessed.\<close>

theorem tagger_types_normalised:
  assumes "tagger_reachable g"
  shows "types_ok g"
  using assms
proof induction
  case reach_new
  then show ?case by (rule types_ok_new)
next
  case (reach_pos g "file")
  then show ?case by (intro types_ok_pos_file)
next
  case (reach_regex g "file")
  then show ?case by (simp add: types_ok_def regex_pos_file_type)
next
  case (reach_verbs g "file")
  then show ?case by (simp add: types_ok_def verbs_file_type)
next
  case (reach_get g ord r config ask w t g')
  show ?case by (rule types_ok_get_pos [OF reach_get(2,4,3)])
next
  case (reach_toggle g ord r config ask w n w' g')
  show ?case by (rule types_ok_toggle [OF reach_toggle(2,4,3)])
qed

theorem tagger_types_normalised_witness:
  "types_ok (snd (read_pos_file (Some ''haus:'') tagger_new))"
  by (rule tagger_types_normalised) (intro reach_pos reach_new)

text \<open>C17. A word that is in the dictionary is answered from it: the type, for a noun with its gender,
  and nothing is guessed, asked or changed, whatever the expressions, the configuration and the order
  of the dictionary are.\<close>

theorem get_pos_known:
  assumes "um_find (tg_type g) w = Some ty" and "ty \<noteq> []" and "to_ascii w = w" and "w \<noteq> []"
  shows "get_pos r ord config ask w g =
    Inr ((ty, if ty = ''n'' then (case um_find (tg_genus g) w of Some ge \<Rightarrow> ge | None \<Rightarrow> []) else []), g)"
  using known_pos_hit [OF assms(1,2)] assms
  by (simp add: get_pos_def is_empty_def)

definition small_tagger :: tagger where
  "small_tagger =
    \<lparr>verbose = False, buffered = False, lang = ''de'', path = ''.'',
     tg_type = [(''haus'', ''n''), (''uhu'', ''n''), (''lauf'', ''v'')], tg_genus = [(''haus'', ''s'')],
     regex_type = [], regex_genus = [], togglemap = [], custom_names = [], tg_written = []\<rparr>"

definition no_rx :: rx where
  "no_rx = \<lparr>rx_valid = \<lambda>e. True, rx_search = \<lambda>i e s. None, rx_subst = \<lambda>i e r s. s\<rparr>"

theorem get_pos_known_witness:
  "get_pos no_rx remdups ''1'' (\<lambda>w t. t) ''haus'' small_tagger = Inr ((''n'', ''s''), small_tagger)"
proof -
  have "um_find (tg_type small_tagger) ''haus'' = Some ''n''" "to_ascii ''haus'' = ''haus''"
    "um_find (tg_genus small_tagger) ''haus'' = Some ''s''"
    by code_simp+
  with get_pos_known [of small_tagger "''haus''" "''n''" no_rx remdups "''1''" "\<lambda>w t. t"] show ?thesis
    by simp
qed

text \<open>C18. A guess is remembered: when a word that is not in the dictionary was answered by guessing a
  type, the next question for it gets the same type from the dictionary and changes nothing.\<close>

theorem guess_is_remembered:
  assumes "get_pos r ord config ask w g = Inr (t, g')" and "g' \<noteq> g"
    and "um_find (tg_type g) w = None" and "to_ascii w = w"
    and guessed: "um_find (tg_type g') w \<noteq> Some []"
  shows "\<exists>t'. get_pos r ord config ask w g' = Inr (t', g') \<and> fst t' = fst t"
proof -
  have w: "w \<noteq> []" using assms(1,2,4) by (auto simp: get_pos_def)
  obtain t7 where k: "known_pos r w g = Inr t7"
    using assms(1,4) w by (cases "known_pos r w g") (auto simp: get_pos_def)
  have e: "is_empty t7" and g: "guess ord config w t7 g \<noteq> (t7, g)"
    using assms(1,2,4) w k by (auto simp: get_pos_def split: if_splits)
  have gi: "guess ord config w t7 g = impl_guess ord w t7 g"
    using g by (auto simp: guess_def split: if_splits)
  let ?t8 = "fst (impl_guess ord w t7 g)"
  have g': "g' = snd (impl_guess ord w t7 g)" and t: "t = (if is_empty ?t8 then ask w ?t8 else ?t8)"
    using assms(1,4) w k e gi by (auto simp: get_pos_def split_beta)
  have l: "um_find (tg_type g') w = Some (fst ?t8)" using impl_guess_look [OF assms(3)] g' by simp
  then have ne: "fst ?t8 \<noteq> []" using guessed by simp
  then have "t = ?t8" using t by (simp add: is_empty_def)
  moreover have "to_ascii w = w" by (rule assms(4))
  ultimately show ?thesis
    using known_pos_hit [OF l ne] ne w by (simp add: get_pos_def is_empty_def)
qed

definition small_result :: "tags \<times> tagger" where
  "small_result = (case get_pos no_rx remdups ''1'' (\<lambda>w t. t) ''du'' small_tagger of Inr x \<Rightarrow> x
    | Inl err \<Rightarrow> (([], []), small_tagger))"

lemma small_result_eq:
  "get_pos no_rx remdups ''1'' (\<lambda>w t. t) ''du'' small_tagger = Inr small_result"
  "fst small_result = (''n'', [])" "tg_type (snd small_result) \<noteq> tg_type small_tagger"
  "um_find (tg_type (snd small_result)) ''du'' = Some ''n''"
  by code_simp+

theorem guess_is_remembered_witness:
  "\<exists>t'. get_pos no_rx remdups ''1'' (\<lambda>w t. t) ''du'' (snd small_result) = Inr (t', snd small_result)
    \<and> fst t' = ''n''"
proof -
  have "get_pos no_rx remdups ''1'' (\<lambda>w t. t) ''du'' small_tagger = Inr (fst small_result, snd small_result)"
    using small_result_eq(1) by simp
  moreover have "snd small_result \<noteq> small_tagger" using small_result_eq(3) by auto
  moreover have "um_find (tg_type small_tagger) ''du'' = None" "to_ascii ''du'' = ''du''" by code_simp+
  moreover have "um_find (tg_type (snd small_result)) ''du'' \<noteq> Some []" using small_result_eq(4) by simp
  ultimately show ?thesis using guess_is_remembered small_result_eq(2) by (metis fst_conv)
qed


text \<open>The score of a guess is 100 times the squared rating over the count as long as the rating
  is at most 4634; a dictionary that rates higher overflows the 32-bit computation, and the better
  match then gets a negative score.\<close>

theorem guess_score_bounds:
  "guess_score (min 4634 (max 0 rating)) (max 1 cnt) =
     100 * (min 4634 (max 0 rating) * min 4634 (max 0 rating)) div max 1 cnt
   \<and> guess_score 4634 100 = 21473956 \<and> guess_score 4635 100 = - 21466447"
proof -
  have "guess_score 4634 100 = 21473956" "guess_score 4635 100 = - 21466447" by code_simp+
  then show ?thesis using guess_score_exact [of "min 4634 (max 0 rating)" "max 1 cnt"] by simp
qed

text \<open>After a verbs file in which no form occurs twice, the change between the two forms is an
  involution: looking up the partner of a form gives the form again.\<close>

theorem toggle_involution:
  assumes "distinct (concat (map (\<lambda>(a, b). [a, b]) (concat (map verb_pair (split_lines s)))))"
    and "togglemap g = []" and "um_find (togglemap (snd (read_verbs_file (Some s) g))) v = Some w"
  shows "um_find (togglemap (snd (read_verbs_file (Some s) g))) w = Some v"
proof -
  let ?es = "concat (map (\<lambda>(a, b). [(a, b), (b, a)]) (concat (map verb_pair (split_lines s))))"
  have "togglemap (snd (read_verbs_file (Some s) g)) = fold (\<lambda>(k, v). um_insert k v) ?es []"
    using assms(2) fold_verbs_line [of "split_lines s" "[]"] by (simp add: read_verbs_file_def Let_def)
  then have l: "um_find (togglemap (snd (read_verbs_file (Some s) g))) x = map_of ?es x" for x
    by (simp add: um.look_fold)
  show ?thesis unfolding l using assms(3) [unfolded l] by (rule pairs_symmetric [OF assms(1)])
qed

definition verbs_text :: string where
  "verbs_text = ''habe,hast'' @ [newline] @ ''bin,bist'' @ [newline]"

theorem toggle_involution_witness:
  "um_find (togglemap (snd (read_verbs_file (Some verbs_text) small_tagger))) ''bist'' = Some ''bin''"
proof -
  have "distinct (concat (map (\<lambda>(a, b). [a, b]) (concat (map verb_pair (split_lines verbs_text)))))"
    "togglemap small_tagger = []"
    "um_find (togglemap (snd (read_verbs_file (Some verbs_text) small_tagger))) ''bin'' = Some ''bist''"
    by code_simp+
  then show ?thesis by (rule toggle_involution)
qed

text \<open>The empty word is a name: the empty table of female names splits into one empty name, and no
  earlier test rules it out.\<close>

lemma empty_word_is_name: "is_name r custom []"
proof -
  have "[] \<notin> set builtin_entity_ends" by code_simp
  then show ?thesis
    by (simp add: is_name_def lc_def builtin_female_names_def female_names_text_def)
qed

text \<open>The German verb forms of the first and the third person plural agree for every verb, and a
  person that is none of the six leaves the verb as it is.\<close>

lemma get_verb_plural:
  "get_verb v ''1p'' = get_verb v ''3p'' \<and> get_verb v ''4p'' = v"
proof -
  have a: "list_all (\<lambda>(k, fs). length fs = 6 \<and> fs ! 3 = fs ! 5) (verb_forms_1 @ verb_forms_2)"
    by code_simp
  show ?thesis
  proof (cases "map_of (verb_forms_1 @ verb_forms_2) v")
    case None
    then show ?thesis unfolding get_verb_def by (simp only: option.case simp_thms)
  next
    case (Some fs)
    from map_of_SomeD [OF this] a have "length fs = 6" "fs ! 3 = fs ! 5"
      unfolding list_all_iff by blast+
    then obtain f1 f2 f3 f4 f5 f6 where "fs = [f1, f2, f3, f4, f5, f6]" "f4 = f6"
      by (auto simp: numeral_eq_Suc length_Suc_conv)
    then show ?thesis unfolding get_verb_def Some by (simp add: persons_def)
  qed
qed

end
