(* ===== verification/Xml2012.thy ===== *)
theory Xml2012
  imports Tagger2012
begin

text \<open>
  \<^verbatim>\<open>hal2012-xml2012.cpp\<close>: the trees in which facts are kept, with the words of every node
  cached in the node, and their printers. The reader is in \<^verbatim>\<open>XmlReader\<close>.

  Nodes are values here. The program shares them by pointers, and an operation that changes a shared
  node is seen through every pointer; what the operations below say holds of a node and of the nodes
  reached from it.

  The lemmas show when a cache may be trusted: every operation that changes the children clears it or
  keeps it right, and \<^verbatim>\<open>set_text\<close> with a string does not.
\<close>

section \<open>Words\<close>

datatype word = Word (wtext: string) (wtags: "tags option")

definition new_word :: "string \<Rightarrow> word" where
  "new_word w = Word w None"

definition set_word :: "string \<Rightarrow> word \<Rightarrow> word" where
  "set_word s w = Word s (wtags w)"

definition set_tags :: "tags \<Rightarrow> word \<Rightarrow> word" where
  "set_tags t w = Word (wtext w) (Some t)"

definition has_tags :: "word \<Rightarrow> bool" where
  "has_tags w = (wtags w \<noteq> None)"

definition word_size :: "word \<Rightarrow> nat" where
  "word_size w = length (wtext w)"

definition word_eq :: "word \<Rightarrow> word \<Rightarrow> bool" where
  "word_eq v w = (wtext v = wtext w)"

definition lc_word :: "word \<Rightarrow> word" where
  "lc_word w = set_word (lc (wtext w)) w"

definition uc_word :: "word \<Rightarrow> word" where
  "uc_word w = set_word (uc (wtext w)) w"

definition lcfirst_word :: "word \<Rightarrow> word" where
  "lcfirst_word w = set_word (lcfirst (wtext w)) w"

definition ucfirst_word :: "word \<Rightarrow> word" where
  "ucfirst_word w = set_word (ucfirst (wtext w)) w"

section \<open>Nodes\<close>

datatype xml_mode = LIST | TEXT | ANY

datatype xml_obj =
  Xml (xmode: xml_mode) (xname: string) (xtext: string) (xcontent: "xml_obj list")
      (cached_words: bool) (cached_tags: bool) (cache_words: "word list")

definition new_xml :: "xml_mode \<Rightarrow> xml_obj" where
  "new_xml m = Xml m [] [] [] False False []"

definition set_name :: "string \<Rightarrow> xml_obj \<Rightarrow> xml_obj" where
  "set_name n x = Xml (xmode x) n (xtext x) (xcontent x) (cached_words x) (cached_tags x) (cache_words x)"

definition set_content :: "xml_obj list \<Rightarrow> xml_obj \<Rightarrow> xml_obj" where
  "set_content c x = Xml (xmode x) (xname x) (xtext x) c (cached_words x) (cached_tags x) (cache_words x)"

definition trim_text :: "string \<Rightarrow> string" where
  "trim_text s = trim_if is_space s"

definition xml_set_text :: "string \<Rightarrow> xml_obj \<Rightarrow> xml_obj" where
  "xml_set_text s x =
    Xml (xmode x) (xname x) (trim_text s) (xcontent x) (cached_words x) (cached_tags x) (cache_words x)"

definition xml_set_word :: "word \<Rightarrow> xml_obj \<Rightarrow> xml_obj" where
  "xml_set_word w x =
    Xml (xmode x) (xname x) (wtext w) (xcontent x) True (if has_tags w then True else cached_tags x) [w]"

definition from_text :: "string \<Rightarrow> xml_obj" where
  "from_text s = xml_set_text s (set_name [] (new_xml TEXT))"

definition reset_cache :: "xml_obj \<Rightarrow> xml_obj" where
  "reset_cache x = Xml (xmode x) (xname x) (xtext x) (xcontent x) False False (cache_words x)"

definition push :: "xml_obj \<Rightarrow> xml_obj \<Rightarrow> xml_obj" where
  "push i x = reset_cache (set_content (xcontent x @ [i]) x)"

definition push_all :: "xml_obj list \<Rightarrow> xml_obj \<Rightarrow> xml_obj" where
  "push_all is x = fold push is x"

definition copy_out :: "xml_obj \<Rightarrow> xml_obj list \<Rightarrow> xml_obj list" where
  "copy_out x v = v @ xcontent x"

section \<open>Printing\<close>

definition indent :: "nat \<Rightarrow> string" where
  "indent n = concat (replicate n ''  '')"

fun print_xml_at :: "nat \<Rightarrow> nat \<Rightarrow> xml_obj \<Rightarrow> string" where
  "print_xml_at level0 second0 (Xml m name t content cw ct ca) =
    (case m of
       TEXT \<Rightarrow> t
     | LIST \<Rightarrow>
         (let level = (if name = ''clause'' then Suc level0 else level0);
              second = (if name = ''clause'' then 0 else second0);
              eol = (if second = 0 then [newline] else [])
          in ''<'' @ name @ ''>'' @ eol
             @ concat (map (\<lambda>c.
                 (if second = 0 then indent (Suc level) else [])
                 @ print_xml_at level (Suc second) c @ eol) content)
             @ (if second = 0 then indent level else [])
             @ ''</'' @ name @ ''>'')
     | ANY \<Rightarrow> [])"

definition obj_print_xml :: "xml_obj \<Rightarrow> string" where
  "obj_print_xml x = print_xml_at 0 0 x @ [newline]"

fun print_text :: "xml_obj \<Rightarrow> string" where
  "print_text (Xml m name t content cw ct ca) =
    (case m of
       TEXT \<Rightarrow> t
     | LIST \<Rightarrow>
         (let delem = (if name = ''and'' \<or> name = ''or'' then '' '' @ name @ '' '' else '' '')
          in join delem (map print_text content))
     | ANY \<Rightarrow> [])"

fun print_str :: "xml_obj \<Rightarrow> string" where
  "print_str (Xml m name t content cw ct ca) =
    (case m of
       TEXT \<Rightarrow> [quote] @ t @ [quote]
     | LIST \<Rightarrow>
         (let delem = (if name = ''and'' \<or> name = ''or'' then '' '' @ name else '','')
          in if name = ''text'' \<and> length content = 1 then name @ '':'' @ concat (map print_str content)
             else if name = ''synonyms'' then
               name @ '': '' @ [quote] @ join ''|'' (map print_text content) @ [quote]
             else
               [CHR 0x27] @ name @ [CHR 0x27] @ '':{''
               @ (if length content = 1 then concat (map print_str content)
                  else if 1 < length content then
                    join delem (map (\<lambda>c. '' '' @ print_str c) content) @ '' ''
                  else [])
               @ ''}'')
     | ANY \<Rightarrow> [])"

text \<open>\<^verbatim>\<open>part\<close> with a vector appends the children of a name; with a name alone it gives the only
  such child, or a new list of all their children.\<close>

definition part_list :: "string \<Rightarrow> xml_obj \<Rightarrow> xml_obj list" where
  "part_list tag x = filter (\<lambda>c. xname c = tag) (xcontent x)"

definition part :: "string \<Rightarrow> xml_obj \<Rightarrow> xml_obj" where
  "part tag x =
    (case part_list tag x of
       [c] \<Rightarrow> c
     | cs \<Rightarrow> fold (\<lambda>c s. push_all (xcontent c) s) cs (set_name tag (new_xml LIST)))"

definition print_str_part :: "string \<Rightarrow> xml_obj \<Rightarrow> string" where
  "print_str_part tag x = join '' '' (map print_str (part_list tag x))"

section \<open>Caches\<close>

definition is_word_char :: "char \<Rightarrow> bool" where
  "is_word_char c \<longleftrightarrow> is_alpha c \<or> is_digit c \<or> is_any_of ''}{][=-)(_'' c"

definition split_words :: "string \<Rightarrow> word list" where
  "split_words t =
    map new_word (filter (\<lambda>s. s \<noteq> [] \<and> s \<noteq> ''1'') (split_compress (\<lambda>c. \<not> is_word_char c) t))"

fun prepare_words :: "xml_obj \<Rightarrow> xml_obj" where
  "prepare_words (Xml m name t content cw ct ca) =
    (if cw then Xml m name t content cw ct ca
     else case m of
       TEXT \<Rightarrow> Xml m name t content True ct (split_words t)
     | LIST \<Rightarrow>
         (if name \<noteq> ''truth'' then
            (let c = map prepare_words content
             in Xml m name t c True ct (concat (map cache_words c)))
          else Xml m name t content True ct [])
     | ANY \<Rightarrow> Xml m name t content True ct [])"

definition get_words :: "xml_obj \<Rightarrow> word list \<times> xml_obj" where
  "get_words x = (let x' = prepare_words x in (cache_words x', x'))"

fun tag_words ::
  "(string \<Rightarrow> tagger \<Rightarrow> rx_error + (tags \<times> tagger)) \<Rightarrow> word list \<Rightarrow> tagger
    \<Rightarrow> rx_error + (word list \<times> tagger)"
where
  "tag_words gp [] g = Inr ([], g)"
| "tag_words gp (w # ws) g =
    (case (if has_tags w then Inr (w, g)
           else (case gp (wtext w) g of Inl err \<Rightarrow> Inl err | Inr (t, g') \<Rightarrow> Inr (set_tags t w, g'))) of
       Inl err \<Rightarrow> Inl err
     | Inr (w', g1) \<Rightarrow>
         (case tag_words gp ws g1 of Inl err \<Rightarrow> Inl err | Inr (ws', g2) \<Rightarrow> Inr (w' # ws', g2)))"

text \<open>The number of nodes, for the termination of the operations that prepare children first.\<close>

fun nodes :: "xml_obj \<Rightarrow> nat" where
  "nodes (Xml m name t content cw ct ca) = Suc (sum_list (map nodes content))"

lemma nodes_child: "c \<in> set (xcontent x) \<Longrightarrow> nodes c < nodes x"
  by (cases x) (auto simp: less_Suc_eq_le member_le_sum_list)

lemma nodes_prepare_words [simp]: "nodes (prepare_words x) = nodes x"
proof (induction x)
  case (Xml m name t content cw ct ca)
  then have "map (\<lambda>x. nodes (prepare_words x)) content = map nodes content" by simp
  then have "sum_list (map (\<lambda>x. nodes (prepare_words x)) content) = sum_list (map nodes content)"
    by (rule arg_cong)
  then show ?case by (simp add: Let_def comp_def split: xml_mode.split)
qed

text \<open>\<^verbatim>\<open>prepare_tags\<close> with a tagger; \<open>gp\<close> is its \<^verbatim>\<open>get_pos\<close>.\<close>

definition set_cache :: "word list \<Rightarrow> xml_obj list \<Rightarrow> xml_obj \<Rightarrow> xml_obj" where
  "set_cache ws c x = Xml (xmode x) (xname x) (xtext x) c (cached_words x) True ws"

function prepare_tags ::
  "(string \<Rightarrow> tagger \<Rightarrow> rx_error + (tags \<times> tagger)) \<Rightarrow> xml_obj \<Rightarrow> tagger
    \<Rightarrow> rx_error + (xml_obj \<times> tagger)"
where
  "prepare_tags gp x g =
    (if cached_tags x then Inr (x, g)
     else
       (case tag_words gp (cache_words (prepare_words x)) g of
          Inl err \<Rightarrow> Inl err
        | Inr (ws, g1) \<Rightarrow>
            (case (if xmode x = LIST then
                     fold (\<lambda>c acc. case acc of
                         Inl err \<Rightarrow> Inl err
                       | Inr (cs, g) \<Rightarrow>
                           (case prepare_tags gp c g of
                              Inl err \<Rightarrow> Inl err
                            | Inr (c', g') \<Rightarrow> Inr (cs @ [c'], g')))
                       (xcontent (prepare_words x)) (Inr ([], g1))
                   else Inr (xcontent (prepare_words x), g1)) of
               Inl err \<Rightarrow> Inl err
             | Inr (cs, g2) \<Rightarrow> Inr (set_cache ws cs (prepare_words x), g2))))"
  by pat_completeness auto
termination
proof (relation "measure (\<lambda>(gp, x, g). nodes x)", goal_cases)
  case 1
  then show ?case by simp
next
  case 2
  then show ?case using nodes_child by fastforce
qed

declare prepare_tags.simps [simp del]


section \<open>Merging the parts of a sentence\<close>

definition roles :: "string list" where
  "roles = [''subject'', ''object'', ''adverbs'', ''verb'']"

definition merged :: "string \<Rightarrow> xml_obj list \<Rightarrow> xml_obj" where
  "merged r cs =
    fold (\<lambda>c u. push_all (xcontent c) (set_name (xname c) u)) (filter (\<lambda>c. xname c = r) cs) (new_xml LIST)"

fun trim_xml :: "xml_obj \<Rightarrow> xml_obj" where
  "trim_xml (Xml m name t content cw ct ca) =
    (if m = LIST then
       (let cs = map trim_xml content;
            x0 = Xml m name t [] cw ct ca;
            x1 = fold (\<lambda>r x. if xcontent (merged r cs) \<noteq> [] then push (merged r cs) x else x) roles x0
        in push_all (filter (\<lambda>c. xname c \<notin> set roles) cs) x1)
     else Xml m name t content cw ct ca)"

section \<open>Changing the person\<close>

text \<open>\<open>verbs\<close> is the file \<^verbatim>\<open>toggle.csv\<close>, \<open>tog\<close> and \<open>gp\<close> are \<^verbatim>\<open>toggle\<close> and
  \<^verbatim>\<open>get_pos\<close> of the tagger. The first component of the result is 0 when something changed.\<close>

definition toggled_text :: "string \<Rightarrow> xml_obj" where
  "toggled_text w = push (xml_set_text w (new_xml TEXT)) (set_name ''text'' (new_xml LIST))"

definition after_toggle ::
  "(string \<Rightarrow> tagger \<Rightarrow> rx_error + (tags \<times> tagger)) \<Rightarrow> bool \<Rightarrow> xml_obj \<Rightarrow> tagger
    \<Rightarrow> rx_error + (nat \<times> xml_obj \<times> tagger)"
where
  "after_toggle gp changed x g =
    (if changed then
       (case prepare_tags gp (reset_cache x) g of
          Inl err \<Rightarrow> Inl err
        | Inr (x', g') \<Rightarrow> Inr (0, x', g'))
     else Inr (1, x, g))"

fun toggle_xml ::
  "string option \<Rightarrow> (string \<Rightarrow> tagger \<Rightarrow> rx_error + (nat \<times> string \<times> tagger))
    \<Rightarrow> (string \<Rightarrow> tagger \<Rightarrow> rx_error + (tags \<times> tagger)) \<Rightarrow> xml_obj \<Rightarrow> tagger
    \<Rightarrow> rx_error + (nat \<times> xml_obj \<times> tagger)"
where
  "toggle_xml verbs tog gp (Xml m name t content cw ct ca) g =
    (let g0 = snd (read_verbs_file verbs g) in
     if m = LIST \<and> content \<noteq> [] then
       (if name = ''synonyms'' then
          (case tog (print_text (hd content)) g0 of
             Inl err \<Rightarrow> Inl err
           | Inr (r, w, g1) \<Rightarrow>
               after_toggle gp (r = 0)
                 (Xml m name t (if r = 0 then toggled_text w # tl content else content) cw ct ca) g1)
        else
          (case fold (\<lambda>c acc. case acc of
                Inl err \<Rightarrow> Inl err
              | Inr (changed, cs, g) \<Rightarrow>
                  (case toggle_xml verbs tog gp c g of
                     Inl err \<Rightarrow> Inl err
                   | Inr (r, c', g') \<Rightarrow> Inr (changed \<or> r = 0, cs @ [c'], g')))
              content (Inr (False, [], g0)) of
             Inl err \<Rightarrow> Inl err
           | Inr (changed, cs, g1) \<Rightarrow> after_toggle gp changed (Xml m name t cs cw ct ca) g1))
     else Inr (1, Xml m name t content cw ct ca, g0))"

section \<open>Facts\<close>

record xml_fact =
  fact_obj :: xml_obj
  fact_line :: string
  fact_file :: string

definition new_fact :: xml_fact where
  "new_fact = \<lparr>fact_obj = set_name ''fact'' (new_xml LIST), fact_line = [], fact_file = []\<rparr>"

definition obj_eq :: "xml_obj \<Rightarrow> xml_obj \<Rightarrow> bool" where
  "obj_eq x y = (obj_print_xml x = obj_print_xml y)"

definition fact_eq :: "xml_fact \<Rightarrow> xml_fact \<Rightarrow> bool" where
  "fact_eq f h =
    (if fact_file f \<noteq> [] \<and> fact_file h \<noteq> [] then fact_file f = fact_file h \<and> fact_line f = fact_line h
     else obj_print_xml (fact_obj f) = obj_print_xml (fact_obj h))"

section \<open>When a cache is right\<close>

text \<open>The words of a tree without caches, and the caches that agree with them.\<close>

fun words_of :: "xml_obj \<Rightarrow> string list" where
  "words_of (Xml m name t content cw ct ca) =
    (case m of
       TEXT \<Rightarrow> map wtext (split_words t)
     | LIST \<Rightarrow> if name \<noteq> ''truth'' then concat (map words_of content) else []
     | ANY \<Rightarrow> [])"

fun coherent :: "xml_obj \<Rightarrow> bool" where
  "coherent (Xml m name t content cw ct ca) =
    ((cw \<longrightarrow> map wtext ca = words_of (Xml m name t content cw ct ca))
     \<and> list_all coherent content)"

declare words_of.simps [simp del] coherent.simps [simp del]

lemma words_of_eq:
  "words_of x = (case xmode x of
       TEXT \<Rightarrow> map wtext (split_words (xtext x))
     | LIST \<Rightarrow> if xname x \<noteq> ''truth'' then concat (map words_of (xcontent x)) else []
     | ANY \<Rightarrow> [])"
  by (cases x) (simp add: words_of.simps split: xml_mode.split)

lemma coherent_eq:
  "coherent x \<longleftrightarrow> (cached_words x \<longrightarrow> map wtext (cache_words x) = words_of x) \<and> list_all coherent (xcontent x)"
  by (cases x) (simp add: coherent.simps)

lemma reset_cache_sel [simp]:
  "xmode (reset_cache x) = xmode x" "xname (reset_cache x) = xname x" "xtext (reset_cache x) = xtext x"
  "xcontent (reset_cache x) = xcontent x" "cached_words (reset_cache x) = False"
  "cached_tags (reset_cache x) = False" "cache_words (reset_cache x) = cache_words x"
  by (simp_all add: reset_cache_def)

lemma set_content_sel [simp]:
  "xmode (set_content c x) = xmode x" "xname (set_content c x) = xname x"
  "xtext (set_content c x) = xtext x" "xcontent (set_content c x) = c"
  "cached_words (set_content c x) = cached_words x" "cache_words (set_content c x) = cache_words x"
  by (simp_all add: set_content_def)

lemma set_name_sel [simp]:
  "xmode (set_name n x) = xmode x" "xname (set_name n x) = n" "xtext (set_name n x) = xtext x"
  "xcontent (set_name n x) = xcontent x" "cached_words (set_name n x) = cached_words x"
  "cache_words (set_name n x) = cache_words x"
  by (simp_all add: set_name_def)

lemma new_xml_sel [simp]:
  "xmode (new_xml m) = m" "xname (new_xml m) = []" "xtext (new_xml m) = []" "xcontent (new_xml m) = []"
  "cached_words (new_xml m) = False" "cached_tags (new_xml m) = False"
  by (simp_all add: new_xml_def)

lemma push_sel [simp]:
  "xmode (push i x) = xmode x" "xname (push i x) = xname x" "xtext (push i x) = xtext x"
  "xcontent (push i x) = xcontent x @ [i]" "cached_words (push i x) = False"
  by (simp_all add: push_def)

lemma push_all_sel [simp]:
  "xmode (push_all is x) = xmode x" "xname (push_all is x) = xname x" "xtext (push_all is x) = xtext x"
  "xcontent (push_all is x) = xcontent x @ is"
  "cached_words (push_all is x) = (if is = [] then cached_words x else False)"
  by (induction "is" arbitrary: x) (simp_all add: push_all_def)

lemma coherent_reset [inv_intros]: "coherent x \<Longrightarrow> coherent (reset_cache x)"
  by (simp add: coherent_eq)

lemma coherent_push [inv_intros]: "coherent x \<Longrightarrow> coherent i \<Longrightarrow> coherent (push i x)"
  by (simp add: coherent_eq)

lemma coherent_push_all [inv_intros]: "coherent x \<Longrightarrow> list_all coherent is \<Longrightarrow> coherent (push_all is x)"
  by (induction "is" arbitrary: x) (simp_all add: push_all_def coherent_push)

lemma coherent_new [inv_intros]: "coherent (new_xml m)"
  by (simp add: coherent_eq)

lemma prepare_words_sel [simp]:
  "xmode (prepare_words x) = xmode x" "xname (prepare_words x) = xname x"
  "xtext (prepare_words x) = xtext x" "cached_words (prepare_words x)"
  by (cases x; simp add: Let_def split: xml_mode.split)+

lemma prepare_words_words_of: "words_of (prepare_words x) = words_of x"
proof (induction x)
  case (Xml m name t content cw ct ca)
  then show ?case
    by (simp add: Let_def words_of.simps comp_def cong: map_cong split: xml_mode.split)
qed

lemma prepare_words_coherent [inv_intros]: "coherent x \<Longrightarrow> coherent (prepare_words x)"
proof (induction x)
  case (Xml m name t content cw ct ca)
  show ?case
  proof (cases cw)
    case True
    then show ?thesis using Xml.prems by simp
  next
    case False
    have c: "list_all coherent (map prepare_words content)"
      using Xml by (simp add: coherent.simps list_all_iff)
    then have "map (map wtext \<circ> cache_words) (map prepare_words content) = map words_of (map prepare_words content)"
      by (auto simp: list_all_iff coherent_eq [of "prepare_words _"])
    moreover have "list_all coherent content" using Xml.prems by (simp add: coherent.simps)
    ultimately show ?thesis
      using False c by (simp add: Let_def coherent.simps words_of.simps map_concat comp_def cong: map_cong split: xml_mode.split)
  qed
qed

lemma get_words_right: "coherent x \<Longrightarrow> map wtext (fst (get_words x)) = words_of x"
  using prepare_words_coherent [of x] prepare_words_words_of [of x]
  by (simp add: get_words_def Let_def coherent_eq [of "prepare_words x"])


lemma tag_words_text: "tag_words gp ws g = Inr (ws', g') \<Longrightarrow> map wtext ws' = map wtext ws"
  by (induction ws arbitrary: ws' g)
    (auto simp: set_tags_def split: sum.splits if_splits prod.splits)

text \<open>The loop over the children of \<^verbatim>\<open>prepare_tags\<close>.\<close>

definition tag_child ::
  "(xml_obj \<Rightarrow> tagger \<Rightarrow> rx_error + (xml_obj \<times> tagger)) \<Rightarrow> xml_obj
    \<Rightarrow> rx_error + (xml_obj list \<times> tagger) \<Rightarrow> rx_error + (xml_obj list \<times> tagger)"
where
  "tag_child f c acc =
    (case acc of
       Inl err \<Rightarrow> Inl err
     | Inr (cs, g) \<Rightarrow> (case f c g of Inl err \<Rightarrow> Inl err | Inr (c', g') \<Rightarrow> Inr (cs @ [c'], g')))"

lemma tag_child_simps [simp]:
  "tag_child f c (Inl err) = Inl err"
  "tag_child f c (Inr (cs, g)) =
    (case f c g of Inl err \<Rightarrow> Inl err | Inr (c', g') \<Rightarrow> Inr (cs @ [c'], g'))"
  by (simp_all add: tag_child_def)

lemma fold_tag_child_Inl: "fold (tag_child f) cs (Inl err) = Inl err"
  by (induction cs) simp_all

lemma fold_tag_child:
  "fold (tag_child f) cs (Inr (ds, g)) = Inr (es, g') \<Longrightarrow>
    (\<And>c g c' g'. c \<in> set cs \<Longrightarrow> f c g = Inr (c', g') \<Longrightarrow> R c c') \<Longrightarrow>
    \<exists>es'. es = ds @ es' \<and> list_all2 R cs es'"
proof (induction cs arbitrary: ds g)
  case Nil
  then show ?case by simp
next
  case (Cons c cs)
  show ?case
  proof (cases "f c g")
    case (Inl err)
    then show ?thesis using Cons.prems(1) by (simp add: fold_tag_child_Inl)
  next
    case (Inr cg)
    obtain c1 g1 where cg: "cg = (c1, g1)" by (cases cg)
    have "fold (tag_child f) cs (Inr (ds @ [c1], g1)) = Inr (es, g')"
      using Cons.prems(1) by (simp add: Inr cg)
    from Cons.IH [OF this] Cons.prems(2) obtain es' where
      "es = (ds @ [c1]) @ es'" "list_all2 R cs es'" by auto
    moreover have "R c c1" using Cons.prems(2) Inr cg by simp
    ultimately have "es = ds @ (c1 # es')" "list_all2 R (c # cs) (c1 # es')" by simp_all
    then show ?thesis by blast
  qed
qed

lemma set_cache_sel [simp]:
  "xmode (set_cache ws c x) = xmode x" "xname (set_cache ws c x) = xname x"
  "xtext (set_cache ws c x) = xtext x" "xcontent (set_cache ws c x) = c"
  "cached_words (set_cache ws c x) = cached_words x" "cache_words (set_cache ws c x) = ws"
  by (simp_all add: set_cache_def)

lemma prepare_tags_eq:
  "prepare_tags gp x g =
    (if cached_tags x then Inr (x, g)
     else
       (case tag_words gp (cache_words (prepare_words x)) g of
          Inl err \<Rightarrow> Inl err
        | Inr (ws, g1) \<Rightarrow>
            (case (if xmode x = LIST then
                     fold (tag_child (prepare_tags gp)) (xcontent (prepare_words x)) (Inr ([], g1))
                   else Inr (xcontent (prepare_words x), g1)) of
               Inl err \<Rightarrow> Inl err
             | Inr (cs, g2) \<Rightarrow> Inr (set_cache ws cs (prepare_words x), g2))))"
proof -
  have "tag_child (prepare_tags gp) = (\<lambda>c acc. case acc of
                         Inl err \<Rightarrow> Inl err
                       | Inr (cs, g) \<Rightarrow>
                           (case prepare_tags gp c g of
                              Inl err \<Rightarrow> Inl err
                            | Inr (c', g') \<Rightarrow> Inr (cs @ [c'], g')))"
    by (intro ext) (simp add: tag_child_def)
  then show ?thesis by (simp only: prepare_tags.simps [of gp x g])
qed

definition same_words :: "xml_obj \<Rightarrow> xml_obj \<Rightarrow> bool" where
  "same_words x x' \<longleftrightarrow> words_of x' = words_of x \<and> (coherent x \<longrightarrow> coherent x')"

lemma same_words_list:
  "list_all2 same_words cs ds \<Longrightarrow>
    map words_of ds = map words_of cs \<and> (list_all coherent cs \<longrightarrow> list_all coherent ds)"
  by (induction rule: list_all2_induct) (auto simp: same_words_def)

text \<open>A relation between a tree and its tagged copy that holds for every node when it holds for the
  children.\<close>

lemma prepare_tags_rule:
  assumes refl: "\<And>x. R x x"
    and step: "\<And>x ws cs. map wtext ws = map wtext (cache_words (prepare_words x)) \<Longrightarrow>
      list_all2 R (xcontent (prepare_words x)) cs \<Longrightarrow> R x (set_cache ws cs (prepare_words x))"
  shows "prepare_tags gp x g = Inr (x', g') \<Longrightarrow> R x x'"
proof (induction x arbitrary: g x' g' rule: measure_induct_rule [of nodes])
  case (less x)
  show ?case
  proof (cases "cached_tags x")
    case True
    then show ?thesis using less.prems refl by (simp add: prepare_tags_eq)
  next
    case False
    let ?p = "prepare_words x"
    obtain ws g1 where ws: "tag_words gp (cache_words ?p) g = Inr (ws, g1)"
      using less.prems False by (cases "tag_words gp (cache_words ?p) g") (auto simp: prepare_tags_eq)
    let ?r = "if xmode x = LIST then fold (tag_child (prepare_tags gp)) (xcontent ?p) (Inr ([], g1))
        else Inr (xcontent ?p, g1)"
    obtain cs g2 where cs: "?r = Inr (cs, g2)"
      using less.prems False ws by (cases ?r) (auto simp: prepare_tags_eq)
    have x': "x' = set_cache ws cs ?p" using less.prems False ws cs by (simp add: prepare_tags_eq)
    have "list_all2 R (xcontent ?p) cs"
    proof (cases "xmode x = LIST")
      case True
      have "R c c'" if "c \<in> set (xcontent ?p)" "prepare_tags gp c h = Inr (c', h')" for c c' h h'
        using less.IH that nodes_child [OF that(1)] by simp
      then show ?thesis
        using cs True fold_tag_child [of "prepare_tags gp" "xcontent ?p" "[]" g1 cs g2 R] by simp
    next
      case False
      then have "cs = xcontent ?p" using cs by simp
      then show ?thesis by (simp add: list.rel_refl refl)
    qed
    then show ?thesis unfolding x' using tag_words_text [OF ws] by (intro step)
  qed
qed

lemma prepare_tags_same: "prepare_tags gp x g = Inr (x', g') \<Longrightarrow> same_words x x'"
proof (rule prepare_tags_rule [of same_words])
  fix x :: xml_obj and ws cs
  let ?p = "prepare_words x" and ?x = "set_cache ws cs (prepare_words x)"
  assume ws: "map wtext ws = map wtext (cache_words ?p)" and "list_all2 same_words (xcontent ?p) cs"
  note sl = same_words_list [OF this(2)]
  have w: "words_of ?x = words_of ?p"
    using sl by (simp add: words_of_eq [of ?x] words_of_eq [of ?p] split: xml_mode.split)
  moreover have "coherent ?x" if "coherent x"
  proof -
    have "coherent ?p" using that by (rule prepare_words_coherent)
    then have "map wtext (cache_words ?p) = words_of ?p" "list_all coherent (xcontent ?p)"
      by (simp_all add: coherent_eq [of ?p])
    then show ?thesis using sl w ws by (simp add: coherent_eq [of ?x])
  qed
  ultimately show "same_words x ?x" by (simp add: same_words_def prepare_words_words_of)
qed (simp_all add: same_words_def)

section \<open>Trimming keeps the words\<close>

lemma merged_sel:
  "xmode (merged r cs) = LIST"
  "xcontent (merged r cs) = concat (map xcontent (filter (\<lambda>c. xname c = r) cs))"
  "xcontent (merged r cs) \<noteq> [] \<Longrightarrow> xname (merged r cs) = r"
  "list_all coherent cs \<Longrightarrow> coherent (merged r cs)"
proof -
  let ?f = "\<lambda>c u. push_all (xcontent c) (set_name (xname c) u)"
  have f: "xmode (fold ?f ds u) = xmode u" "xcontent (fold ?f ds u) = xcontent u @ concat (map xcontent ds)" for ds u
    by (induction ds arbitrary: u) auto
  have n: "\<forall>d \<in> set ds. xname d = r \<Longrightarrow> xname (fold ?f ds u) = (if ds = [] then xname u else r)" for ds u
    by (induction ds arbitrary: u) auto
  have c: "list_all coherent ds \<Longrightarrow> coherent u \<Longrightarrow> \<not> cached_words u \<Longrightarrow> coherent (fold ?f ds u)" for ds u
  proof (induction ds arbitrary: u)
    case Nil
    then show ?case by simp
  next
    case (Cons d ds)
    have "list_all coherent (xcontent d)" using Cons.prems(1) by (simp add: coherent_eq [of d])
    then have "coherent (?f d u)"
      using Cons.prems(2,3) by (intro coherent_push_all) (simp_all add: coherent_eq [of "set_name _ u"] coherent_eq [of u])
    with Cons show ?case by simp
  qed
  show "xmode (merged r cs) = LIST" "xcontent (merged r cs) = concat (map xcontent (filter (\<lambda>c. xname c = r) cs))"
    using f by (simp_all add: merged_def)
  then show "xname (merged r cs) = r" if "xcontent (merged r cs) \<noteq> []"
  proof -
    have "filter (\<lambda>c. xname c = r) cs \<noteq> []"
      using that \<open>xcontent (merged r cs) = _\<close> by (metis concat.simps(1) list.simps(8))
    then show ?thesis
      using n [of "filter (\<lambda>c. xname c = r) cs" "new_xml LIST"] by (simp add: merged_def)
  qed
  show "list_all coherent cs \<Longrightarrow> coherent (merged r cs)"
    unfolding merged_def by (rule c) (auto simp: list_all_iff intro: coherent_new)
qed


text \<open>The nodes named after a role are lists.\<close>

fun role_lists :: "xml_obj \<Rightarrow> bool" where
  "role_lists (Xml m name t content cw ct ca) =
    list_all (\<lambda>c. (xname c \<in> set roles \<longrightarrow> xmode c = LIST) \<and> role_lists c) content"

definition words_in :: "xml_obj list \<Rightarrow> string multiset" where
  "words_in cs = (\<Sum>c\<leftarrow>cs. mset (words_of c))"

lemma words_in_simps [simp]:
  "words_in [] = {#}" "words_in (c # cs) = mset (words_of c) + words_in cs"
  "words_in (cs @ ds) = words_in cs + words_in ds"
  by (simp_all add: words_in_def)

lemma words_in_concat: "mset (concat (map words_of cs)) = words_in cs"
  by (induction cs) simp_all

lemma words_in_split:
  "words_in cs = words_in (filter (\<lambda>c. xname c = ''subject'') cs)
     + words_in (filter (\<lambda>c. xname c = ''object'') cs)
     + words_in (filter (\<lambda>c. xname c = ''adverbs'') cs)
     + words_in (filter (\<lambda>c. xname c = ''verb'') cs)
     + words_in (filter (\<lambda>c. xname c \<notin> set roles) cs)"
  by (induction cs) (auto simp: roles_def)

lemma words_in_lists:
  "list_all (\<lambda>c. xmode c = LIST \<and> xname c \<noteq> ''truth'') cs \<Longrightarrow>
    words_in (concat (map xcontent cs)) = words_in cs"
  by (induction cs) (simp_all add: words_of_eq words_in_concat)

lemma trim_xml_sel [simp]: "xmode (trim_xml x) = xmode x" "xname (trim_xml x) = xname x"
  by (cases x; simp add: Let_def roles_def)+

definition merged_list :: "string \<Rightarrow> xml_obj list \<Rightarrow> xml_obj list" where
  "merged_list r cs = (if xcontent (merged r cs) \<noteq> [] then [merged r cs] else [])"

lemma trim_xml_list:
  assumes "xmode x = LIST"
  defines "cs \<equiv> map trim_xml (xcontent x)"
  defines "ds \<equiv> concat (map (\<lambda>r. merged_list r cs) roles) @ filter (\<lambda>c. xname c \<notin> set roles) cs"
  shows "trim_xml x = push_all ds (set_content [] x)"
  using assms by (cases x) (simp add: Let_def roles_def merged_list_def push_all_def set_content_def)

lemma words_in_merged:
  assumes "r \<in> set roles" "list_all (\<lambda>c. xname c \<in> set roles \<longrightarrow> xmode c = LIST) cs"
  shows "words_in (merged_list r cs) = words_in (filter (\<lambda>c. xname c = r) cs)"
proof -
  have r: "r \<noteq> ''truth''" using assms(1) by (auto simp: roles_def)
  have "list_all (\<lambda>c. xmode c = LIST \<and> xname c \<noteq> ''truth'') (filter (\<lambda>c. xname c = r) cs)"
    using assms r by (auto simp: list_all_iff)
  from words_in_lists [OF this]
  have w: "words_in (xcontent (merged r cs)) = words_in (filter (\<lambda>c. xname c = r) cs)"
    by (simp add: merged_sel(2))
  show ?thesis
  proof (cases "xcontent (merged r cs) = []")
    case True
    then show ?thesis using w by (simp add: merged_list_def)
  next
    case False
    then show ?thesis
      using w r by (simp add: merged_list_def words_of_eq [of "merged r cs"] merged_sel(1,3) words_in_concat)
  qed
qed

lemma trim_words: "role_lists x \<Longrightarrow> mset (words_of (trim_xml x)) = mset (words_of x)"
proof (induction x)
  case (Xml m name t content cw ct ca)
  let ?x = "Xml m name t content cw ct ca"
  let ?cs = "map trim_xml content"
  show ?case
  proof (cases "m = LIST \<and> name \<noteq> ''truth''")
    case False
    show ?thesis
    proof (cases "m = LIST")
      case True
      with False show ?thesis
        by (simp add: words_of_eq [of "trim_xml _"] words_of.simps del: trim_xml.simps)
    qed simp
  next
    case True
    have l: "list_all (\<lambda>c. xname c \<in> set roles \<longrightarrow> xmode c = LIST) ?cs"
      using Xml.prems by (simp add: list_all_iff)
    have "words_in ?cs = words_in content"
      using Xml by (induction content) simp_all
    moreover have "words_in (xcontent (trim_xml ?x)) = words_in ?cs"
      using True words_in_split [of ?cs] words_in_merged [OF _ l]
      by (subst trim_xml_list) (simp_all add: roles_def)
    ultimately show ?thesis
      using True
      by (simp add: words_of_eq [of "trim_xml _"] words_of.simps words_in_concat del: trim_xml.simps)
  qed
qed

lemma trim_coherent: "role_lists x \<Longrightarrow> coherent x \<Longrightarrow> coherent (trim_xml x)"
proof (induction x)
  case (Xml m name t content cw ct ca)
  let ?x = "Xml m name t content cw ct ca"
  let ?cs = "map trim_xml content"
  let ?ds = "concat (map (\<lambda>r. merged_list r ?cs) roles) @ filter (\<lambda>c. xname c \<notin> set roles) ?cs"
  show ?case
  proof (cases "m = LIST")
    case False
    then show ?thesis using Xml.prems by simp
  next
    case True
    have cs: "list_all coherent ?cs"
      using Xml by (simp add: list_all_iff coherent.simps)
    have ds: "list_all coherent ?ds"
      using cs merged_sel(4) [OF cs] by (auto simp: list_all_iff merged_list_def)
    have t: "trim_xml ?x = push_all ?ds (set_content [] ?x)"
      using trim_xml_list [of ?x] True by simp
    show ?thesis
    proof (cases "?ds = []")
      case False
      then show ?thesis using ds
        by (simp only: t coherent_eq [of "push_all _ _"] push_all_sel set_content_sel) simp
    next
      case None: True
      have e: "trim_xml ?x = set_content [] ?x" by (simp only: t None) (simp add: push_all_def)
      have "words_of (set_content [] ?x) = []"
        using True by (simp add: words_of_eq)
      moreover have "words_of ?x = []"
        using trim_words [OF Xml.prems(1)] calculation by (simp only: e) simp
      ultimately show ?thesis
        using Xml.prems(2) unfolding e
        by (cases cw) (simp_all add: coherent.simps coherent_eq [of "set_content _ _"])
    qed
  qed
qed

section \<open>Changing the person keeps the caches right\<close>

definition toggle_child ::
  "(xml_obj \<Rightarrow> tagger \<Rightarrow> rx_error + (nat \<times> xml_obj \<times> tagger)) \<Rightarrow> xml_obj
    \<Rightarrow> rx_error + (bool \<times> xml_obj list \<times> tagger) \<Rightarrow> rx_error + (bool \<times> xml_obj list \<times> tagger)"
where
  "toggle_child f c acc =
    (case acc of
       Inl err \<Rightarrow> Inl err
     | Inr (changed, cs, g) \<Rightarrow>
         (case f c g of
            Inl err \<Rightarrow> Inl err
          | Inr (r, c', g') \<Rightarrow> Inr (changed \<or> r = 0, cs @ [c'], g')))"

lemma toggle_child_simps [simp]:
  "toggle_child f c (Inl err) = Inl err"
  "toggle_child f c (Inr (b, cs, g)) =
    (case f c g of Inl err \<Rightarrow> Inl err | Inr (r, c', g') \<Rightarrow> Inr (b \<or> r = 0, cs @ [c'], g'))"
  by (simp_all add: toggle_child_def)

lemma toggle_xml_list:
  assumes "content \<noteq> []" "name \<noteq> ''synonyms''"
  shows "toggle_xml verbs tog gp (Xml LIST name t content cw ct ca) g =
    (case fold (toggle_child (toggle_xml verbs tog gp)) content
        (Inr (False, [], snd (read_verbs_file verbs g))) of
       Inl err \<Rightarrow> Inl err
     | Inr (changed, cs, g1) \<Rightarrow> after_toggle gp changed (Xml LIST name t cs cw ct ca) g1)"
proof -
  have "toggle_child (toggle_xml verbs tog gp) = (\<lambda>c acc. case acc of
              Inl err \<Rightarrow> Inl err
            | Inr (changed, cs, g) \<Rightarrow>
                (case toggle_xml verbs tog gp c g of
                   Inl err \<Rightarrow> Inl err
                 | Inr (r, c', g') \<Rightarrow> Inr (changed \<or> r = 0, cs @ [c'], g')))"
    by (intro ext) (simp add: toggle_child_def)
  then show ?thesis
    by (simp only: toggle_xml.simps Let_def assms not_False_eq_True simp_thms if_True if_False)
qed

lemma fold_toggle_child_Inl: "fold (toggle_child f) cs (Inl err) = Inl err"
  by (induction cs) simp_all

definition toggle_good :: "xml_obj \<Rightarrow> nat \<Rightarrow> xml_obj \<Rightarrow> bool" where
  "toggle_good x r x' \<longleftrightarrow> r \<le> 1 \<and> (r = 1 \<longrightarrow> x' = x) \<and> (coherent x \<longrightarrow> coherent x')"

lemma fold_toggle_child:
  "fold (toggle_child f) cs (Inr (b, ds, g)) = Inr (b', es, g') \<Longrightarrow>
    (\<And>c g r c' g'. c \<in> set cs \<Longrightarrow> f c g = Inr (r, c', g') \<Longrightarrow> toggle_good c r c') \<Longrightarrow>
    \<exists>es'. es = ds @ es' \<and> (b \<longrightarrow> b') \<and> (\<not> b' \<longrightarrow> es' = cs)
      \<and> (list_all coherent cs \<longrightarrow> list_all coherent es')"
proof (induction cs arbitrary: b ds g)
  case Nil
  then show ?case by simp
next
  case (Cons c cs)
  show ?case
  proof (cases "f c g")
    case (Inl err)
    then show ?thesis using Cons.prems(1) by (simp add: fold_toggle_child_Inl)
  next
    case (Inr rcg)
    obtain r c1 g1 where rcg: "rcg = (r, c1, g1)" by (cases rcg)
    have good: "toggle_good c r c1" using Cons.prems(2) Inr rcg by simp
    have "fold (toggle_child f) cs (Inr (b \<or> r = 0, ds @ [c1], g1)) = Inr (b', es, g')"
      using Cons.prems(1) by (simp add: Inr rcg)
    from Cons.IH [OF this] Cons.prems(2) obtain es' where
      "es = (ds @ [c1]) @ es'" "b \<or> r = 0 \<longrightarrow> b'" "\<not> b' \<longrightarrow> es' = cs"
      "list_all coherent cs \<longrightarrow> list_all coherent es'" by auto
    then show ?thesis
      using good by (intro exI [of _ "c1 # es'"]) (auto simp: toggle_good_def le_Suc_eq)
  qed
qed

lemma after_toggle_good:
  assumes "after_toggle gp b y g = Inr (r, x', g')" "\<not> b \<Longrightarrow> y = x"
    and "coherent x \<Longrightarrow> list_all coherent (xcontent y)"
  shows "toggle_good x r x'"
proof (cases b)
  case False
  then show ?thesis using assms by (simp add: after_toggle_def toggle_good_def)
next
  case True
  then obtain g1 where "prepare_tags gp (reset_cache y) g = Inr (x', g1)" "r = 0"
    using assms(1) by (auto simp: after_toggle_def split: sum.splits prod.splits)
  then have "same_words (reset_cache y) x'" using prepare_tags_same by blast
  then show ?thesis
    using assms(3) \<open>r = 0\<close> by (simp add: toggle_good_def same_words_def coherent_eq [of "reset_cache y"])
qed

lemma toggled_text_coherent: "coherent (toggled_text w)"
  by (simp add: toggled_text_def coherent_eq xml_set_text_def new_xml_def)

lemma toggle_xml_good: "toggle_xml verbs tog gp x g = Inr (r, x', g') \<Longrightarrow> toggle_good x r x'"
proof (induction x arbitrary: g r x' g')
  case (Xml m name t content cw ct ca)
  let ?x = "Xml m name t content cw ct ca"
  define g0 where "g0 = snd (read_verbs_file verbs g)"
  consider (leaf) "\<not> (m = LIST \<and> content \<noteq> [])"
    | (syn) "m = LIST" "content \<noteq> []" "name = ''synonyms''"
    | (list) "m = LIST" "content \<noteq> []" "name \<noteq> ''synonyms''" by blast
  then show ?case
  proof cases
    case leaf
    then show ?thesis using Xml.prems by (auto simp: toggle_good_def Let_def)
  next
    case syn
    obtain q w g1 where tog: "tog (print_text (hd content)) g0 = Inr (q, w, g1)"
      using Xml.prems syn by (cases "tog (print_text (hd content)) g0") (auto simp: g0_def [symmetric] Let_def)
    have "after_toggle gp (q = 0)
        (Xml m name t (if q = 0 then toggled_text w # tl content else content) cw ct ca) g1 = Inr (r, x', g')"
      using Xml.prems syn tog by (simp add: g0_def [symmetric] Let_def)
    then show ?thesis
      by (rule after_toggle_good)
        (auto simp: coherent.simps toggled_text_coherent list_all_iff dest: list.set_sel(2) [OF syn(2)])
  next
    case list
    let ?f = "fold (toggle_child (toggle_xml verbs tog gp)) content (Inr (False, [], g0))"
    have res: "(case ?f of Inl err \<Rightarrow> Inl err
      | Inr (changed, cs, g1) \<Rightarrow> after_toggle gp changed (Xml m name t cs cw ct ca) g1) = Inr (r, x', g')"
      using Xml.prems unfolding list(1) toggle_xml_list [OF list(2,3)] g0_def .
    then obtain b cs g1 where f: "?f = Inr (b, cs, g1)" by (cases ?f) auto
    have "(\<not> b \<longrightarrow> cs = content) \<and> (list_all coherent content \<longrightarrow> list_all coherent cs)"
      using fold_toggle_child [OF f] Xml.IH by auto
    then show ?thesis
      using res f by (intro after_toggle_good [of gp b "Xml m name t cs cw ct ca" g1 r x' g'])
        (auto simp: coherent.simps)
  qed
qed

section \<open>Properties\<close>

text \<open>C19. Trimming a sentence merges the subjects, the objects, the adverbs and the verbs of every
  node and moves them to the front; when the nodes with these names are lists, no word is lost or
  doubled, whatever the nesting, and the caches that were right stay right.\<close>

theorem trim_keeps_words:
  assumes "role_lists x"
  shows "mset (words_of (trim_xml x)) = mset (words_of x) \<and> (coherent x \<longrightarrow> coherent (trim_xml x))"
  using trim_words [OF assms] trim_coherent [OF assms] by simp

definition trim_example :: xml_obj where
  "trim_example =
    (let node = (\<lambda>n cs. push_all cs (set_name n (new_xml LIST))); t = (\<lambda>s. node ''text'' [from_text s])
     in node ''clause'' [node ''verb'' [t ''is''], node ''subject'' [t ''a cat''],
          node ''extra'' [t ''here''], node ''subject'' [t ''dog'']])"

theorem trim_keeps_words_witness:
  "mset (words_of (trim_xml trim_example)) = mset (words_of trim_example)
    \<and> words_of (trim_xml trim_example) = [''a'', ''cat'', ''dog'', ''is'', ''here'']
    \<and> words_of trim_example = [''is'', ''a'', ''cat'', ''here'', ''dog'']"
proof -
  have "role_lists trim_example" by code_simp
  from trim_keeps_words [OF this] have "mset (words_of (trim_xml trim_example)) = mset (words_of trim_example)" ..
  moreover have "words_of (trim_xml trim_example) = [''a'', ''cat'', ''dog'', ''is'', ''here'']" by code_simp
  moreover have "words_of trim_example = [''is'', ''a'', ''cat'', ''here'', ''dog'']" by code_simp
  ultimately show ?thesis by blast
qed

text \<open>C20. While the caches of a tree are right, the words that a node reports are those of its
  texts, and stay so: adding children, resetting, preparing words and preparing tags (whatever the
  tagger answers) keep all caches right, and preparing tags changes no word.\<close>

theorem caches_stay_right:
  assumes "coherent x"
  shows "map wtext (fst (get_words x)) = words_of x
    \<and> coherent (snd (get_words x)) \<and> coherent (reset_cache x) \<and> coherent (set_content [] (reset_cache x))
    \<and> (\<forall>i. coherent i \<longrightarrow> coherent (push i x))
    \<and> (\<forall>is. list_all coherent is \<longrightarrow> coherent (push_all is x))
    \<and> (\<forall>gp g x' g'. prepare_tags gp x g = Inr (x', g') \<longrightarrow> coherent x' \<and> words_of x' = words_of x)"
proof (intro conjI allI impI)
  fix gp g x' g' assume "prepare_tags gp x g = Inr (x', g')"
  then have "same_words x x'" by (rule prepare_tags_same)
  then show "coherent x'" "words_of x' = words_of x" using assms by (simp_all add: same_words_def)
qed (use assms get_words_right in \<open>auto simp: get_words_def Let_def coherent_eq [of "set_content _ _"]
        intro: coherent_reset coherent_push coherent_push_all prepare_words_coherent\<close>)

theorem caches_stay_right_witness:
  "map wtext (fst (get_words trim_example)) = [''is'', ''a'', ''cat'', ''here'', ''dog'']"
proof -
  have "coherent trim_example" by code_simp
  from caches_stay_right [OF this] have "map wtext (fst (get_words trim_example)) = words_of trim_example" ..
  also have "\<dots> = [''is'', ''a'', ''cat'', ''here'', ''dog'']" by code_simp
  finally show ?thesis .
qed

text \<open>Setting the text of a node by a string leaves its cache as it is: once the words were
  prepared, every later text is ignored and the node keeps reporting the words of its first text.
  Setting it by a word puts that word into the cache.\<close>

theorem set_text_keeps_old_words:
  "fst (get_words (xml_set_text s (prepare_words x))) = fst (get_words x)
    \<and> xtext (xml_set_text s (prepare_words x)) = trim_text s
    \<and> fst (get_words (xml_set_word w x)) = [w] \<and> xtext (xml_set_word w x) = wtext w"
proof -
  have *: "cached_words y \<Longrightarrow> prepare_words y = y" for y by (cases y) simp
  show ?thesis
    by (simp add: get_words_def Let_def * [of "xml_set_text s _"] * [of "xml_set_word w _"]) 
      (simp add: xml_set_text_def xml_set_word_def)
qed

text \<open>Changing the person of a fact: when no word changed, the answer is 1 and the tree is the
  same; otherwise the answer is 0. In both cases caches that were right stay right.\<close>

theorem toggle_keeps_caches:
  assumes "toggle_xml verbs tog gp x g = Inr (r, x', g')"
  shows "r \<in> {0, 1} \<and> (r = 1 \<longrightarrow> x' = x) \<and> (coherent x \<longrightarrow> coherent x')"
  using toggle_xml_good [OF assms] by (auto simp: toggle_good_def le_Suc_eq)

definition swap_person :: "string \<Rightarrow> tagger \<Rightarrow> rx_error + (nat \<times> string \<times> tagger)" where
  "swap_person w g = Inr (if w = ''bin'' then (0, ''bist'', g) else (1, w, g))"

definition plain_pos :: "string \<Rightarrow> tagger \<Rightarrow> rx_error + (tags \<times> tagger)" where
  "plain_pos w g = Inr ((''v'', []), g)"

definition plain_tagger :: tagger where
  "plain_tagger =
    \<lparr>verbose = True, buffered = False, lang = [], path = [], tg_type = [], tg_genus = [], regex_type = [],
     regex_genus = [], togglemap = [], custom_names = [], tg_written = []\<rparr>"

definition toggle_example :: xml_obj where
  "toggle_example =
    (let node = (\<lambda>n cs. push_all cs (set_name n (new_xml LIST))); t = (\<lambda>s. node ''text'' [from_text s])
     in snd (get_words (node ''clause'' [node ''subject'' [node ''synonyms'' [t ''ich'']],
          node ''verb'' [node ''synonyms'' [t ''bin'', t ''sein'']]])))"

theorem toggle_keeps_caches_witness:
  "\<exists>x' g'. toggle_xml None swap_person plain_pos toggle_example plain_tagger = Inr (0, x', g')
    \<and> coherent x' \<and> map wtext (fst (get_words x')) = [''ich'', ''bist'', ''sein'']"
proof -
  have "case toggle_xml None swap_person plain_pos toggle_example plain_tagger of
      Inl _ \<Rightarrow> False
    | Inr (r, x', _) \<Rightarrow> r = 0 \<and> map wtext (fst (get_words x')) = [''ich'', ''bist'', ''sein'']"
    by code_simp
  then obtain x' g' where
    x': "toggle_xml None swap_person plain_pos toggle_example plain_tagger = Inr (0, x', g')"
      "map wtext (fst (get_words x')) = [''ich'', ''bist'', ''sein'']"
    by (auto split: sum.splits prod.splits)
  have "coherent toggle_example" by code_simp
  then have "coherent x'" using toggle_keeps_caches [OF x'(1)] by simp
  then show ?thesis using x' by (intro exI conjI)
qed

end
