(* ===== verification/XmlReader.thy ===== *)
theory XmlReader
  imports Xml2012
begin

text \<open>
  The reader of fact files in \<^verbatim>\<open>hal2012-xml2012.cpp\<close> and \<^verbatim>\<open>hal2012-xml2012.hpp\<close>:
  \<^verbatim>\<open>halxml_ordertags\<close> puts every tag and every text on a line of its own,
  \<^verbatim>\<open>halxml_readtree\<close> builds a tree from the lines, \<^verbatim>\<open>halxml_readfacts\<close> hands the facts of
  a file to a database one by one.

  A vector of lines and the index into it are the list of the lines from the index on. Reading a
  line behind the last one is the error \<open>Out_of_range\<close>.

  The lemmas show that the reader ends on every input, what it can fail on, that what it builds is
  well formed, and that it reads back what \<^verbatim>\<open>print_xml\<close> writes.
\<close>

section \<open>Lines\<close>

definition is_blank :: "char \<Rightarrow> bool" where
  "is_blank c \<longleftrightarrow> c = newline \<or> c = CHR 0x0D \<or> c = CHR 0x09 \<or> c = CHR '' ''"

text \<open>\<open>prev\<close> is \<^verbatim>\<open>_num\<close>, the byte before; \<open>sp\<close> is \<^verbatim>\<open>is_space\<close>.\<close>

fun order_chars :: "char \<Rightarrow> bool \<Rightarrow> string \<Rightarrow> string" where
  "order_chars prev sp [] = []"
| "order_chars prev sp (c # cs) =
    (if is_blank c then
       (if \<not> sp \<and> prev \<noteq> CHR ''>'' then '' '' else []) @ order_chars c True cs
     else
       (if c = CHR ''>'' then [newline]
        else if prev = CHR ''<'' then
          (if c = CHR ''/'' then ''>'' @ [newline] else ''<'' @ [newline] @ [c])
        else if c = CHR ''<'' then (if prev \<noteq> CHR ''>'' then [newline] else [])
        else [c])
       @ order_chars c False cs)"

definition ordertags :: "string \<Rightarrow> string \<Rightarrow> string" where
  "ordertags indata predata = predata @ order_chars (CHR 0x00) False indata"

section \<open>Trees\<close>

datatype read_error = Out_of_range

definition is_default :: "string \<Rightarrow> bool" where
  "is_default t \<longleftrightarrow> t = ''00000'' \<or> starts_with t ''0.50''"

definition short_truth :: "string \<Rightarrow> string" where
  "short_truth t = (if starts_with t ''0.0'' then ''0'' else if starts_with t ''1.0'' then ''1'' else t)"

definition text_node :: "string \<Rightarrow> xml_obj" where
  "text_node t = xml_set_text (short_truth t) (new_xml TEXT)"

definition add_text :: "string \<Rightarrow> string \<Rightarrow> xml_obj \<Rightarrow> xml_obj" where
  "add_text tag t tree =
    (if is_default t then tree
     else if tag = ''text'' then push (text_node t) tree
     else push (push (text_node t) (set_name ''text'' (new_xml LIST))) tree)"

text \<open>The loop of \<^verbatim>\<open>halxml_readtree\<close>. It leaves the index on the name of the closing tag, and the
  caller steps over it.\<close>

function (domintros) read_loop ::
  "string \<Rightarrow> xml_obj \<Rightarrow> string list \<Rightarrow> read_error + (xml_obj \<times> string list)"
where
  "read_loop tag tree [] = Inr (tree, [])"
| "read_loop tag tree (l # r) =
    (if l = ''>'' then
       (case r of
          [] \<Rightarrow> Inl Out_of_range
        | n # r' \<Rightarrow> if n = tag then Inr (tree, n # r') else read_loop tag tree r')
     else if l = ''<'' then
       (case r of
          [] \<Rightarrow> Inl Out_of_range
        | n # r' \<Rightarrow>
            (case read_loop n (set_name n (new_xml LIST)) r' of
               Inl err \<Rightarrow> Inl err
             | Inr (sub, q) \<Rightarrow>
                 read_loop tag (if xcontent sub \<noteq> [] then push sub tree else tree) (tl q)))
     else if l \<noteq> [] then read_loop tag (add_text tag l tree) r
     else read_loop tag tree r)"
  by pat_completeness auto

lemma read_loop_rest:
  "read_loop_dom (tag, tree, ls) \<Longrightarrow>
    case read_loop tag tree ls of Inl err \<Rightarrow> True | Inr (t, q) \<Rightarrow> length q \<le> length ls"
proof (induction tag tree ls rule: read_loop.pinduct)
  case (1 tag tree)
  then show ?case by (simp add: read_loop.psimps)
next
  case (2 tag tree l r)
  note eq = read_loop.psimps(2) [OF "2.hyps"]
  consider "l = ''>''" | "l \<noteq> ''>''" "l = ''<''" | "l \<noteq> ''>''" "l \<noteq> ''<''" "l \<noteq> []" | "l = []"
    by blast
  then show ?case
  proof cases
    case 1
    then show ?thesis
    proof (cases r)
      case (Cons n r')
      then show ?thesis
        using 1 "2.IH"(1) [of n r'] unfolding eq by (cases "n = tag") (auto split: sum.splits)
    qed (unfold eq, simp)
  next
    case two: 2
    then show ?thesis
    proof (cases r)
      case (Cons n r')
      note sub = "2.IH"(2) [OF two Cons]
      show ?thesis
      proof (cases "read_loop n (set_name n (new_xml LIST)) r'")
        case (Inl err)
        then show ?thesis using two Cons unfolding eq by simp
      next
        case (Inr sq)
        obtain u q where sq: "sq = (u, q)" by (cases sq)
        have "length q \<le> length r'" using sub Inr sq by simp
        then show ?thesis
          using two Cons Inr sq "2.IH"(3) [OF two Cons Inr sq [symmetric]] unfolding eq
          by (auto split: sum.splits prod.splits)
      qed
    qed (unfold eq, simp)
  next
    case 3
    then show ?thesis using "2.IH"(4) unfolding eq by (auto split: sum.splits)
  next
    case 4
    then show ?thesis using "2.IH"(5) unfolding eq by (auto split: sum.splits)
  qed
qed

termination read_loop
proof (relation "measure (\<lambda>(tag, tree, ls). length ls)", goal_cases)
  case 1
  then show ?case by simp
next
  case (4 tag tree l r n r' res sub q)
  then show ?case
    using read_loop_rest [of n "set_name n (new_xml LIST)" r'] by (auto split: sum.splits)
qed auto

lemma read_loop_all: "read_loop_dom (tag, tree, ls)"
proof (induction tag tree ls rule: read_loop.induct)
  case (2 tag tree l r)
  show ?case
  proof (rule read_loop.domintros(2), goal_cases)
    case (1 n r')
    then show ?case using "2.IH"(1) by blast
  next
    case (2 n r')
    then show ?case using "2.IH"(2) by blast
  next
    case (3 n r' sub q)
    then show ?case using "2.IH"(3) [of n r' "(sub, q)" sub q] by simp
  next
    case (4 n r' sub q)
    then show ?case using "2.IH"(3) [of n r' "(sub, q)" sub q] by simp
  next
    case 5
    then show ?case using "2.IH"(4) by blast
  next
    case 6
    then show ?case using "2.IH"(5) by blast
  qed
qed (rule read_loop.domintros(1))

definition read_tree :: "xml_obj \<Rightarrow> string \<Rightarrow> string list \<Rightarrow> read_error + (xml_obj \<times> string list)" where
  "read_tree tree tag ls = read_loop tag (set_name tag tree) ls"

definition read_fact :: "string list \<Rightarrow> read_error + (xml_fact \<times> string list)" where
  "read_fact ls =
    (case read_tree (fact_obj new_fact) ''fact'' ls of
       Inl err \<Rightarrow> Inl err
     | Inr (x, q) \<Rightarrow> Inr (new_fact\<lparr>fact_obj := x\<rparr>, q))"

section \<open>Facts\<close>

text \<open>The numbers that \<^verbatim>\<open>use_xml_fact\<close> prints while it works are not modelled; the first loop
  of \<^verbatim>\<open>halxml_readfacts\<close>, which counts the facts for them, is.\<close>

fun count_facts :: "string list \<Rightarrow> read_error + nat" where
  "count_facts [] = Inr 0"
| "count_facts (l # r) =
    (if l = ''<'' then
       (case r of
          [] \<Rightarrow> Inl Out_of_range
        | n # r' \<Rightarrow>
            (case count_facts r' of
               Inl err \<Rightarrow> Inl err
             | Inr k \<Rightarrow> Inr (if n = ''fact'' then Suc k else k)))
     else count_facts r)"

definition use_xml_fact :: "(xml_fact \<Rightarrow> 'd \<Rightarrow> 'd) \<Rightarrow> string \<Rightarrow> nat \<Rightarrow> xml_fact \<Rightarrow> 'd \<Rightarrow> 'd" where
  "use_xml_fact insert_fact filename k x d =
    insert_fact (x\<lparr>fact_file := filename, fact_line := show_nat (k + 1)\<rparr>) d"

lemma read_fact_rest: "read_fact ls = Inr (x, q) \<Longrightarrow> length q \<le> length ls"
  using read_loop_rest [of "''fact''" "set_name ''fact'' (fact_obj new_fact)" ls] read_loop_all
  by (auto simp: read_fact_def read_tree_def split: sum.splits)

function read_facts_loop ::
  "(xml_fact \<Rightarrow> 'd \<Rightarrow> 'd) \<Rightarrow> string \<Rightarrow> string list \<Rightarrow> nat \<Rightarrow> 'd \<Rightarrow> read_error + (nat \<times> 'd)"
where
  "read_facts_loop ins filename [] k d = Inr (k, d)"
| "read_facts_loop ins filename (l # r) k d =
    (if l = ''<'' then
       (case r of
          [] \<Rightarrow> Inl Out_of_range
        | n # r' \<Rightarrow>
            if n = ''fact'' then
              (case read_fact r' of
                 Inl err \<Rightarrow> Inl err
               | Inr (x, q) \<Rightarrow>
                   read_facts_loop ins filename (tl q) (k + 1) (use_xml_fact ins filename k x d))
            else read_facts_loop ins filename r' k d)
     else read_facts_loop ins filename r k d)"
  by pat_completeness auto
termination
proof (relation "measure (\<lambda>(ins, filename, ls, k, d). length ls)", goal_cases)
  case 1
  then show ?case by simp
next
  case (2 ins filename l r k d n r' res x q)
  then show ?case using read_fact_rest [of r' x q] by simp
qed auto

definition read_facts ::
  "(xml_fact \<Rightarrow> 'd \<Rightarrow> 'd) \<Rightarrow> string \<Rightarrow> string \<Rightarrow> 'd \<Rightarrow> read_error + (nat \<times> 'd)"
where
  "read_facts ins filename prestr d =
    (let lines = split_lines prestr in
     case count_facts lines of
       Inl err \<Rightarrow> Inl err
     | Inr _ \<Rightarrow> read_facts_loop ins filename lines 0 d)"

section \<open>The loop of the reader\<close>

declare read_loop.simps [simp del]

lemma read_loop_simps [simp]:
  "read_loop tag tree [] = Inr (tree, [])"
  "read_loop tag tree [''>''] = Inl Out_of_range"
  "read_loop tag tree [''<''] = Inl Out_of_range"
  "read_loop tag tree (''>'' # n # r) = (if n = tag then Inr (tree, n # r) else read_loop tag tree r)"
  "read_loop tag tree ([] # r) = read_loop tag tree r"
  by (simp_all add: read_loop.simps)

lemma read_loop_sub:
  "read_loop tag tree (''<'' # n # r) =
    (case read_loop n (set_name n (new_xml LIST)) r of
       Inl err \<Rightarrow> Inl err
     | Inr (sub, q) \<Rightarrow> read_loop tag (if xcontent sub \<noteq> [] then push sub tree else tree) (tl q))"
  by (simp add: read_loop.simps)

lemma read_loop_line:
  "l \<noteq> ''>'' \<Longrightarrow> l \<noteq> ''<'' \<Longrightarrow> l \<noteq> [] \<Longrightarrow> read_loop tag tree (l # r) = read_loop tag (add_text tag l tree) r"
  by (simp add: read_loop.simps)

lemma read_loop_induct [case_names Nil last close sub line blank]:
  assumes "\<And>tag tree. P tag tree []"
    and "\<And>tag tree l. l = ''>'' \<or> l = ''<'' \<Longrightarrow> P tag tree [l]"
    and "\<And>tag tree n r. P tag tree r \<Longrightarrow> P tag tree (''>'' # n # r)"
    and "\<And>tag tree n r. P n (set_name n (new_xml LIST)) r \<Longrightarrow>
      (\<And>u q. read_loop n (set_name n (new_xml LIST)) r = Inr (u, q) \<Longrightarrow>
        P tag (if xcontent u \<noteq> [] then push u tree else tree) (tl q)) \<Longrightarrow>
      P tag tree (''<'' # n # r)"
    and "\<And>tag tree l r. l \<noteq> ''>'' \<Longrightarrow> l \<noteq> ''<'' \<Longrightarrow> l \<noteq> [] \<Longrightarrow> P tag (add_text tag l tree) r \<Longrightarrow>
      P tag tree (l # r)"
    and "\<And>tag tree r. P tag tree r \<Longrightarrow> P tag tree ([] # r)"
  shows "P tag tree ls"
proof (induction ls arbitrary: tag tree rule: measure_induct_rule [of length])
  case (less ls)
  show ?case
  proof (cases ls)
    case Nil
    then show ?thesis using assms(1) by simp
  next
    case (Cons l r)
    have r: "P t u r" for t u using less Cons by simp
    consider "l = ''>'' \<or> l = ''<''" "r = []" | n r' where "l = ''>''" "r = n # r'"
      | n r' where "l = ''<''" "r = n # r'" | "l \<noteq> ''>''" "l \<noteq> ''<''" "l \<noteq> []" | "l = []"
      by (cases r) auto
    then show ?thesis
    proof cases
      case 1
      then show ?thesis using assms(2) Cons by simp
    next
      case 2
      then show ?thesis using assms(3) [OF less] Cons by simp
    next
      case 3
      have "P t u (tl q)" if "read_loop n (set_name n (new_xml LIST)) r' = Inr (v, q)" for t u v q
        using read_loop_rest [of n "set_name n (new_xml LIST)" r'] read_loop_all that Cons 3
        by (intro less) auto
      then show ?thesis using assms(4) [of n r'] less Cons 3 by simp
    next
      case 4
      then show ?thesis using assms(5) r Cons by simp
    next
      case 5
      then show ?thesis using assms(6) r Cons by simp
    qed
  qed
qed

lemma suffix_tl: "suffix q r \<Longrightarrow> suffix (tl q) r"
  by (cases q) (auto dest: suffix_ConsD)

lemma read_loop_suffix: "read_loop tag tree ls = Inr (t, q) \<Longrightarrow> suffix q ls"
proof (induction tag tree ls arbitrary: t q rule: read_loop_induct)
  case (close tag tree n r)
  then show ?case by (auto split: if_splits intro: suffix_ConsI)
next
  case (sub tag tree n r)
  then obtain u p where u: "read_loop n (set_name n (new_xml LIST)) r = Inr (u, p)"
    by (auto simp: read_loop_sub split: sum.splits)
  then have "suffix q (tl p)" "suffix p r"
    using sub by (auto simp: read_loop_sub)
  then have "suffix q r" using suffix_tl suffix_order.order_trans by blast
  then show ?case by (simp add: suffix_ConsI)
qed (auto simp: read_loop_line intro: suffix_ConsI)

lemma read_loop_error: "read_loop tag tree ls = Inl err \<Longrightarrow> ls \<noteq> [] \<and> last ls \<in> {''>'', ''<''}"
proof (induction tag tree ls rule: read_loop_induct)
  case (sub tag tree n r)
  show ?case
  proof (cases "read_loop n (set_name n (new_xml LIST)) r")
    case (Inl e)
    then show ?thesis using sub by (auto simp: read_loop_sub)
  next
    case (Inr up)
    obtain u p where u: "up = (u, p)" by (cases up)
    then have "tl p \<noteq> []" "last (tl p) \<in> {''>'', ''<''}"
      using sub Inr by (auto simp: read_loop_sub)
    moreover have "suffix (tl p) r" using read_loop_suffix Inr u suffix_tl by blast
    ultimately show ?thesis by (auto simp: suffix_def)
  qed
qed (auto simp: read_loop_line split: if_splits)

section \<open>What the reader builds\<close>

text \<open>No caches, no empty lists below the root, texts trimmed, and texts only in lists named
  \<open>text\<close>.\<close>

fun well_read :: "xml_obj \<Rightarrow> bool" where
  "well_read (Xml m name t content cw ct ca) =
    (\<not> cw \<and> \<not> ct \<and> m \<noteq> ANY \<and> (m = TEXT \<longrightarrow> content = [] \<and> trim_text t = t)
     \<and> list_all (\<lambda>c. well_read c \<and> (xmode c = TEXT \<longrightarrow> name = ''text'') \<and> (xmode c = LIST \<longrightarrow> xcontent c \<noteq> []))
         content)"

lemma well_read_eq:
  "well_read x \<longleftrightarrow> \<not> cached_words x \<and> \<not> cached_tags x \<and> xmode x \<noteq> ANY
    \<and> (xmode x = TEXT \<longrightarrow> xcontent x = [] \<and> trim_text (xtext x) = xtext x)
    \<and> list_all (\<lambda>c. well_read c \<and> (xmode c = TEXT \<longrightarrow> xname x = ''text'') \<and> (xmode c = LIST \<longrightarrow> xcontent c \<noteq> []))
        (xcontent x)"
  by (cases x) simp

declare well_read.simps [simp del]

lemma push_tags [simp]: "\<not> cached_tags (push i x)"
  by (simp add: push_def)

lemma set_name_tags [simp]: "cached_tags (set_name n x) = cached_tags x"
  by (simp add: set_name_def)

lemma well_read_push:
  assumes "well_read x" "xmode x = LIST" "well_read c" "xmode c = TEXT \<longrightarrow> xname x = ''text''"
    and "xmode c = LIST \<longrightarrow> xcontent c \<noteq> []"
  shows "well_read (push c x)"
  using assms by (simp add: well_read_eq [of "push c x"] well_read_eq [of x])

lemma well_read_new: "well_read (set_name n (new_xml LIST))"
  by (simp add: well_read_eq [of "set_name _ _"])

lemma text_node_sel [simp]:
  "xmode (text_node t) = TEXT" "xcontent (text_node t) = []" "cached_words (text_node t) = False"
  "cached_tags (text_node t) = False" "xtext (text_node t) = trim_text (short_truth t)"
  by (simp_all add: text_node_def xml_set_text_def)

lemma well_read_text: "well_read (text_node t)"
  by (simp add: well_read_eq [of "text_node t"]) (simp add: trim_text_def)

lemma add_text_sel [simp]: "xmode (add_text tag l x) = xmode x" "xname (add_text tag l x) = xname x"
  by (simp_all add: add_text_def)

lemma well_read_add:
  assumes "well_read x" "xmode x = LIST" "xname x = tag"
  shows "well_read (add_text tag l x)"
proof -
  have "well_read (push (text_node l) (set_name ''text'' (new_xml LIST)))"
    by (intro well_read_push) (simp_all add: well_read_new well_read_text)
  then show ?thesis
    using assms by (auto simp: add_text_def intro!: well_read_push well_read_text)
qed

lemma read_loop_well:
  "read_loop tag tree ls = Inr (x, q) \<Longrightarrow> well_read tree \<Longrightarrow> xmode tree = LIST \<Longrightarrow> xname tree = tag \<Longrightarrow>
    well_read x \<and> xmode x = LIST \<and> xname x = tag"
proof (induction tag tree ls arbitrary: x q rule: read_loop_induct)
  case (close tag tree n r)
  then show ?case by (auto split: if_splits)
next
  case (sub tag tree n r)
  then obtain u p where u: "read_loop n (set_name n (new_xml LIST)) r = Inr (u, p)"
    by (auto simp: read_loop_sub split: sum.splits)
  have w: "well_read u" "xmode u = LIST"
    using sub.IH(1) [OF u] well_read_new by simp_all
  let ?t = "if xcontent u \<noteq> [] then push u tree else tree"
  have "well_read ?t" "xmode ?t = LIST" "xname ?t = tag"
    using w sub.prems by (auto intro: well_read_push)
  moreover have "read_loop tag ?t (tl p) = Inr (x, q)"
    using sub.prems(1) u by (simp add: read_loop_sub)
  ultimately show ?case using sub.IH(2) [OF u] by blast
next
  case (line tag tree l r)
  then show ?case using well_read_add by (simp add: read_loop_line)
qed auto

lemma well_read_coherent: "well_read x \<Longrightarrow> coherent x"
proof (induction x)
  case (Xml m name t content cw ct ca)
  then show ?case by (simp add: well_read.simps coherent.simps list_all_iff)
qed

section \<open>Reading what was printed\<close>

text \<open>A tree without its caches, as the reader would build it.\<close>

fun bare :: "xml_obj \<Rightarrow> xml_obj" where
  "bare (Xml m name t content cw ct ca) =
    (if m = TEXT then Xml TEXT [] t [] False False []
     else Xml m name [] (map bare content) False False [])"

definition clean_name :: "string \<Rightarrow> bool" where
  "clean_name n \<longleftrightarrow> n \<noteq> [] \<and> hd n \<noteq> CHR ''/'' \<and> list_all (\<lambda>c. \<not> is_blank c \<and> c \<noteq> CHR ''<'' \<and> c \<noteq> CHR ''>'') n"

fun single_spaces :: "string \<Rightarrow> bool" where
  "single_spaces (a # b # s) = (\<not> (a = CHR '' '' \<and> b = CHR '' '') \<and> single_spaces (b # s))"
| "single_spaces s = True"

definition clean_text :: "string \<Rightarrow> bool" where
  "clean_text s \<longleftrightarrow> s \<noteq> [] \<and> trim_text s = s \<and> single_spaces s \<and> \<not> is_default s
    \<and> \<not> starts_with s ''0.0'' \<and> \<not> starts_with s ''1.0''
    \<and> list_all (\<lambda>c. (is_blank c \<longrightarrow> c = CHR '' '') \<and> c \<noteq> CHR ''<'' \<and> c \<noteq> CHR ''>'') s"

fun canonical :: "xml_obj \<Rightarrow> bool" where
  "canonical (Xml m name t content cw ct ca) =
    (m = LIST \<and> clean_name name
     \<and> (if name = ''text'' then
          (case content of [c] \<Rightarrow> xmode c = TEXT \<and> clean_text (xtext c) | _ \<Rightarrow> False)
        else content \<noteq> [] \<and> list_all canonical content))"

text \<open>The lines of a printed tree; a blank line comes before a tag that does not follow another tag
  directly.\<close>

fun tree_lines :: "bool \<Rightarrow> nat \<Rightarrow> xml_obj \<Rightarrow> string list" where
  "tree_lines blank second0 (Xml m name t content cw ct ca) =
    (let second = (if name = ''clause'' then 0 else second0) in
     (if blank then [[]] else []) @ [''<'', name]
     @ (if name = ''text'' then map xtext content
        else concat (map (tree_lines (second = 0) (Suc second)) content)
             @ (if second = 0 then [[]] else []))
     @ [''>'', name])"

definition unlines :: "string list \<Rightarrow> string" where
  "unlines ls = concat (map (\<lambda>l. l @ [newline]) ls)"

lemma unlines_simps [simp]:
  "unlines [] = []" "unlines (l # ls) = l @ newline # unlines ls" "unlines (ls @ ms) = unlines ls @ unlines ms"
  by (simp_all add: unlines_def)

lemma blank_facts [simp]:
  "is_blank newline" "is_blank (CHR '' '')" "\<not> is_blank (CHR ''<'')" "\<not> is_blank (CHR ''>'')"
  "\<not> is_blank (CHR ''/'')" "newline \<noteq> CHR ''<''" "newline \<noteq> CHR ''>''" "newline \<noteq> CHR ''/''"
  "CHR ''<'' \<noteq> newline" "CHR ''>'' \<noteq> newline"
  by (simp_all add: is_blank_def newline_def)

definition plain_char :: "char \<Rightarrow> bool" where
  "plain_char c \<longleftrightarrow> (is_blank c \<longrightarrow> c = CHR '' '') \<and> c \<noteq> CHR ''<'' \<and> c \<noteq> CHR ''>''"

lemma order_plain:
  "list_all plain_char s \<Longrightarrow> single_spaces s \<Longrightarrow> p \<noteq> CHR ''<'' \<Longrightarrow>
    (s \<noteq> [] \<Longrightarrow> is_blank (hd s) \<Longrightarrow> \<not> sp \<and> p \<noteq> CHR ''>'') \<Longrightarrow>
    order_chars p sp (s @ rest) =
      s @ order_chars (last (p # s)) (if s = [] then sp else is_blank (last s)) rest"
proof (induction s arbitrary: p sp)
  case Nil
  then show ?case by simp
next
  case (Cons c s)
  have c: "c \<noteq> CHR ''<''" "c \<noteq> CHR ''>''" "is_blank c \<Longrightarrow> c = CHR '' ''"
    using Cons.prems(1) by (simp_all add: plain_char_def)
  have ss: "single_spaces s" using Cons.prems(2) by (cases s) simp_all
  have hd: "is_blank (hd s) \<Longrightarrow> \<not> is_blank c" if "s \<noteq> []"
    using that Cons.prems(1,2) c(3) by (cases s) (auto simp: plain_char_def)
  have IH: "order_chars c (is_blank c) (s @ rest) =
      s @ order_chars (last (c # s)) (if s = [] then is_blank c else is_blank (last s)) rest"
    using Cons.prems(1) ss c hd by (intro Cons.IH) auto
  show ?case
  proof (cases "is_blank c")
    case True
    then show ?thesis using Cons.prems(4) IH c(3) by simp
  next
    case False
    then show ?thesis using Cons.prems(3) IH c by simp
  qed
qed

lemma order_blanks:
  "list_all is_blank w \<Longrightarrow> sp \<or> p = CHR ''>'' \<Longrightarrow>
    order_chars p sp (w @ rest) = order_chars (last (p # w)) (if w = [] then sp else True) rest"
proof (induction w arbitrary: p sp)
  case (Cons c w)
  then show ?case using Cons.IH [of True c] by auto
qed simp

lemma clean_name_plain: "clean_name n \<Longrightarrow> list_all plain_char n \<and> single_spaces n"
proof -
  assume n: "clean_name n"
  have "single_spaces s" if "list_all (\<lambda>c. \<not> is_blank c) s" for s
    using that by (induction s rule: single_spaces.induct) auto
  moreover have "list_all (\<lambda>c. \<not> is_blank c) n" "list_all plain_char n"
    using n by (auto simp: clean_name_def plain_char_def list_all_iff)
  ultimately show ?thesis by blast
qed

lemma order_open:
  assumes "clean_name n" "p \<noteq> CHR ''<''"
  shows "order_chars p sp (''<'' @ n @ ''>'' @ rest) =
    (if p \<noteq> CHR ''>'' then [newline] else []) @ unlines [''<'', n] @ order_chars (CHR ''>'') False rest"
proof -
  obtain c m where n: "n = c # m" using assms(1) by (cases n) (auto simp: clean_name_def)
  have c: "\<not> is_blank c" "c \<noteq> CHR ''<''" "c \<noteq> CHR ''>''" "c \<noteq> CHR ''/''"
    using assms(1) n by (auto simp: clean_name_def)
  have "list_all plain_char (c # m)" "single_spaces (c # m)"
    using clean_name_plain [OF assms(1)] n by simp_all
  then have m: "list_all plain_char m" "single_spaces m"
    by simp (use \<open>single_spaces (c # m)\<close> in \<open>cases m; simp\<close>)
  have "m \<noteq> [] \<Longrightarrow> \<not> is_blank (hd m)"
    using assms(1) n by (cases m) (simp_all add: clean_name_def)
  have "order_chars c False (m @ ''>'' @ rest) =
      m @ order_chars (last (c # m)) (if m = [] then False else is_blank (last m)) (''>'' @ rest)"
    using m c \<open>m \<noteq> [] \<Longrightarrow> _\<close> by (intro order_plain) simp_all
  then show ?thesis using assms(2) c n by simp
qed

lemma order_close:
  assumes "clean_name n" "p \<noteq> CHR ''<''"
  shows "order_chars p sp (''</'' @ n @ ''>'' @ rest) =
    (if p \<noteq> CHR ''>'' then [newline] else []) @ unlines [''>'', n] @ order_chars (CHR ''>'') False rest"
proof -
  have n: "list_all plain_char n" "single_spaces n" using clean_name_plain assms(1) by blast+
  have "n \<noteq> []" "\<not> is_blank (hd n)"
    using assms(1) by (auto simp: clean_name_def list_all_iff)
  then have "order_chars (CHR ''/'') False (n @ ''>'' @ rest) =
      n @ order_chars (last (CHR ''/'' # n)) (if n = [] then False else is_blank (last n)) (''>'' @ rest)"
    using n by (intro order_plain) simp_all
  then show ?thesis using assms(2) by simp
qed

definition plain_text :: "string \<Rightarrow> bool" where
  "plain_text s \<longleftrightarrow> s \<noteq> [] \<and> trim_text s = s \<and> single_spaces s \<and> list_all plain_char s"

lemma plain_text_ends:
  assumes "plain_text s"
  shows "list_all plain_char s" "single_spaces s" "s \<noteq> []" "\<not> is_blank (hd s)" "last s \<noteq> CHR ''>''" "last s \<noteq> CHR ''<''"
proof -
  show p: "list_all plain_char s" "single_spaces s" "s \<noteq> []"
    using assms by (simp_all add: plain_text_def)
  have "\<not> is_space (hd s)"
    using assms trim_if_shape [of is_space s] by (auto simp: plain_text_def trim_text_def)
  then show "\<not> is_blank (hd s)"
    by (auto simp: is_blank_def is_space_def newline_def code_def)
  show "last s \<noteq> CHR ''>''" "last s \<noteq> CHR ''<''"
    using p(1) last_in_set [OF p(3)] by (auto simp: list_all_iff plain_char_def)
qed

lemma clean_text_plain_text: "clean_text s \<Longrightarrow> plain_text s"
  by (auto simp: clean_text_def plain_text_def plain_char_def list_all_iff)

lemmas clean_text_plain = plain_text_ends [OF clean_text_plain_text]

lemma indent_blank: "list_all is_blank (indent n)"
  by (induction n) (simp_all add: indent_def)

lemma indent_last: "last (q # indent n) = (if n = 0 then q else CHR '' '')"
proof (induction n arbitrary: q)
  case (Suc n)
  have "last (q # indent (Suc n)) = last (CHR '' '' # indent n)" by (simp add: indent_def)
  then show ?case using Suc [of "CHR '' ''"] by simp
qed (simp add: indent_def)

lemma indent_Nil: "indent n = [] \<longleftrightarrow> n = 0"
  by (cases n) (simp_all add: indent_def)

lemma order_indent:
  "sp \<or> p = CHR ''>'' \<Longrightarrow>
    order_chars p sp (indent n @ rest) =
      order_chars (if n = 0 then p else CHR '' '') (if n = 0 then sp else True) rest"
  using order_blanks [OF indent_blank, of sp p n rest] indent_last [of p n] indent_Nil [of n] by simp

lemma order_text:
  assumes "clean_name n" "plain_text s" "p \<noteq> CHR ''<''"
  shows "order_chars p sp (''<'' @ n @ ''>'' @ s @ ''</'' @ n @ ''>'' @ rest) =
    (if p \<noteq> CHR ''>'' then [newline] else []) @ unlines [''<'', n, s, ''>'', n]
      @ order_chars (CHR ''>'') False rest"
proof -
  note s = plain_text_ends [OF assms(2)]
  have "order_chars (CHR ''>'') False (s @ ''</'' @ n @ ''>'' @ rest) =
      s @ order_chars (last s) (is_blank (last s)) (''</'' @ n @ ''>'' @ rest)"
    using order_plain [of s "CHR ''>''" False] s by simp
  also have "\<dots> = s @ [newline] @ unlines [''>'', n] @ order_chars (CHR ''>'') False rest"
    using order_close [OF assms(1) s(6)] s(5) by simp
  finally show ?thesis using order_open [OF assms(1,3)] by simp
qed

lemma order_print:
  "canonical x \<Longrightarrow> p \<noteq> CHR ''<'' \<Longrightarrow> (xname x = ''text'' \<Longrightarrow> sec \<noteq> 0) \<Longrightarrow>
    order_chars p sp (print_xml_at lv sec x @ rest) =
      unlines (tree_lines (p \<noteq> CHR ''>'') sec x) @ order_chars (CHR ''>'') False rest"
proof (induction x arbitrary: lv sec p sp rest)
  case (Xml m name t content cw ct ca)
  define lv' where "lv' = (if name = ''clause'' then Suc lv else lv)"
  define sec' where "sec' = (if name = ''clause'' then 0 else sec)"
  have m: "m = LIST" and name: "clean_name name" using Xml.prems(1) by simp_all
  show ?case
  proof (cases "name = ''text''")
    case True
    then obtain c where c: "content = [c]" "xmode c = TEXT" "clean_text (xtext c)"
      using Xml.prems(1) by (auto split: list.splits)
    have sec: "sec \<noteq> 0" using Xml.prems(3) True by simp
    have "print_xml_at l s c = xtext c" for l s using c(2) by (cases c) simp
    then have "print_xml_at lv sec (Xml m name t content cw ct ca) =
        ''<'' @ name @ ''>'' @ xtext c @ ''</'' @ name @ ''>''"
      using True m sec c(1) by (simp add: Let_def)
    then show ?thesis
      using order_text [OF name clean_text_plain_text [OF c(3)] Xml.prems(2)] True c(1) by simp
  next
    case False
    have kids: "list_all canonical content" using Xml.prems(1) False by simp
    have IH: "order_chars q u (print_xml_at l (Suc k) c @ r) =
        unlines (tree_lines (q \<noteq> CHR ''>'') (Suc k) c) @ order_chars (CHR ''>'') False r"
      if "c \<in> set content" "q \<noteq> CHR ''<''" for c q u l k r
      using Xml.IH that kids by (simp add: list_all_iff)
    show ?thesis
    proof (cases "sec' = 0")
      case sec: True
      have step: "order_chars q True (concat (map (\<lambda>c. indent (Suc l) @ print_xml_at l (Suc 0) c @ [newline]) cs) @ r)
          = unlines (concat (map (tree_lines True (Suc 0)) cs)) @ order_chars (if cs = [] then q else newline) True r"
        if "set cs \<subseteq> set content" for cs q l r
        using that
      proof (induction cs arbitrary: q)
        case (Cons c cs)
        then show ?case using order_indent [of True q "Suc l"] IH [of c "CHR '' ''"] by simp
      qed simp
      have print: "print_xml_at lv sec (Xml m name t content cw ct ca) =
          ''<'' @ name @ ''>'' @ [newline]
          @ concat (map (\<lambda>c. indent (Suc lv') @ print_xml_at lv' (Suc 0) c @ [newline]) content)
          @ indent lv' @ ''</'' @ name @ ''>''"
        using m sec by (simp add: Let_def lv'_def sec'_def)
      have "order_chars (CHR ''>'') False (newline #
            concat (map (\<lambda>c. indent (Suc lv') @ print_xml_at lv' (Suc 0) c @ [newline]) content)
            @ indent lv' @ ''</'' @ name @ ''>'' @ rest)
          = unlines (concat (map (tree_lines True (Suc 0)) content)) @ [newline] @ unlines [''>'', name]
            @ order_chars (CHR ''>'') False rest"
        using step [of content newline lv'] order_indent [of True newline lv']
          order_close [OF name, of newline] order_close [OF name, of "CHR '' ''"] by simp
      then show ?thesis
        unfolding print using order_open [OF name Xml.prems(2)] False sec by (simp add: sec'_def)
    next
      case sec: False
      have step: "order_chars (CHR ''>'') False (concat (map (print_xml_at l (Suc k)) cs) @ r)
          = unlines (concat (map (tree_lines False (Suc k)) cs)) @ order_chars (CHR ''>'') False r"
        if "set cs \<subseteq> set content" for cs l k r
        using that
      proof (induction cs)
        case (Cons c cs)
        then show ?case using IH [of c "CHR ''>''"] by simp
      qed simp
      have print: "print_xml_at lv sec (Xml m name t content cw ct ca) =
          ''<'' @ name @ ''>'' @ concat (map (print_xml_at lv' (Suc sec')) content) @ ''</'' @ name @ ''>''"
        using m sec by (simp add: Let_def lv'_def sec'_def)
      show ?thesis
        unfolding print
        using order_open [OF name Xml.prems(2)] step [of content lv' sec'] order_close [OF name, of "CHR ''>''"]
          False sec by (simp add: sec'_def)
    qed
  qed
qed

text \<open>Reading the lines of a tree, whatever follows them.\<close>

lemma not_plain: "\<not> plain_char (CHR ''<'')" "\<not> plain_char (CHR ''>'')" "\<not> plain_char newline"
  by (simp_all add: plain_char_def) (simp add: newline_def)

lemma plain_line:
  assumes "list_all plain_char l"
  shows "l \<noteq> ''>''" "l \<noteq> ''<''" "newline \<notin> set l"
  using assms not_plain by (auto simp: list_all_iff)

lemma short_truth_id: "clean_text s \<Longrightarrow> short_truth s = s"
  by (simp add: clean_text_def short_truth_def)

lemma text_node_clean: "clean_text s \<Longrightarrow> text_node s = Xml TEXT [] s [] False False []"
  by (simp add: text_node_def short_truth_id xml_set_text_def new_xml_def) (simp add: clean_text_def)

lemma push_new:
  "push_all cs (set_name n (new_xml LIST)) = Xml LIST n [] cs False False []"
proof -
  have "push_all cs (Xml LIST n [] ds False False []) = Xml LIST n [] (ds @ cs) False False []" for ds
    by (induction cs arbitrary: ds)
      (simp_all add: push_all_def push_def reset_cache_def set_content_def)
  from this [of "[]"] show ?thesis by (simp add: set_name_def new_xml_def)
qed

lemma push_all_Cons: "push_all (c # cs) x = push_all cs (push c x)"
  by (simp add: push_all_def)

text \<open>The lines between the opening and the closing tag build the tree in a new node.\<close>

definition reads_back :: "bool \<Rightarrow> nat \<Rightarrow> xml_obj \<Rightarrow> bool" where
  "reads_back b sec x \<longleftrightarrow>
    (\<exists>body. tree_lines b sec x = (if b then [[]] else []) @ ''<'' # xname x # body
      \<and> (\<forall>rest. read_loop (xname x) (set_name (xname x) (new_xml LIST)) (body @ rest)
            = Inr (bare x, xname x # rest)))"

lemma reads_back_tree:
  assumes "reads_back b sec x" "xcontent (bare x) \<noteq> []"
  shows "read_loop tag tree (tree_lines b sec x @ rest) = read_loop tag (push (bare x) tree) rest"
proof -
  obtain body where "tree_lines b sec x = (if b then [[]] else []) @ ''<'' # xname x # body"
    and "\<And>rest. read_loop (xname x) (set_name (xname x) (new_xml LIST)) (body @ rest)
      = Inr (bare x, xname x # rest)"
    using assms(1) by (auto simp: reads_back_def)
  then show ?thesis using assms(2) by (simp add: read_loop_sub)
qed

lemma canonical_bare: "canonical x \<Longrightarrow> xcontent (bare x) \<noteq> []"
  by (cases x) (auto split: if_splits list.splits)

lemma canonical_reads_back: "canonical x \<Longrightarrow> reads_back b sec x"
proof (induction x arbitrary: b sec)
  case (Xml m name t content cw ct ca)
  define sec' where "sec' = (if name = ''clause'' then 0 else sec)"
  have m: "m = LIST" and name: "clean_name name" using Xml.prems by simp_all
  let ?new = "set_name name (new_xml LIST)"
  let ?x = "Xml m name t content cw ct ca"
  show ?case
  proof (cases "name = ''text''")
    case True
    then obtain c where c: "content = [c]" "xmode c = TEXT" "clean_text (xtext c)"
      using Xml.prems by (auto split: list.splits)
    have bare_c: "bare c = text_node (xtext c)"
      using c(2) text_node_clean [OF c(3)] by (cases c) simp
    have l: "xtext c \<noteq> ''>''" "xtext c \<noteq> ''<''" "xtext c \<noteq> []" "\<not> is_default (xtext c)"
      using plain_line clean_text_plain [OF c(3)] c(3) by (auto simp: clean_text_def)
    have "push (bare c) ?new = bare ?x"
      using push_new [of "[bare c]"] c(1) m by (simp add: push_all_def)
    then have "read_loop name ?new ([xtext c, ''>'', name] @ rest) = Inr (bare ?x, name # rest)" for rest
      using l True bare_c by (simp add: read_loop_line add_text_def)
    moreover have "tree_lines b sec ?x = (if b then [[]] else []) @ ''<'' # name # [xtext c, ''>'', name]"
      using True c(1) by simp
    ultimately show ?thesis unfolding reads_back_def xml_obj.sel by blast
  next
    case False
    then have content: "list_all canonical content" using Xml.prems by simp_all
    let ?body = "concat (map (tree_lines (sec' = 0) (Suc sec')) content)
        @ (if sec' = 0 then [[]] else []) @ [''>'', name]"
    have kids: "read_loop tg tr (concat (map (tree_lines b' k) cs) @ r) = read_loop tg (push_all (map bare cs) tr) r"
      if "set cs \<subseteq> set content" for tg tr b' k cs r
      using that
    proof (induction cs arbitrary: tr)
      case Nil
      then show ?case by (simp add: push_all_def)
    next
      case (Cons c cs)
      then have "canonical c" "reads_back b' k c" using content Xml.IH by (simp_all add: list_all_iff)
      from reads_back_tree [OF this(2) canonical_bare [OF this(1)]] Cons show ?case
        by (simp add: push_all_Cons)
    qed
    have "push_all (map bare content) ?new = bare ?x"
      using push_new [of "map bare content" name] m by simp
    then have "read_loop name ?new (?body @ rest) = Inr (bare ?x, name # rest)" for rest
      using kids [of content name ?new "sec' = 0" "Suc sec'"] by simp
    moreover have "tree_lines b sec ?x = (if b then [[]] else []) @ ''<'' # name # ?body"
      using False by (simp add: sec'_def Let_def)
    ultimately show ?thesis unfolding reads_back_def xml_obj.sel by blast
  qed
qed

section \<open>Whole files\<close>

lemma tree_lines_newline: "canonical x \<Longrightarrow> l \<in> set (tree_lines b sec x) \<Longrightarrow> newline \<notin> set l"
proof (induction x arbitrary: b sec)
  case (Xml m name t content cw ct ca)
  have name: "newline \<notin> set name" using Xml.prems(1) plain_line(3) clean_name_plain by simp
  show ?case
  proof (cases "name = ''text''")
    case True
    then obtain c where c: "content = [c]" "clean_text (xtext c)"
      using Xml.prems(1) by (auto split: list.splits)
    then have "newline \<notin> set (xtext c)" using plain_line(3) clean_text_plain by blast
    then show ?thesis using Xml.prems(2) True c(1) name by (auto split: if_splits)
  next
    case False
    then have "list_all canonical content" using Xml.prems(1) by simp
    then show ?thesis
      using Xml.prems(2) Xml.IH name False by (auto simp: Let_def list_all_iff split: if_splits)
  qed
qed

lemma last_tree_lines: "last (tree_lines b sec x) = xname x" "tree_lines b sec x \<noteq> []"
  by (cases x; simp add: Let_def)+

lemma order_file:
  "list_all (\<lambda>x. canonical x \<and> xname x \<noteq> ''text'') xs \<Longrightarrow> p \<noteq> CHR ''<'' \<Longrightarrow> p \<noteq> CHR ''>'' \<Longrightarrow>
    order_chars p sp (concat (map obj_print_xml xs)) = unlines (concat (map (tree_lines True 0) xs))"
proof (induction xs arbitrary: p sp)
  case (Cons x xs)
  then have "order_chars p sp (print_xml_at 0 0 x @ newline # concat (map obj_print_xml xs))
      = unlines (tree_lines True 0 x) @ order_chars newline True (concat (map obj_print_xml xs))"
    using order_print [of x p 0] by simp
  moreover have "order_chars newline True (concat (map obj_print_xml xs))
      = unlines (concat (map (tree_lines True 0) xs))"
    using Cons.prems(1) by (intro Cons.IH) simp_all
  ultimately show ?case by (simp add: obj_print_xml_def [of x])
qed simp

lemma count_facts_error: "count_facts ls = Inl err \<Longrightarrow> ls \<noteq> [] \<and> last ls = ''<''"
  by (induction ls rule: count_facts.induct) (auto split: if_splits list.splits sum.splits)

lemma read_fact_lines:
  assumes "canonical x" "xname x = ''fact''"
  shows "read_facts_loop ins filename (tree_lines True 0 x @ rest) k d =
    read_facts_loop ins filename rest (k + 1)
      (use_xml_fact ins filename k (new_fact\<lparr>fact_obj := bare x\<rparr>) d)"
proof -
  obtain body where body: "tree_lines True 0 x = [[]] @ ''<'' # ''fact'' # body"
    "\<And>rest. read_loop ''fact'' (set_name ''fact'' (new_xml LIST)) (body @ rest) = Inr (bare x, ''fact'' # rest)"
    using canonical_reads_back [OF assms(1), of True 0] assms(2) by (auto simp: reads_back_def)
  have "set_name ''fact'' (fact_obj new_fact) = set_name ''fact'' (new_xml LIST)"
    by (simp add: new_fact_def set_name_def)
  then have "read_fact (body @ rest) = Inr (new_fact\<lparr>fact_obj := bare x\<rparr>, ''fact'' # rest)"
    using body(2) by (simp add: read_fact_def read_tree_def)
  then show ?thesis using body(1) by simp
qed

lemma read_facts_lines:
  "list_all (\<lambda>x. canonical x \<and> xname x = ''fact'') xs \<Longrightarrow>
    read_facts_loop ins filename (concat (map (tree_lines True 0) xs)) k d =
      Inr (k + length xs, fold (\<lambda>(j, x). use_xml_fact ins filename j (new_fact\<lparr>fact_obj := bare x\<rparr>))
        (enumerate k xs) d)"
proof (induction xs arbitrary: k d)
  case (Cons x xs)
  then show ?case using read_fact_lines [of x ins filename] by simp
qed simp

lemma count_facts_lines:
  assumes "list_all (\<lambda>x. canonical x \<and> xname x = ''fact'') xs"
  shows "\<exists>n. count_facts (concat (map (tree_lines True 0) xs)) = Inr n"
proof (cases "count_facts (concat (map (tree_lines True 0) xs))")
  case (Inl err)
  then have e: "concat (map (tree_lines True 0) xs) \<noteq> []" "last (concat (map (tree_lines True 0) xs)) = ''<''"
    using count_facts_error by blast+
  then have ne: "xs \<noteq> []" by auto
  then have "last (concat (map (tree_lines True 0) xs)) = xname (last xs)"
    by (cases xs rule: rev_cases) (simp_all add: last_tree_lines)
  moreover have "xname (last xs) = ''fact''" using assms last_in_set [OF ne] by (auto simp: list_all_iff)
  ultimately show ?thesis using e(2) by simp
qed simp

lemma read_facts_loop_error:
  "read_facts_loop ins filename ls k d = Inl err \<Longrightarrow> ls \<noteq> [] \<and> last ls \<in> {''>'', ''<''}"
proof (induction ins filename ls k d rule: read_facts_loop.induct)
  case (1 ins filename k d)
  then show ?case by simp
next
  case (2 ins filename l r k d)
  consider "l \<noteq> ''<''" | "l = ''<''" "r = []" | n r' where "l = ''<''" "r = n # r'" "n \<noteq> ''fact''"
    | r' where "l = ''<''" "r = ''fact'' # r'" by (cases r) auto
  then show ?case
  proof cases
    case 1
    then show ?thesis using "2.IH"(3) "2.prems" by auto
  next
    case 2
    then show ?thesis by simp
  next
    case 3
    then show ?thesis using "2.IH"(2) [OF 3] "2.prems" by auto
  next
    case 4
    show ?thesis
    proof (cases "read_fact r'")
      case (Inl e)
      then have "r' \<noteq> []" "last r' \<in> {''>'', ''<''}"
        using read_loop_error by (auto simp: read_fact_def read_tree_def split: sum.splits)
      then show ?thesis using 4 by simp
    next
      case (Inr xq)
      obtain x q where xq: "xq = (x, q)" by (cases xq)
      have "tl q \<noteq> []" "last (tl q) \<in> {''>'', ''<''}"
        using "2.IH"(1) [OF 4 refl Inr xq [symmetric]] "2.prems" 4 Inr xq by auto
      moreover have "suffix (tl q) r'"
        using Inr xq read_loop_suffix suffix_tl
        by (fastforce simp: read_fact_def read_tree_def split: sum.splits)
      ultimately show ?thesis using 4 by (auto simp: suffix_def)
    qed
  qed
qed

lemma read_printed_facts:
  assumes "list_all (\<lambda>x. canonical x \<and> xname x = ''fact'') xs"
  shows "read_facts ins filename (ordertags (concat (map obj_print_xml xs)) []) d =
    Inr (length xs, fold (\<lambda>(j, x). use_xml_fact ins filename j (new_fact\<lparr>fact_obj := bare x\<rparr>)) (enumerate 0 xs) d)"
proof -
  let ?ls = "concat (map (tree_lines True 0) xs)"
  have c: "list_all (\<lambda>x. canonical x \<and> xname x \<noteq> ''text'') xs"
    using assms by (simp add: list_all_iff)
  have "\<forall>l \<in> set ?ls. newline \<notin> set l"
    using assms tree_lines_newline by (fastforce simp: list_all_iff)
  then have "split_lines (ordertags (concat (map obj_print_xml xs)) []) = ?ls"
    using order_file [OF c, of "CHR 0x00" False] split_lines_unlines [of ?ls]
    by (simp add: ordertags_def unlines_def)
  then show ?thesis
    using count_facts_lines [OF assms] read_facts_lines [OF assms, of ins filename 0 d]
    by (auto simp: read_facts_def)
qed

text \<open>Two facts that are printed alike differ in their caches at most.\<close>

lemma print_inject:
  assumes "canonical x" "xname x = ''fact''" "canonical y" "xname y = ''fact''"
    and "obj_print_xml x = obj_print_xml y"
  shows "bare x = bare y"
  using assms read_printed_facts [of "[x]" "\<lambda>f fs. fs @ [fact_obj f]" "[]" "[]"]
    read_printed_facts [of "[y]" "\<lambda>f fs. fs @ [fact_obj f]" "[]" "[]"]
  by (simp add: use_xml_fact_def)

section \<open>Properties\<close>

text \<open>C21. What \<^verbatim>\<open>print_xml\<close> writes is read back: a file made of any number of printed facts
  gives exactly these facts, without their caches, handed to the database in order and numbered from
  1. The facts must have no empty lists, every text in a \<open>text\<close> list of its own, and names and texts
  that survive the lexer.\<close>

theorem facts_round_trip:
  assumes "list_all (\<lambda>x. canonical x \<and> xname x = ''fact'') xs"
  shows "read_facts ins filename (ordertags (concat (map obj_print_xml xs)) []) d =
    Inr (length xs,
      fold (\<lambda>(k, x). ins (new_fact\<lparr>fact_obj := bare x, fact_file := filename, fact_line := show_nat (k + 1)\<rparr>))
        (enumerate 0 xs) d)"
  by (simp add: read_printed_facts [OF assms] use_xml_fact_def [abs_def])

definition fact_example :: xml_obj where
  "fact_example =
    (let node = (\<lambda>n cs. push_all cs (set_name n (new_xml LIST))); t = (\<lambda>s. node ''text'' [from_text s])
     in node ''fact'' [node ''verb'' [t ''is-a''], node ''clause'' [node ''subject'' [t ''the big cat'']]])"

theorem facts_round_trip_witness:
  "read_facts (\<lambda>x fs. fs @ [x]) ''a.xml'' (ordertags (concat (map obj_print_xml [fact_example, fact_example])) []) []
    = Inr (2, [\<lparr>fact_obj = fact_example, fact_line = ''1'', fact_file = ''a.xml''\<rparr>,
               \<lparr>fact_obj = fact_example, fact_line = ''2'', fact_file = ''a.xml''\<rparr>])"
proof -
  have "list_all (\<lambda>x. canonical x \<and> xname x = ''fact'') [fact_example, fact_example]" by code_simp
  moreover have "bare fact_example = fact_example" by code_simp
  moreover have "show_nat (Suc 0) = ''1''" "show_nat (Suc (Suc 0)) = ''2''" by code_simp+
  ultimately show ?thesis
    using facts_round_trip [of "[fact_example, fact_example]" "\<lambda>x fs. fs @ [x]" "''a.xml''" "[]"]
    by (simp add: new_fact_def)
qed

text \<open>C22. Whatever the lines, a tree that is read is well formed: it has the name of its tag, no
  caches (so its caches are right), no empty lists below the root, and trimmed texts in \<open>text\<close> lists
  only; what is left of the lines is an end of them.\<close>

theorem read_tree_type:
  assumes "read_tree (new_xml LIST) tag ls = Inr (x, q)"
  shows "well_read x \<and> coherent x \<and> xmode x = LIST \<and> xname x = tag \<and> suffix q ls"
proof -
  have l: "read_loop tag (set_name tag (new_xml LIST)) ls = Inr (x, q)"
    using assms by (simp add: read_tree_def)
  then have "well_read x \<and> xmode x = LIST \<and> xname x = tag"
    by (rule read_loop_well) (simp_all add: well_read_new)
  then show ?thesis using well_read_coherent read_loop_suffix [OF l] by simp
qed

theorem read_tree_type_witness:
  "\<exists>x. read_tree (new_xml LIST) ''verb'' [''<'', ''none'', ''>'', ''none'', '' is '', ''>'', ''verb'', ''rest''] = Inr (x, [''verb'', ''rest''])
    \<and> well_read x \<and> xcontent x = [toggled_text ''is'']"
proof -
  let ?ls = "[''<'', ''none'', ''>'', ''none'', '' is '', ''>'', ''verb'', ''rest'']"
  have "read_tree (new_xml LIST) ''verb'' ?ls
      = Inr (push (toggled_text ''is'') (set_name ''verb'' (new_xml LIST)), [''verb'', ''rest''])"
    by code_simp
  with read_tree_type [OF this] show ?thesis by simp
qed

text \<open>Reading a file always ends. It runs behind the last line only when that line is a bare
  opening or closing mark, which is what a text cut off inside a closing tag leads to.\<close>

theorem read_facts_end:
  assumes "split_lines prestr = [] \<or> last (split_lines prestr) \<notin> {''>'', ''<''}"
  shows "\<exists>k d'. read_facts ins filename prestr d = Inr (k, d')"
proof (cases "read_facts ins filename prestr d")
  case (Inl err)
  then have "split_lines prestr \<noteq> [] \<and> last (split_lines prestr) \<in> {''>'', ''<''}"
    using count_facts_error [of "split_lines prestr"] read_facts_loop_error [of ins filename "split_lines prestr" 0 d]
    by (auto simp: read_facts_def Let_def split: sum.splits)
  then show ?thesis using assms by blast
qed auto

theorem read_facts_end_witness:
  "(\<exists>k fs. read_facts (\<lambda>x fs. fs @ [x]) [] (ordertags ''<fact><verb>is</verb>'' []) [] = Inr (k, fs))
    \<and> read_facts (\<lambda>x fs. fs @ [x]) [] (ordertags ''<fact><verb>is</'' []) [] = Inl Out_of_range"
proof -
  have "last (split_lines (ordertags ''<fact><verb>is</verb>'' [])) = ''verb''" by code_simp
  then have "\<exists>k fs. read_facts (\<lambda>x fs. fs @ [x]) [] (ordertags ''<fact><verb>is</verb>'' []) [] = Inr (k, fs)"
    by (intro read_facts_end) simp
  moreover have "read_facts (\<lambda>x fs. fs @ [x]) [] (ordertags ''<fact><verb>is</'' []) [] = Inl Out_of_range"
    by code_simp
  ultimately show ?thesis ..
qed

end
