(* ===== verification/FilterFacts.thy ===== *)
theory FilterFacts
  imports Complex_Main XmlReader
begin

text \<open>
  \<^verbatim>\<open>hal2012-filterfacts2012.cpp\<close> and \<^verbatim>\<open>.hpp\<close>: comparing words and trees, the score of a fact as an
  answer to a question, the filter rules that change the score, and the container that ranks facts.

  A \<^verbatim>\<open>double\<close> is a rational number or NaN (\<^const>\<open>None\<close>): the program divides by counts that
  can be 0, and every quotient with the divisor 0 has the dividend 0. Rounding is not modelled.
  Comparisons with NaN are false. \<^verbatim>\<open>get_words\<close> fills caches; what it returns does not depend on
  whether it was called before, and the comparisons are functions of the trees.

  The lemmas show that a score is never NaN and never negative, what a positive score means, and what
  the ranking returns.
\<close>

section \<open>Doubles\<close>

type_synonym dbl = "rat option"

definition d_add :: "dbl \<Rightarrow> dbl \<Rightarrow> dbl" where
  "d_add a b = (case (a, b) of (Some x, Some y) \<Rightarrow> Some (x + y) | _ \<Rightarrow> None)"

definition d_mul :: "rat \<Rightarrow> dbl \<Rightarrow> dbl" where
  "d_mul k a = map_option (\<lambda>x. k * x) a"

definition d_div :: "dbl \<Rightarrow> nat \<Rightarrow> dbl" where
  "d_div a n = (if n = 0 then None else map_option (\<lambda>x. x / of_nat n) a)"

definition d_pos :: "dbl \<Rightarrow> bool" where
  "d_pos a = (case a of None \<Rightarrow> False | Some x \<Rightarrow> 0 < x)"

definition d_ge :: "dbl \<Rightarrow> rat \<Rightarrow> bool" where
  "d_ge a y = (case a of None \<Rightarrow> False | Some x \<Rightarrow> y \<le> x)"

definition d_sum :: "dbl list \<Rightarrow> dbl" where
  "d_sum ms = fold (\<lambda>m s. d_add s m) ms (Some 0)"

section \<open>Words\<close>

definition ignored_words :: "string list" where
  "ignored_words = [''a'', ''the'', ''in'', ''verb'', ''von'', ''der'', ''die'', ''das'', ''ein'', ''eine'']"

definition is_index_word :: "word \<Rightarrow> bool" where
  "is_index_word w =
    (if wtext w \<in> set ignored_words then False
     else (case wtags w of None \<Rightarrow> True | Some t \<Rightarrow> fst t = ''n'' \<or> fst t = ''adj''))"

definition is_index_pair :: "word \<Rightarrow> word \<Rightarrow> bool" where
  "is_index_pair v w = (if wtext v = ''(a)'' \<and> wtext w = ''name'' then False else True)"

definition same_word :: "word \<Rightarrow> word \<Rightarrow> bool" where
  "same_word v w \<longleftrightarrow> wtext v = wtext w \<or> lc (wtext v) = lc (wtext w)"

definition word_and2 :: "word \<Rightarrow> word \<Rightarrow> rat" where
  "word_and2 v w = (if same_word v w then 1 else 0)"

definition word_weight :: "tags option \<Rightarrow> rat" where
  "word_weight t =
    (case t of
       None \<Rightarrow> 3 / 4
     | Some t \<Rightarrow>
         if fst t = ''n'' then 1 else if fst t = ''adj'' then 1 / 2 else if fst t = ''v'' then 3 / 4
         else if fst t = ''art'' then 1 / 10 else 2 / 5)"

definition word_and :: "word \<Rightarrow> word \<Rightarrow> rat" where
  "word_and v w =
    (if same_word v w then
       word_weight (if has_tags v then wtags v else if has_tags w then wtags w else None)
     else 0)"

definition word_obj_and2 :: "word \<Rightarrow> xml_obj \<Rightarrow> rat" where
  "word_obj_and2 v o2 =
    (case find (\<lambda>w. 0 < word_and2 v w) (fst (get_words o2)) of
       None \<Rightarrow> 0
     | Some w \<Rightarrow> word_and2 v w)"

definition word_obj_and :: "word \<Rightarrow> xml_obj \<Rightarrow> rat" where
  "word_obj_and v o2 =
    (let words = fst (get_words o2) in
     case find (\<lambda>w. 0 < word_and v w) words of
       None \<Rightarrow> 0
     | Some w \<Rightarrow> word_and v w * (3 * of_nat (length words) + 1) / 4 / of_nat (length words))"

section \<open>Trees\<close>

definition positives :: "dbl list \<Rightarrow> rat list" where
  "positives ms = map the (filter d_pos ms)"

text \<open>What both operators make of the results for the children: the children without a positive
  result are left out, \<open>n1\<close> is the name that may demand all children, \<open>n2\<close> the name that asks for
  the mean.\<close>

definition join_matches :: "string \<Rightarrow> string \<Rightarrow> dbl list \<Rightarrow> dbl" where
  "join_matches n1 n2 ms =
    (let pos = positives ms;
         matches = (if n1 = ''link_&'' then (if length pos = length ms then sum_list pos else 0) else sum_list pos)
     in if n2 = ''synonyms'' then d_div (Some matches) (length pos) else Some matches)"

text \<open>The two operators differ in how they compare a word with a text.\<close>

function compare_obj :: "(word \<Rightarrow> xml_obj \<Rightarrow> rat) \<Rightarrow> xml_obj \<Rightarrow> xml_obj \<Rightarrow> dbl" where
  "compare_obj wm o1 o2 =
    (if xmode o1 = TEXT \<and> xmode o2 = TEXT then
       Some (sum_list (map (\<lambda>w. wm w o2) (fst (get_words o1))))
     else if xmode o1 = LIST then
       join_matches (xname o1) (xname o1) (map (\<lambda>sub. compare_obj wm sub o2) (xcontent o1))
     else if xmode o2 = LIST then
       join_matches (xname o2) (xname o1) (map (\<lambda>sub. compare_obj wm o1 sub) (xcontent o2))
     else Some 0)"
  by pat_completeness auto
termination
  by (relation "measure (\<lambda>(wm, o1, o2). nodes o1 + nodes o2)") (auto dest: nodes_child)

declare compare_obj.simps [simp del]

definition obj_and2 :: "xml_obj \<Rightarrow> xml_obj \<Rightarrow> dbl" where
  "obj_and2 o1 o2 = compare_obj word_obj_and2 o1 o2"

definition obj_and :: "xml_obj \<Rightarrow> xml_obj \<Rightarrow> dbl" where
  "obj_and o1 o2 = compare_obj word_obj_and o1 o2"

definition obj_and_list :: "xml_obj \<Rightarrow> xml_obj list \<Rightarrow> dbl" where
  "obj_and_list o1 v2 = d_sum (map (\<lambda>o2. obj_and o1 o2) v2)"

definition list_and_list :: "xml_obj list \<Rightarrow> xml_obj list \<Rightarrow> dbl" where
  "list_and_list v1 v2 = d_sum (map (\<lambda>o1. obj_and_list o1 v2) v1)"

definition uncounted :: "string list" where
  "uncounted = [''questionword'', ''extra'', ''truth'', ''clause'']"

fun count_words :: "xml_obj \<Rightarrow> dbl" where
  "count_words (Xml m name t content cw ct ca) =
    (if m = TEXT then Some (of_nat (length (fst (get_words (Xml m name t content cw ct ca)))))
     else
       (let c = d_sum (map (\<lambda>sub. if xname sub \<notin> set uncounted then count_words sub else Some 0) content)
        in if name = ''link_|'' \<or> name = ''synonyms'' then d_div c (length content) else c))"

definition count_tags :: "xml_obj \<Rightarrow> tags \<Rightarrow> nat" where
  "count_tags x tag =
    length (filter (\<lambda>w. case wtags w of None \<Rightarrow> False | Some t \<Rightarrow> fst tag \<noteq> [] \<and> fst tag = fst t)
      (fst (get_words x)))"

definition is_synonym :: "xml_obj \<Rightarrow> bool" where
  "is_synonym x =
    (let cs = count_words (part ''subject'' x); co = count_words (part ''object'' x) in
     obj_and2 (part ''verb'' x) (from_text ''='') = Some 1 \<and> d_pos cs \<and> d_pos co
     \<and> (obj_and2 (part ''subject'' x) (from_text ''(a)'') = Some 0 \<or> cs = Some 1)
     \<and> (obj_and2 (part ''object'' x) (from_text ''(a)'') = Some 0 \<or> co = Some 1))"

section \<open>Filter rules\<close>

text \<open>A rule changes the score \<open>m\<close> of the fact \<open>b\<close> as an answer to \<open>a\<close>. The rules
  keep the three in the rule object while they run; nothing of it outlives the call.\<close>

type_synonym filterrule = "xml_obj \<Rightarrow> xml_obj \<Rightarrow> dbl \<Rightarrow> dbl"

definition filter_no_names :: filterrule where
  "filter_no_names a b m =
    (if obj_and2 (part ''verb'' b) (from_text ''is-a'') = Some 1 then
       (if obj_and2 (part ''object'' b) (from_text ''(a) name'') = Some 2 then d_mul (1 / 10) m else m)
     else m)"

definition filter_not :: filterrule where
  "filter_not a b m =
    (let m1 = (if d_ge (obj_and2 (part ''adverbs'' b) (from_text ''nicht'')) 1 then d_mul (1 / 4) m else m)
     in if d_ge (obj_and2 (part ''truth'' b) (from_text ''0'')) 1 then d_mul (1 / 10) m1 else m1)"

definition filter_question_who :: filterrule where
  "filter_question_who a b m =
    (if obj_and2 (part ''questionword'' a) (from_text ''who'') = Some 1 then
       (let m1 = (if d_pos (count_words (part ''clause'' b)) then d_mul (3 / 4) m else m);
            m2 = (if d_pos (count_words (part ''adverbs'' b)) then d_mul (3 / 10) m1 else m1)
        in if d_pos (count_words (part ''object'' b)) then
             (if d_pos (obj_and2 (part ''object'' b) (from_text ''(a)'')) then d_mul (1 / 2) m2
              else if count_tags (part ''object'' b) (''n'', []) = 0 then d_mul (3 / 10) m2
              else m2)
           else d_mul (3 / 10) m2)
     else m)"

definition filter_question_what :: filterrule where
  "filter_question_what a b m =
    (if obj_and2 (part ''questionword'' a) (from_text ''what'') = Some 1 then
       (let m1 = (if d_pos (count_words (part ''clause'' b)) then d_mul (9 / 10) m else m)
        in if d_pos (count_words (part ''object'' b)) then
             (if d_pos (obj_and2 (part ''object'' b) (from_text ''(a)'')) then d_mul 2 m1 else d_mul (7 / 10) m1)
           else d_mul (3 / 10) m1)
     else m)"

definition filter_question_extra :: filterrule where
  "filter_question_extra a b m =
    (if d_pos (count_words (part ''extra'' a)) then
       (let extra1 = part_list ''extra'' a;
            m1 = d_add (d_add (list_and_list extra1 (part_list ''subject'' b))
                              (list_and_list extra1 (part_list ''object'' b)))
                       (list_and_list extra1 (part_list ''adverbs'' b))
        in if d_pos m1 then d_add m m1 else d_mul (3 / 4) m)
     else m)"

record filterlist =
  rules :: "filterrule list"
  fl_verbose :: bool
  fl_buffered :: bool

definition filterlist_new :: filterlist where
  "filterlist_new =
    \<lparr>rules = [filter_no_names, filter_not, filter_question_who, filter_question_what, filter_question_extra],
     fl_verbose = True, fl_buffered = False\<rparr>"

definition add_rule :: "filterrule \<Rightarrow> filterlist \<Rightarrow> filterlist" where
  "add_rule r fl = fl\<lparr>rules := rules fl @ [r]\<rparr>"

definition run_filters :: "filterlist \<Rightarrow> filterrule" where
  "run_filters fl a b m = fold (\<lambda>r m. r a b m) (rules fl) m"

section \<open>The score of a fact\<close>

definition role_match :: "string \<Rightarrow> xml_obj \<Rightarrow> xml_obj \<Rightarrow> dbl" where
  "role_match role o1 o2 =
    d_add (d_add (list_and_list (part_list role o1) (part_list ''subject'' o2))
                 (list_and_list (part_list role o1) (part_list ''object'' o2)))
          (list_and_list (part_list role o1) (part_list ''adverbs'' o2))"

definition fact_match :: "filterlist \<Rightarrow> xml_obj \<Rightarrow> xml_obj \<Rightarrow> dbl" where
  "fact_match fl o1 o2 =
    (if list_and_list (part_list ''verb'' o1) (part_list ''verb'' o2) = Some 0 then Some 0
     else
       (let matches = d_add (d_add (d_add (Some 0) (role_match ''subject'' o1 o2)) (role_match ''object'' o1 o2))
                            (role_match ''adverbs'' o1 o2)
        in run_filters fl o1 o2 matches))"

definition fact_quotient :: "filterlist \<Rightarrow> xml_fact \<Rightarrow> xml_fact \<Rightarrow> dbl" where
  "fact_quotient fl f1 f2 = fact_match fl (fact_obj f1) (fact_obj f2)"

section \<open>The ranking\<close>

text \<open>\<open>rank_map\<close> is the multimap in its order: keys ascending, equal keys in the order of their
  insertion. \<open>rank_keys\<close> and \<open>rank_values\<close> are filled by the first query. \<^const>\<open>None\<close> as an
  object is the default object \<open>O()\<close>. \<open>shuffle\<close> is \<^verbatim>\<open>std::random_shuffle\<close>.\<close>

record 'o ranking =
  rank_map :: "(rat \<times> 'o) list"
  rank_keys :: "rat list"
  rank_values :: "'o list"

definition ranking_new :: "'o ranking" where
  "ranking_new = \<lparr>rank_map = [], rank_keys = [], rank_values = []\<rparr>"

fun map_insert :: "rat \<Rightarrow> 'o \<Rightarrow> (rat \<times> 'o) list \<Rightarrow> (rat \<times> 'o) list" where
  "map_insert r v [] = [(r, v)]"
| "map_insert r v ((k, w) # m) = (if k \<le> r then (k, w) # map_insert r v m else (r, v) # (k, w) # m)"

definition rank_insert :: "'o \<Rightarrow> dbl \<Rightarrow> 'o ranking \<Rightarrow> 'o ranking" where
  "rank_insert v r rk =
    (if d_pos r then rk\<lparr>rank_map := map_insert (the r) v (rank_map rk)\<rparr> else rk)"

definition rank_get :: "nat \<Rightarrow> 'o ranking \<Rightarrow> 'o option \<times> 'o ranking" where
  "rank_get i rk =
    (let rk' = (if rank_values rk = [] then rk\<lparr>rank_values := map snd (rank_map rk)\<rparr> else rk)
     in (if i < length (rank_values rk') then Some (rank_values rk' ! i) else None, rk'))"

definition rank_rank :: "nat \<Rightarrow> 'o ranking \<Rightarrow> rat \<times> 'o ranking" where
  "rank_rank i rk =
    (let rk' = (if rank_keys rk = [] then rk\<lparr>rank_keys := map fst (rank_map rk)\<rparr> else rk)
     in (if i < length (rank_keys rk') then rank_keys rk' ! i else 0, rk'))"

definition rank_size :: "'o ranking \<Rightarrow> nat" where
  "rank_size rk = length (rank_map rk)"

text \<open>The loop of \<^verbatim>\<open>best\<close> from the index \<open>i - 1\<close> down to 0.\<close>

fun best_loop :: "nat \<Rightarrow> rat \<Rightarrow> 'o ranking \<Rightarrow> 'o option list \<times> 'o ranking" where
  "best_loop 0 bestrank rk = ([], rk)"
| "best_loop (Suc i) bestrank rk =
    (let (r, rk1) = rank_rank i rk in
     if r = bestrank then
       (let (v, rk2) = rank_get i rk1; (vs, rk3) = best_loop i bestrank rk2 in (v # vs, rk3))
     else best_loop i bestrank rk1)"

definition rank_best :: "('o option list \<Rightarrow> 'o option list) \<Rightarrow> 'o ranking \<Rightarrow> 'o option list \<times> 'o ranking" where
  "rank_best shuffle rk =
    (if 0 < rank_size rk then
       (let (bestrank, rk1) = rank_rank (rank_size rk - 1) rk;
            (vs, rk2) = best_loop (rank_size rk) bestrank rk1
        in (shuffle vs, rk2))
     else (shuffle [], rk))"

definition best_one :: "('o option list \<Rightarrow> 'o option list) \<Rightarrow> 'o ranking \<Rightarrow> 'o option \<times> 'o ranking" where
  "best_one shuffle rk =
    (let (vs, rk') = rank_best shuffle rk in (if vs \<noteq> [] then hd vs else None, rk'))"

section \<open>Scores are numbers and never negative\<close>

definition score_ok :: "dbl \<Rightarrow> bool" where
  "score_ok m \<longleftrightarrow> (\<exists>r\<ge>0. m = Some r)"

named_theorems score_intros "operations that keep a score a nonnegative number"

lemma score_ok_Some [score_intros]: "0 \<le> r \<Longrightarrow> score_ok (Some r)"
  by (simp add: score_ok_def)

lemma score_ok_add [score_intros]: "score_ok a \<Longrightarrow> score_ok b \<Longrightarrow> score_ok (d_add a b)"
  by (auto simp: score_ok_def d_add_def)

lemma score_ok_mul [score_intros]: "0 \<le> k \<Longrightarrow> score_ok a \<Longrightarrow> score_ok (d_mul k a)"
  by (auto simp: score_ok_def d_mul_def)

lemma score_ok_sum [score_intros]: "(\<And>m. m \<in> set ms \<Longrightarrow> score_ok m) \<Longrightarrow> score_ok (d_sum ms)"
  unfolding d_sum_def by (rule fold_invariant) (auto intro: score_intros)

lemma positives_pos: "r \<in> set (positives ms) \<Longrightarrow> 0 < r"
  by (auto simp: positives_def d_pos_def split: option.splits)

lemma sum_positives: "0 \<le> sum_list (positives ms)"
  using positives_pos by (intro sum_list_nonneg) (auto intro: less_imp_le)

lemma score_ok_join [score_intros]: "n2 \<noteq> ''synonyms'' \<Longrightarrow> score_ok (join_matches n1 n2 ms)"
  using sum_positives [of ms] by (simp add: join_matches_def Let_def score_ok_def)

lemma word_weight_pos: "0 < word_weight t"
  by (simp add: word_weight_def split: option.split)

lemma word_and2_pos: "0 < word_and2 v w \<longleftrightarrow> same_word v w"
  by (simp add: word_and2_def)

lemma word_and_pos: "0 < word_and v w \<longleftrightarrow> same_word v w"
  using word_weight_pos by (auto simp: word_and_def)

lemma word_obj_and2_nonneg: "0 \<le> word_obj_and2 v x"
  by (auto simp: word_obj_and2_def word_and2_def split: option.split)

lemma word_obj_and_nonneg: "0 \<le> word_obj_and v x"
  by (auto simp: word_obj_and_def Let_def find_Some_iff intro!: divide_nonneg_nonneg mult_nonneg_nonneg
      split: option.split)

lemma compare_score_ok:
  assumes "\<And>w y. 0 \<le> wm w y" "xname x \<noteq> ''synonyms''"
  shows "score_ok (compare_obj wm x y)"
  using assms(2) by (subst compare_obj.simps) (auto intro!: score_intros sum_list_nonneg assms(1))

lemma obj_and_ok [score_intros]: "xname x \<noteq> ''synonyms'' \<Longrightarrow> score_ok (obj_and x y)"
  unfolding obj_and_def by (rule compare_score_ok) (simp_all add: word_obj_and_nonneg)

lemma list_and_list_ok [score_intros]:
  "role \<noteq> ''synonyms'' \<Longrightarrow> score_ok (list_and_list (part_list role x) v2)"
  unfolding list_and_list_def obj_and_list_def
  by (rule score_ok_sum) (auto simp: part_list_def intro!: score_intros)

lemma role_match_ok [score_intros]: "role \<noteq> ''synonyms'' \<Longrightarrow> score_ok (role_match role x y)"
  by (simp add: role_match_def score_intros)

lemma filter_no_names_ok [score_intros]: "score_ok m \<Longrightarrow> score_ok (filter_no_names a b m)"
  by (simp add: filter_no_names_def score_intros)

lemma filter_not_ok [score_intros]: "score_ok m \<Longrightarrow> score_ok (filter_not a b m)"
  by (simp add: filter_not_def Let_def score_intros)

lemma filter_question_who_ok [score_intros]: "score_ok m \<Longrightarrow> score_ok (filter_question_who a b m)"
  by (simp add: filter_question_who_def Let_def score_intros)

lemma filter_question_what_ok [score_intros]: "score_ok m \<Longrightarrow> score_ok (filter_question_what a b m)"
  by (simp add: filter_question_what_def Let_def score_intros)

lemma filter_question_extra_ok [score_intros]: "score_ok m \<Longrightarrow> score_ok (filter_question_extra a b m)"
  by (simp add: filter_question_extra_def Let_def score_intros)

lemma run_filters_ok [score_intros]: "score_ok m \<Longrightarrow> score_ok (run_filters filterlist_new a b m)"
  by (simp add: run_filters_def filterlist_new_def score_intros)

section \<open>What a score other than 0 means\<close>

text \<open>The texts of a tree.\<close>

fun text_leaves :: "xml_obj \<Rightarrow> xml_obj list" where
  "text_leaves (Xml m name t content cw ct ca) =
    (if m = TEXT then [Xml m name t content cw ct ca] else concat (map text_leaves content))"

lemma text_leaves_child: "xmode x \<noteq> TEXT \<Longrightarrow> c \<in> set (xcontent x) \<Longrightarrow> set (text_leaves c) \<subseteq> set (text_leaves x)"
  by (cases x) auto

lemma text_leaves_text: "xmode x = TEXT \<Longrightarrow> text_leaves x = [x]"
  by (cases x) simp

lemma join_positive: "join_matches n1 n2 ms = Some r \<Longrightarrow> r \<noteq> 0 \<Longrightarrow> \<exists>m \<in> set ms. d_pos m"
  by (cases "positives ms = []")
    (auto simp: join_matches_def Let_def d_div_def positives_def filter_empty_conv split: if_splits)

lemma sum_list_nonzero: "sum_list (map f ws) \<noteq> (0::rat) \<Longrightarrow> \<exists>w \<in> set ws. f w \<noteq> 0"
  by (induction ws) auto

lemma compare_positive:
  "compare_obj wm x y = Some r \<Longrightarrow> r \<noteq> 0 \<Longrightarrow>
    \<exists>l \<in> set (text_leaves x). \<exists>l' \<in> set (text_leaves y). \<exists>w \<in> set (fst (get_words l)). wm w l' \<noteq> 0"
proof (induction wm x y arbitrary: r rule: compare_obj.induct)
  case (1 wm x y)
  consider (texts) "xmode x = TEXT" "xmode y = TEXT" | (left) "xmode x = LIST"
    | (right) "xmode x \<noteq> LIST" "xmode y = LIST" "\<not> (xmode x = TEXT \<and> xmode y = TEXT)"
    | (none) "\<not> (xmode x = TEXT \<and> xmode y = TEXT)" "xmode x \<noteq> LIST" "xmode y \<noteq> LIST" by blast
  then show ?case
  proof cases
    case texts
    then have "\<exists>w \<in> set (fst (get_words x)). wm w y \<noteq> 0"
      using "1.prems" sum_list_nonzero [of "\<lambda>w. wm w y"] by (auto simp: compare_obj.simps [of wm x y])
    then show ?thesis using texts by (simp add: text_leaves_text)
  next
    case left
    then obtain c where c: "c \<in> set (xcontent x)" "d_pos (compare_obj wm c y)"
      using "1.prems" join_positive [of "xname x" "xname x"] by (fastforce simp: compare_obj.simps [of wm x y])
    then obtain q where "compare_obj wm c y = Some q" "q \<noteq> 0" by (auto simp: d_pos_def split: option.splits)
    then show ?thesis using "1.IH"(1) [of c] left c(1) text_leaves_child [of x c] by fastforce
  next
    case right
    then obtain c where c: "c \<in> set (xcontent y)" "d_pos (compare_obj wm x c)"
      using "1.prems" join_positive [of "xname y" "xname x"] by (fastforce simp: compare_obj.simps [of wm x y])
    then obtain q where "compare_obj wm x c = Some q" "q \<noteq> 0" by (auto simp: d_pos_def split: option.splits)
    then show ?thesis using "1.IH"(2) [of c] right c(1) text_leaves_child [of y c] by fastforce
  next
    case none
    then have "compare_obj wm x y = Some 0"
      by (subst compare_obj.simps) auto
    then show ?thesis using "1.prems" by simp
  qed
qed

text \<open>A tree read as a formula over its texts: a \<^verbatim>\<open>link_&\<close> node demands its parts all, and at least one,
  every other list one of its parts.\<close>

fun holds_in :: "(xml_obj \<Rightarrow> bool) \<Rightarrow> xml_obj \<Rightarrow> bool" where
  "holds_in P (Xml m name t content cw ct ca) =
    (if m = LIST then
       (if name = ''link_&'' then content \<noteq> [] \<and> list_all (holds_in P) content else list_ex (holds_in P) content)
     else P (Xml m name t content cw ct ca))"

lemma holds_in_eq: "holds_in P x \<longleftrightarrow>
    (if xmode x = LIST then
       (if xname x = ''link_&'' then xcontent x \<noteq> [] \<and> (\<forall>c \<in> set (xcontent x). holds_in P c)
        else \<exists>c \<in> set (xcontent x). holds_in P c)
     else P x)"
  by (cases x) (simp add: list_all_iff list_ex_iff)

text \<open>Two texts with a common word, and what the comparison of two trees looks for: the first is read as a
  formula, and at each of its texts the second.\<close>

definition common_word :: "xml_obj \<Rightarrow> xml_obj \<Rightarrow> bool" where
  "common_word l l' \<longleftrightarrow> xmode l = TEXT \<and> xmode l' = TEXT
    \<and> (\<exists>w \<in> set (fst (get_words l)). \<exists>w' \<in> set (fst (get_words l')). same_word w w')"

definition agree :: "xml_obj \<Rightarrow> xml_obj \<Rightarrow> bool" where
  "agree x y \<longleftrightarrow> holds_in (\<lambda>l. holds_in (common_word l) y) x"

text \<open>Without \<^verbatim>\<open>link_&\<close> nodes this is a common word of any text of the one and any text of the other.\<close>

fun no_link :: "xml_obj \<Rightarrow> bool" where
  "no_link (Xml m name t content cw ct ca) =
    ((m = TEXT \<or> m = LIST \<and> name \<noteq> ''link_&'') \<and> list_all no_link content)"

lemma holds_in_no_link: "no_link x \<Longrightarrow> holds_in P x \<longleftrightarrow> (\<exists>l \<in> set (text_leaves x). P l)"
proof (induction x rule: no_link.induct)
  case (1 m name t content cw ct ca)
  then have "holds_in P c \<longleftrightarrow> (\<exists>l \<in> set (text_leaves c). P l)" if "c \<in> set content" for c
    using that by (simp add: list_all_iff)
  then show ?case using "1.prems" by (auto simp: list_ex_iff)
qed

lemma agree_no_link:
  "no_link x \<Longrightarrow> no_link y \<Longrightarrow> agree x y \<longleftrightarrow> (\<exists>l \<in> set (text_leaves x). \<exists>l' \<in> set (text_leaves y). common_word l l')"
  by (simp add: agree_def holds_in_no_link)

lemma sum_list_positive: "\<forall>w \<in> set ws. 0 \<le> (f w :: rat) \<Longrightarrow> 0 < sum_list (map f ws) \<longleftrightarrow> (\<exists>w \<in> set ws. 0 < f w)"
proof (induction ws)
  case (Cons w ws)
  have "0 \<le> sum_list (map f ws)" using Cons.prems by (intro sum_list_nonneg) auto
  moreover have "0 \<le> f w" using Cons.prems by simp
  ultimately have "0 < f w + sum_list (map f ws) \<longleftrightarrow> 0 < f w \<or> 0 < sum_list (map f ws)" by linarith
  then show ?case using Cons by simp
qed simp

lemma join_pos_iff:
  "d_pos (join_matches n1 n2 ms) \<longleftrightarrow>
    (if n1 = ''link_&'' then ms \<noteq> [] \<and> (\<forall>m \<in> set ms. d_pos m) else \<exists>m \<in> set ms. d_pos m)"
proof -
  have some: "positives ms = [] \<longleftrightarrow> \<not> (\<exists>m \<in> set ms. d_pos m)"
    by (auto simp: positives_def filter_empty_conv)
  have all: "length (positives ms) = length ms \<longleftrightarrow> (\<forall>m \<in> set ms. d_pos m)"
    by (simp add: positives_def) (metis filter_True length_filter_less less_irrefl)
  have pos: "0 < sum_list (positives ms)" if "positives ms \<noteq> []"
    using that positives_pos [of _ ms] sum_list_positive [of "positives ms" "\<lambda>r. r"]
    by (cases "positives ms") (auto intro: less_imp_le)
  show ?thesis
  proof (cases "positives ms = []")
    case True
    then show ?thesis using some by (cases ms) (auto simp: join_matches_def Let_def d_div_def d_pos_def)
  next
    case False
    then have "ms \<noteq> []" by (auto simp: positives_def)
    then show ?thesis
      using False pos some all by (auto simp: join_matches_def Let_def d_div_def d_pos_def)
  qed
qed

lemma compare_pos_iff:
  assumes "\<And>w y. 0 \<le> wm w y" "\<And>w y. 0 < wm w y \<longleftrightarrow> (\<exists>w' \<in> set (fst (get_words y)). same_word w w')"
  shows "d_pos (compare_obj wm x y) \<longleftrightarrow> agree x y"
  using assms
proof (induction wm x y rule: compare_obj.induct)
  case (1 wm x y)
  consider (texts) "xmode x = TEXT" "xmode y = TEXT" | (left) "xmode x = LIST"
    | (right) "xmode x \<noteq> LIST" "xmode y = LIST"
    | (none) "\<not> (xmode x = TEXT \<and> xmode y = TEXT)" "xmode x \<noteq> LIST" "xmode y \<noteq> LIST" by blast
  then show ?case
  proof cases
    case texts
    then show ?thesis
      using "1.prems" sum_list_positive [of "fst (get_words x)" "\<lambda>w. wm w y"]
      by (simp add: compare_obj.simps [of wm x y] d_pos_def agree_def holds_in_eq [of _ x] holds_in_eq [of _ y] common_word_def)
  next
    case left
    have "d_pos (compare_obj wm c y) \<longleftrightarrow> agree c y" if "c \<in> set (xcontent x)" for c
      using "1.IH"(1) [OF _ left that] "1.prems" left by simp
    then show ?thesis
      using left by (simp add: compare_obj.simps [of wm x y] join_pos_iff agree_def holds_in_eq [of _ x])
  next
    case right
    have "d_pos (compare_obj wm x c) \<longleftrightarrow> agree x c" if "c \<in> set (xcontent y)" for c
      using "1.IH"(2) [OF _ _ right(2) that] "1.prems" right by simp
    then show ?thesis
      using right
      by (simp add: compare_obj.simps [of wm x y] join_pos_iff agree_def holds_in_eq [of _ x] holds_in_eq [of _ y])
  next
    case none
    then have "compare_obj wm x y = Some 0" by (subst compare_obj.simps) auto
    then show ?thesis
      using none by (auto simp: d_pos_def agree_def holds_in_eq [of _ x] holds_in_eq [of _ y] common_word_def)
  qed
qed

lemma set_positives: "set (positives ms) = {q. Some q \<in> set ms \<and> 0 < q}"
  by (force simp: positives_def d_pos_def split: option.splits)

text \<open>\<^verbatim>\<open>&&\<close> counts, and only means are not whole.\<close>

lemma join_ge_1:
  assumes "\<forall>r \<in> set (positives ms). 1 \<le> r" "join_matches n1 n2 ms = Some q" "0 < q"
  shows "1 \<le> q"
proof -
  have l: "of_nat (length ps) \<le> sum_list ps" if "\<forall>r \<in> set ps. 1 \<le> r" for ps :: "rat list"
    using that by (induction ps) auto
  have "positives ms = [] \<or> 1 \<le> (of_nat (length (positives ms)) :: rat)"
    by (cases "positives ms") auto
  then show ?thesis
    using l [OF assms(1)] assms(2,3)
    by (auto simp: join_matches_def Let_def d_div_def le_divide_eq split: if_splits)
qed

lemma compare_ge_1:
  assumes "\<And>w y. wm w y = 0 \<or> 1 \<le> wm w y" "compare_obj wm x y = Some r" "0 < r"
  shows "1 \<le> r"
  using assms
proof (induction wm x y arbitrary: r rule: compare_obj.induct)
  case (1 wm x y)
  have nonneg: "\<forall>w. 0 \<le> wm w y" using "1.prems"(1) by (metis order_refl order_trans zero_le_one)
  consider (texts) "xmode x = TEXT" "xmode y = TEXT" | (left) "xmode x = LIST"
    | (right) "xmode x \<noteq> LIST" "xmode y = LIST" "\<not> (xmode x = TEXT \<and> xmode y = TEXT)"
    | (none) "\<not> (xmode x = TEXT \<and> xmode y = TEXT)" "xmode x \<noteq> LIST" "xmode y \<noteq> LIST" by blast
  then show ?case
  proof cases
    case texts
    then have r: "r = sum_list (map (\<lambda>w. wm w y) (fst (get_words x)))"
      using "1.prems"(2) by (simp add: compare_obj.simps [of wm x y])
    then obtain w where w: "w \<in> set (fst (get_words x))" "0 < wm w y"
      using sum_list_positive [of "fst (get_words x)" "\<lambda>w. wm w y"] nonneg "1.prems"(3) by auto
    then have "1 \<le> wm w y" using "1.prems"(1) [of w y] by auto
    also have "wm w y \<le> r" unfolding r using w nonneg by (intro member_le_sum_list) auto
    finally show ?thesis .
  next
    case left
    let ?ms = "map (\<lambda>sub. compare_obj wm sub y) (xcontent x)"
    have "join_matches (xname x) (xname x) ?ms = Some r"
      using "1.prems"(2) left by (simp add: compare_obj.simps [of wm x y])
    moreover have "\<forall>q \<in> set (positives ?ms). 1 \<le> q"
      using "1.IH"(1) "1.prems"(1) left by (auto simp: set_positives)
    ultimately show ?thesis using "1.prems"(3) join_ge_1 by blast
  next
    case right
    let ?ms = "map (\<lambda>sub. compare_obj wm x sub) (xcontent y)"
    have "join_matches (xname y) (xname x) ?ms = Some r"
      using "1.prems"(2) right by (simp add: compare_obj.simps [of wm x y])
    moreover have "\<forall>q \<in> set (positives ?ms). 1 \<le> q"
      using "1.IH"(2) "1.prems"(1) right by (auto simp: set_positives)
    ultimately show ?thesis using "1.prems"(3) join_ge_1 by blast
  next
    case none
    then have "compare_obj wm x y = Some 0" by (subst compare_obj.simps) auto
    then show ?thesis using "1.prems" by simp
  qed
qed

lemma word_obj_and2_pos: "0 < word_obj_and2 v y \<longleftrightarrow> (\<exists>w \<in> set (fst (get_words y)). same_word v w)"
  by (auto simp: word_obj_and2_def word_and2_def find_None_iff find_Some_iff split: option.split)

lemma word_obj_and2_cases: "word_obj_and2 v y = 0 \<or> word_obj_and2 v y = 1"
  by (simp add: word_obj_and2_def word_and2_def split: option.split)

lemma obj_and2_iff: "d_pos (obj_and2 x y) \<longleftrightarrow> agree x y"
  unfolding obj_and2_def by (rule compare_pos_iff) (simp_all add: word_obj_and2_nonneg word_obj_and2_pos)

lemma word_obj_and_same: "word_obj_and v x \<noteq> 0 \<Longrightarrow> \<exists>w \<in> set (fst (get_words x)). same_word v w"
  by (auto simp: word_obj_and_def Let_def find_Some_iff word_and_pos split: option.splits)

lemma d_sum_nonzero: "d_sum ms \<noteq> Some 0 \<Longrightarrow> \<exists>m \<in> set ms. m \<noteq> Some 0"
proof (rule ccontr)
  assume "d_sum ms \<noteq> Some 0" and z: "\<not> (\<exists>m \<in> set ms. m \<noteq> Some 0)"
  moreover have "fold (\<lambda>m s. d_add s m) ms (Some 0) = Some 0"
    using z by (induction ms) (simp_all add: d_add_def)
  ultimately show False by (simp add: d_sum_def)
qed

section \<open>The ranking\<close>

lemma set_map_insert: "set (map_insert r v m) = insert (r, v) (set m)"
  by (induction r v m rule: map_insert.induct) (auto split: if_splits)

lemma sorted_map_insert: "sorted (map fst m) \<Longrightarrow> sorted (map fst (map_insert r v m))"
proof (induction m)
  case (Cons e m)
  obtain k w where e: "e = (k, w)" by (cases e)
  have "\<forall>x \<in> set (map fst m). k \<le> x" "sorted (map fst m)" using Cons.prems e by auto
  then show ?case using Cons.IH by (fastforce simp: e set_map_insert)
qed simp

text \<open>A ranking that was filled and not yet queried.\<close>

definition rank_all :: "('o \<times> dbl) list \<Rightarrow> 'o ranking" where
  "rank_all vs = fold (\<lambda>(v, r) rk. rank_insert v r rk) vs ranking_new"

definition unqueried :: "'o ranking \<Rightarrow> bool" where
  "unqueried rk \<longleftrightarrow> rank_keys rk = [] \<and> rank_values rk = [] \<and> sorted (map fst (rank_map rk))"

lemma rank_all_unqueried: "unqueried (rank_all vs)"
  unfolding rank_all_def
  by (rule fold_invariant) (auto simp: unqueried_def rank_insert_def ranking_new_def sorted_map_insert)

lemma set_rank_all: "set (rank_map (rank_all vs)) = {(r, v). (v, Some r) \<in> set vs \<and> 0 < r}"
proof -
  have "set (rank_map (fold (\<lambda>(v, r) rk. rank_insert v r rk) vs rk))
      = set (rank_map rk) \<union> {(r, v). (v, Some r) \<in> set vs \<and> 0 < r}" for rk
  proof (induction vs arbitrary: rk)
    case (Cons e vs)
    obtain v r where e: "e = (v, r)" by (cases e)
    have "set (rank_map (rank_insert v r rk)) = set (rank_map rk) \<union> {(q, v). r = Some q \<and> 0 < q \<and> v = fst e}"
      by (cases r) (auto simp: rank_insert_def set_map_insert d_pos_def e)
    then show ?case using Cons.IH [of "rank_insert v r rk"] by (auto simp: e)
  qed simp
  then show ?thesis by (simp add: rank_all_def ranking_new_def)
qed

text \<open>The caches after the first query.\<close>

definition queried :: "(rat \<times> 'o) list \<Rightarrow> 'o ranking \<Rightarrow> bool" where
  "queried m rk \<longleftrightarrow> m \<noteq> [] \<and> rank_map rk = m \<and> rank_keys rk \<in> {[], map fst m} \<and> rank_values rk \<in> {[], map snd m}"

lemma queried_rank: "queried m rk \<Longrightarrow> i < length m \<Longrightarrow>
    fst (rank_rank i rk) = fst (m ! i) \<and> queried m (snd (rank_rank i rk))"
  by (auto simp: rank_rank_def queried_def Let_def)

lemma queried_get: "queried m rk \<Longrightarrow> i < length m \<Longrightarrow>
    fst (rank_get i rk) = Some (snd (m ! i)) \<and> queried m (snd (rank_get i rk))"
  by (auto simp: rank_get_def queried_def Let_def)

lemma best_loop_set:
  "queried m rk \<Longrightarrow> i \<le> length m \<Longrightarrow>
    set (fst (best_loop i b rk)) = {Some v |v. (b, v) \<in> set (take i m)}"
proof (induction i arbitrary: rk)
  case 0
  then show ?case by simp
next
  case (Suc i)
  obtain r rk1 where r: "rank_rank i rk = (r, rk1)" by (cases "rank_rank i rk")
  obtain v rk2 where v: "rank_get i rk1 = (v, rk2)" by (cases "rank_get i rk1")
  have i: "i < length m" "i \<le> length m" using Suc.prems by simp_all
  have 1: "r = fst (m ! i)" "queried m rk1" using queried_rank [OF Suc.prems(1) i(1)] r by simp_all
  have 2: "v = Some (snd (m ! i))" "queried m rk2" using queried_get [OF 1(2) i(1)] v by simp_all
  have t: "set (take (Suc i) m) = insert (m ! i) (set (take i m))"
    using i by (simp add: take_Suc_conv_app_nth)
  show ?case
  proof (cases "r = b")
    case True
    then show ?thesis using Suc.IH [OF 2(2) i(2)] r v 1(1) 2(1) t
      by (cases "m ! i") (auto simp: Let_def split: prod.splits)
  next
    case False
    then show ?thesis using Suc.IH [OF 1(2) i(2)] r 1(1) t
      by (cases "m ! i") (auto simp: Let_def)
  qed
qed

lemma sorted_last_max: "sorted (map fst m) \<Longrightarrow> x \<in> set m \<Longrightarrow> fst x \<le> fst (m ! (length m - 1))"
  by (induction m) (auto simp: nth_Cons' last_conv_nth)

text \<open>Queried or not, the best values are those with the greatest key.\<close>

lemma rank_best_top:
  assumes q: "queried m rk" and sorted: "sorted (map fst m)" and shuffle: "\<And>vs. set (shuffle vs) = set vs"
  shows "set (fst (rank_best shuffle rk)) = {Some v |v. \<exists>r. (r, v) \<in> set m \<and> (\<forall>(r', v') \<in> set m. r' \<le> r)}"
    (is "?L = ?R")
proof -
  let ?n = "length m"
  have m: "rank_map rk = m" "m \<noteq> []" using q by (simp_all add: queried_def)
  obtain b rk1 where b: "rank_rank (?n - 1) rk = (b, rk1)" by (cases "rank_rank (?n - 1) rk")
  have bq: "b = fst (m ! (?n - 1))" "queried m rk1"
    using queried_rank [OF q, of "?n - 1"] b m(2) by auto
  have max: "r \<le> b" if "(r, v) \<in> set m" for r v
    using sorted_last_max [OF sorted that] bq(1) by simp
  have top: "(b, snd (m ! (?n - 1))) \<in> set m" using bq(1) m(2) by simp
  have "?L = {Some v |v. (b, v) \<in> set m}"
    using best_loop_set [OF bq(2), of ?n b] m b shuffle
    by (simp add: rank_best_def rank_size_def case_prod_beta)
  also have "\<dots> = ?R"
  proof (intro set_eqI iffI)
    fix y assume "y \<in> {Some v |v. (b, v) \<in> set m}"
    then show "y \<in> ?R" using max by fast
  next
    fix y assume "y \<in> ?R"
    then obtain v r where v: "y = Some v" "(r, v) \<in> set m" "\<forall>(r', v') \<in> set m. r' \<le> r" by blast
    have "r = b" using max [OF v(2)] v(3) top by fastforce
    then show "y \<in> {Some v |v. (b, v) \<in> set m}" using v(1,2) by blast
  qed
  finally show ?thesis .
qed

lemma rank_best_empty: "rank_map rk = [] \<Longrightarrow> fst (rank_best shuffle rk) = shuffle []"
  by (simp add: rank_best_def rank_size_def)

section \<open>Properties\<close>

text \<open>The score of a fact as an answer is always a number and never negative, although the
  comparisons divide by counts that can be 0: the division only happens below \<open>synonyms\<close> nodes,
  whose result is discarded when it is NaN, and the roles that are compared are never such nodes.\<close>

theorem score_nonneg: "\<exists>r. fact_match filterlist_new x y = Some r \<and> 0 \<le> r"
proof -
  have "score_ok (fact_match filterlist_new x y)"
    by (simp add: fact_match_def Let_def score_intros)
  then show ?thesis by (auto simp: score_ok_def)
qed

text \<open>C23. Only a fact that shares a verb with the question scores: for a score other than 0, a text
  in a verb of the question and a text in a verb of the fact have words that are equal up to case,
  whatever the filter rules.\<close>

theorem score_needs_verb:
  assumes "fact_match fl x y = Some r" "r \<noteq> 0"
  shows "\<exists>v \<in> set (part_list ''verb'' x). \<exists>v' \<in> set (part_list ''verb'' y).
    \<exists>l \<in> set (text_leaves v). \<exists>l' \<in> set (text_leaves v').
      \<exists>w \<in> set (fst (get_words l)). \<exists>w' \<in> set (fst (get_words l')). same_word w w'"
proof -
  have "list_and_list (part_list ''verb'' x) (part_list ''verb'' y) \<noteq> Some 0"
    using assms by (auto simp: fact_match_def)
  from d_sum_nonzero [OF this [unfolded list_and_list_def]]
  obtain v where v1: "v \<in> set (part_list ''verb'' x)" "obj_and_list v (part_list ''verb'' y) \<noteq> Some 0"
    by auto
  from d_sum_nonzero [OF v1(2) [unfolded obj_and_list_def]]
  obtain v' where v: "v \<in> set (part_list ''verb'' x)" "v' \<in> set (part_list ''verb'' y)"
      and m: "obj_and v v' \<noteq> Some 0" using v1(1) by auto
  have "xname v \<noteq> ''synonyms''" using v(1) by (auto simp: part_list_def)
  then obtain q where "compare_obj word_obj_and v v' = Some q" "q \<noteq> 0"
    using obj_and_ok [of v v'] m by (auto simp: score_ok_def obj_and_def)
  from compare_positive [OF this] show ?thesis using v word_obj_and_same by blast
qed

definition question_example :: xml_obj where
  "question_example =
    (let node = (\<lambda>n cs. push_all cs (set_name n (new_xml LIST))); t = (\<lambda>s. node ''text'' [from_text s])
     in node ''fact'' [node ''verb'' [t ''Is''], node ''subject'' [t ''cat'']])"

definition answer_example :: xml_obj where
  "answer_example =
    (let node = (\<lambda>n cs. push_all cs (set_name n (new_xml LIST))); t = (\<lambda>s. node ''text'' [from_text s])
     in node ''fact'' [node ''verb'' [node ''synonyms'' [t ''is'', t ''be'']], node ''object'' [t ''big cat'']])"

theorem score_needs_verb_witness:
  "fact_match filterlist_new question_example answer_example = Some (21 / 32)
    \<and> (\<exists>v \<in> set (part_list ''verb'' question_example). \<exists>v' \<in> set (part_list ''verb'' answer_example).
        \<exists>l \<in> set (text_leaves v). \<exists>l' \<in> set (text_leaves v').
          \<exists>w \<in> set (fst (get_words l)). \<exists>w' \<in> set (fst (get_words l')). same_word w w')"
proof -
  have "fact_match filterlist_new question_example answer_example = Some (21 / 32)" by code_simp
  with score_needs_verb [OF this] show ?thesis by simp
qed

text \<open>C24. A ranking that was filled from scored facts returns exactly the facts with the highest
  positive score, so none exactly when no score is positive. The order among equals is left to \<^verbatim>\<open>random_shuffle\<close>.\<close>

theorem ranking_best:
  assumes "\<And>vs. set (shuffle vs) = set vs"
  shows "set (fst (rank_best shuffle (rank_all vs)))
      = {Some v |v r. (v, Some r) \<in> set vs \<and> 0 < r \<and> (\<forall>v' r'. (v', Some r') \<in> set vs \<longrightarrow> r' \<le> r)}"
    (is "?L = ?R")
proof -
  let ?rk = "rank_all vs"
  let ?m = "rank_map ?rk"
  have f: "unqueried ?rk" by (rule rank_all_unqueried)
  note m = set_rank_all [of vs]
  show ?thesis
  proof (cases "?m = []")
    case True
    then have none: "\<not> 0 < r" if "(v, Some r) \<in> set vs" for v r using m that by auto
    then show ?thesis using rank_best_empty [OF True, of shuffle] assms [of "[]"] by auto
  next
    case False
    have top: "r' \<le> r" if "0 < r" "\<forall>(r', v') \<in> set ?m. r' \<le> r" "(v', Some r') \<in> set vs" for r r' v'
      using that m by (cases "0 < r'") auto
    have "?L = {Some v |v. \<exists>r. (r, v) \<in> set ?m \<and> (\<forall>(r', v') \<in> set ?m. r' \<le> r)}"
      using rank_best_top [where m = ?m and rk = ?rk] f False assms by (simp add: queried_def unqueried_def)
    also have "\<dots> = ?R"
    proof (intro set_eqI iffI)
      fix y assume "y \<in> {Some v |v. \<exists>r. (r, v) \<in> set ?m \<and> (\<forall>(r', v') \<in> set ?m. r' \<le> r)}"
      then obtain v r where v: "y = Some v" "(r, v) \<in> set ?m" "\<forall>(r', v') \<in> set ?m. r' \<le> r" by blast
      then have "(v, Some r) \<in> set vs" "0 < r" using m by auto
      then show "y \<in> ?R" using v(1) top [OF _ v(3)] by blast
    next
      fix y assume "y \<in> ?R"
      then obtain v r where v: "y = Some v" "(v, Some r) \<in> set vs" "0 < r"
        "\<forall>v' r'. (v', Some r') \<in> set vs \<longrightarrow> r' \<le> r" by blast
      then have "(r, v) \<in> set ?m" "\<forall>(r', v') \<in> set ?m. r' \<le> r" using m by auto
      then show "y \<in> {Some v |v. \<exists>r. (r, v) \<in> set ?m \<and> (\<forall>(r', v') \<in> set ?m. r' \<le> r)}" using v(1) by blast
    qed
    finally show ?thesis .
  qed
qed

theorem ranking_best_witness:
  "set (fst (rank_best rev (rank_all [(1::nat, Some (1 / 2)), (2, Some 2), (3, None), (4, Some 2)]))) = {Some 2, Some 4}"
proof -
  let ?vs = "[(1::nat, Some (1 / 2)), (2, Some (2::rat)), (3, None), (4, Some 2)]"
  have "{Some v |v r. (v, Some r) \<in> set ?vs \<and> 0 < r \<and> (\<forall>v' r'. (v', Some r') \<in> set ?vs \<longrightarrow> r' \<le> r)}
      = {Some 2, Some 4}" by auto metis
  with ranking_best [of rev ?vs] show ?thesis by simp
qed

end
