(* ===== verification/Consequence.thy ===== *)
theory Consequence
  imports FilterFacts
begin

text \<open>
  \<^verbatim>\<open>hal2012-consequence2012.cpp\<close>: rules read from a sentence with an if-clause. \<^verbatim>\<open>assign\<close> splits
  the parts of a fact into a cause and an effect, \<^verbatim>\<open>match\<close> compares the cause with a fact.

  The pointers \<^verbatim>\<open>cause\<close> and \<^verbatim>\<open>effect\<close> are null until the first \<^verbatim>\<open>assign\<close> and are options here;
  the operations that dereference them return an option. The parts are shared with the fact by
  pointers and not changed; only their caches are filled by the comparison.

  The lemmas show which rules are valid and what matches a rule.
\<close>

section \<open>The operations\<close>

record conseq =
  valid :: bool
  cause :: "xml_obj option"
  effect :: "xml_obj option"

definition conseq_new :: conseq where
  "conseq_new = \<lparr>valid = False, cause = None, effect = None\<rparr>"

definition get_if_words_list :: "word list" where
  "get_if_words_list = [new_word ''if'', new_word ''when'', new_word ''wenn'', new_word ''falls'']"

definition get_if_words_xmlobj :: xml_obj where
  "get_if_words_xmlobj =
    fold (\<lambda>syn o1. push (push (xml_set_text (wtext syn) (new_xml TEXT)) (set_name ''text'' (new_xml LIST))) o1)
      get_if_words_list (set_name ''synonyms'' (new_xml LIST))"

definition is_if_clause :: "xml_obj \<Rightarrow> bool" where
  "is_if_clause obj \<longleftrightarrow> d_ge (obj_and2 (part ''questionword'' obj) get_if_words_xmlobj) 1"

definition assign_part :: "xml_obj \<Rightarrow> xml_obj \<times> xml_obj \<Rightarrow> xml_obj \<times> xml_obj" where
  "assign_part obj st =
    (let (c, e) = st in
     if xname obj = ''clause'' then
       (if is_if_clause obj then (push_all (xcontent obj) c, e) else (c, push obj e))
     else (c, push obj e))"

definition assign :: "xml_obj \<Rightarrow> conseq \<Rightarrow> conseq" where
  "assign o1 q =
    (let (c, e) = fold assign_part (xcontent o1)
                    (set_name ''cause'' (new_xml LIST), set_name ''effect'' (new_xml LIST))
     in q\<lparr>cause := Some c, effect := Some e, valid := (obj_and2 c e \<noteq> Some 0)\<rparr>)"

definition assign_fact :: "xml_fact \<Rightarrow> conseq \<Rightarrow> conseq" where
  "assign_fact f q = assign (fact_obj f) q"

definition match :: "conseq \<Rightarrow> xml_obj \<Rightarrow> bool option" where
  "match q o1 =
    (case cause q of
       None \<Rightarrow> None
     | Some c \<Rightarrow>
         Some ((obj_and2 (part ''subject'' c) (part ''subject'' o1) \<noteq> Some 0)
             \<and> (obj_and2 (part ''object'' c) (part ''object'' o1) \<noteq> Some 0)
             \<and> (obj_and2 (part ''adverbs'' c) (part ''adverbs'' o1) \<noteq> Some 0)))"

definition conseq_print_str :: "conseq \<Rightarrow> string option" where
  "conseq_print_str q =
    (case (cause q, effect q) of
       (Some c, Some e) \<Rightarrow>
         Some (''cause: '' @ print_str c @ [newline] @ ''effect: '' @ print_str e @ [newline])
     | _ \<Rightarrow> None)"

definition conseq_print_xml :: "conseq \<Rightarrow> string option" where
  "conseq_print_xml q =
    (case (cause q, effect q) of
       (Some c, Some e) \<Rightarrow>
         Some (''<consequence>'' @ [newline] @ obj_print_xml c @ obj_print_xml e
           @ ''</consequence>'' @ [newline])
     | _ \<Rightarrow> None)"

section \<open>Lemmas\<close>

definition if_clause :: "xml_obj \<Rightarrow> bool" where
  "if_clause obj \<longleftrightarrow> xname obj = ''clause'' \<and> is_if_clause obj"

definition node :: "string \<Rightarrow> xml_obj list \<Rightarrow> xml_obj" where
  "node n cs = push_all cs (set_name n (new_xml LIST))"

lemma push_all_append: "push_all (xs @ ys) x = push_all ys (push_all xs x)"
  by (simp add: push_all_def)

lemma push_all_push: "push y (push_all xs x) = push_all (xs @ [y]) x"
  by (simp add: push_all_def)

lemma node_sel [simp]: "xmode (node n cs) = LIST" "xname (node n cs) = n" "xcontent (node n cs) = cs"
  by (simp_all add: node_def push_all_sel set_name_sel new_xml_sel)

lemma assign_parts:
  "fold assign_part ps (node ''cause'' cs, node ''effect'' es) =
    (node ''cause'' (cs @ concat (map xcontent (filter if_clause ps))),
     node ''effect'' (es @ filter (\<lambda>p. \<not> if_clause p) ps))"
proof (induction ps arbitrary: cs es)
  case (Cons p ps)
  have "assign_part p (node ''cause'' cs, node ''effect'' es) =
      (node ''cause'' (cs @ (if if_clause p then xcontent p else [])),
       node ''effect'' (es @ (if if_clause p then [] else [p])))"
    by (simp add: assign_part_def if_clause_def node_def push_all_append push_all_push)
       (simp add: push_all_def)
  then show ?case using Cons by simp
qed simp

definition cause_of :: "xml_obj \<Rightarrow> xml_obj" where
  "cause_of o1 = node ''cause'' (concat (map xcontent (filter if_clause (xcontent o1))))"

definition effect_of :: "xml_obj \<Rightarrow> xml_obj" where
  "effect_of o1 = node ''effect'' (filter (\<lambda>p. \<not> if_clause p) (xcontent o1))"

lemma assign_eq:
  "assign o1 q = q\<lparr>cause := Some (cause_of o1), effect := Some (effect_of o1),
    valid := (obj_and2 (cause_of o1) (effect_of o1) \<noteq> Some 0)\<rparr>"
  using assign_parts [of "xcontent o1" "[]" "[]"]
  by (simp add: assign_def cause_of_def effect_of_def node_def push_all_def)


lemma holds_in_node: "n \<noteq> ''link_&'' \<Longrightarrow> holds_in P (node n cs) \<longleftrightarrow> (\<exists>c \<in> set cs. holds_in P c)"
  by (simp add: holds_in_eq [of P "node n cs"])

lemma part_name: "xname (part tag x) = tag"
proof -
  have "xname (fold (\<lambda>c s. push_all (xcontent c) s) cs s) = xname s" for cs s
    by (induction cs arbitrary: s) auto
  moreover have "\<forall>c \<in> set (part_list tag x). xname c = tag" by (simp add: part_list_def)
  ultimately show ?thesis by (simp add: part_def split: list.split)
qed

lemma obj_and2_nonzero:
  assumes "xname x \<noteq> ''synonyms''"
  shows "obj_and2 x y \<noteq> Some 0 \<longleftrightarrow> agree x y"
proof -
  have "score_ok (obj_and2 x y)"
    unfolding obj_and2_def by (rule compare_score_ok) (simp_all add: word_obj_and2_nonneg assms)
  then have "obj_and2 x y \<noteq> Some 0 \<longleftrightarrow> d_pos (obj_and2 x y)" by (auto simp: score_ok_def d_pos_def)
  then show ?thesis by (simp add: obj_and2_iff)
qed

definition has_if_word :: "xml_obj \<Rightarrow> bool" where
  "has_if_word x \<longleftrightarrow>
    holds_in (\<lambda>l. xmode l = TEXT
      \<and> (\<exists>w \<in> set (fst (get_words l)). lc (wtext w) \<in> {''if'', ''when'', ''wenn'', ''falls''})) x"

lemma if_words_leaves: "text_leaves get_if_words_xmlobj = map from_text [''if'', ''when'', ''wenn'', ''falls'']"
  by code_simp

lemma if_words_words: "map (\<lambda>l. fst (get_words l)) (map from_text [''if'', ''when'', ''wenn'', ''falls'']) =
    [[new_word ''if''], [new_word ''when''], [new_word ''wenn''], [new_word ''falls'']]"
  by code_simp

lemma if_words_no_link: "no_link get_if_words_xmlobj"
  by code_simp


lemma has_if_word_agree: "agree x get_if_words_xmlobj \<longleftrightarrow> has_if_word x"
proof -
  have w: "set (fst (get_words (from_text s))) = {new_word s}"
    if "s \<in> {''if'', ''when'', ''wenn'', ''falls''}" for s
    using if_words_words that by auto
  have lcs: "map lc [''if'', ''when'', ''wenn'', ''falls''] = [''if'', ''when'', ''wenn'', ''falls'']"
    by code_simp
  have s: "same_word v (new_word s) \<longleftrightarrow> lc (wtext v) = s"
    if "s \<in> {''if'', ''when'', ''wenn'', ''falls''}" for v s
    using that lcs by (auto simp: same_word_def new_word_def)
  have "xmode (from_text s) = TEXT" if "s \<in> {''if'', ''when'', ''wenn'', ''falls''}" for s
  proof -
    have "list_all (\<lambda>s. xmode (from_text s) = TEXT) [''if'', ''when'', ''wenn'', ''falls'']" by code_simp
    then show ?thesis using that by auto
  qed
  then have "holds_in (common_word l) get_if_words_xmlobj \<longleftrightarrow> xmode l = TEXT
      \<and> (\<exists>w \<in> set (fst (get_words l)). lc (wtext w) \<in> {''if'', ''when'', ''wenn'', ''falls''})" for l
    by (simp add: holds_in_no_link [OF if_words_no_link] common_word_def if_words_leaves w s) blast
  then show ?thesis by (simp add: agree_def has_if_word_def)
qed

lemma if_clause_iff: "if_clause p \<longleftrightarrow> xname p = ''clause'' \<and> has_if_word (part ''questionword'' p)"
proof -
  let ?m = "obj_and2 (part ''questionword'' p) get_if_words_xmlobj"
  have "1 \<le> r" if "?m = Some r" "0 < r" for r
    using that compare_ge_1 [of word_obj_and2] unfolding obj_and2_def
    by (metis word_obj_and2_cases order_refl)
  then have "d_ge ?m 1 \<longleftrightarrow> d_pos ?m"
    by (cases ?m) (auto simp: d_ge_def d_pos_def)
  then show ?thesis
    using obj_and2_iff has_if_word_agree by (auto simp: if_clause_def is_if_clause_def)
qed


section \<open>Properties\<close>

definition if_part :: "xml_obj \<Rightarrow> bool" where
  "if_part p \<longleftrightarrow> xname p = ''clause'' \<and> has_if_word (part ''questionword'' p)"

definition text_part :: "string \<Rightarrow> string \<Rightarrow> xml_obj" where
  "text_part n s = node n [node ''text'' [from_text s]]"

text \<open>If it rains then the cat sleeps; and a fact that repeats the cause.\<close>

definition rule_example :: "string \<Rightarrow> xml_obj" where
  "rule_example s =
    node ''fact'' [text_part ''verb'' ''is'', text_part ''subject'' s, text_part ''adverbs'' ''today'',
      node ''clause'' [text_part ''questionword'' ''If'', text_part ''verb'' ''is'',
        text_part ''subject'' ''cat'', text_part ''object'' ''wet'', text_part ''adverbs'' ''outside'']]"

definition wet_fact :: "xml_obj list \<Rightarrow> xml_obj" where
  "wet_fact ps = node ''fact'' ([text_part ''verb'' ''is'', text_part ''subject'' ''Cat'',
    text_part ''object'' ''wet''] @ ps)"

text \<open>The cat and the dog in the if-clause, and other words in the main clause.\<close>

definition text_item :: "string \<Rightarrow> xml_obj" where
  "text_item s = node ''text'' [from_text s]"

definition linked_rule :: "string \<Rightarrow> xml_obj" where
  "linked_rule s =
    node ''fact'' [text_part ''verb'' ''sleep'', node ''subject'' [text_item ''cat'', text_item s],
      node ''clause'' [text_part ''questionword'' ''If'', text_part ''verb'' ''are'',
        node ''subject'' [node ''link_&'' [text_item ''cat'', text_item ''dog'']]]]"

text \<open>C27. A sentence becomes a valid rule exactly when a part of one of its if-clauses, the clauses
  with a question word \<open>if\<close>, \<open>when\<close>, \<open>wenn\<close> or \<open>falls\<close> in any case, has a word in common with one of
  its other parts: the conjunction of the two pointers in \<^verbatim>\<open>assign\<close> is the comparison of two
  trees. A conjunction, a \<^verbatim>\<open>link_&\<close> node, has a word in common when each of its parts has one; this is
  what \<^const>\<open>holds_in\<close> says of the nodes of a tree, those of the other parts included. A sentence whose if-clause and
  main clause have different words is no valid rule.\<close>

theorem consequence_valid:
  "valid (assign o1 q) \<longleftrightarrow>
    (\<exists>i \<in> set (xcontent o1). if_part i \<and>
      (\<exists>c \<in> set (xcontent i).
        holds_in (\<lambda>l. \<exists>p \<in> set (xcontent o1). \<not> if_part p \<and> holds_in (common_word l) p) c))"
proof -
  have i: "if_clause = if_part" by (rule ext) (simp add: if_clause_iff if_part_def)
  have "valid (assign o1 q) \<longleftrightarrow> agree (cause_of o1) (effect_of o1)"
    by (simp add: assign_eq obj_and2_nonzero cause_of_def)
  also have "\<dots> \<longleftrightarrow> (\<exists>c \<in> set (xcontent (cause_of o1)).
      holds_in (\<lambda>l. \<exists>p \<in> set (xcontent o1). \<not> if_part p \<and> holds_in (common_word l) p) c)"
    by (simp add: agree_def cause_of_def effect_of_def holds_in_node i Bex_def conj_assoc)
  also have "\<dots> \<longleftrightarrow> (\<exists>i \<in> set (xcontent o1). if_part i \<and> (\<exists>c \<in> set (xcontent i).
      holds_in (\<lambda>l. \<exists>p \<in> set (xcontent o1). \<not> if_part p \<and> holds_in (common_word l) p) c))"
    by (auto simp: cause_of_def i)
  finally show ?thesis .
qed

theorem consequence_valid_witness:
  "valid (assign (rule_example ''cat'') conseq_new)
  \<and> valid (assign (linked_rule ''dog'') conseq_new) \<and> \<not> valid (assign (linked_rule ''bird'') conseq_new)"
proof -
  let ?valid = "\<lambda>o1. \<exists>i \<in> set (xcontent o1). if_part i \<and> (\<exists>c \<in> set (xcontent i).
      holds_in (\<lambda>l. \<exists>p \<in> set (xcontent o1). \<not> if_part p \<and> holds_in (common_word l) p) c)"
  have "?valid (rule_example ''cat'')" "?valid (linked_rule ''dog'')" "\<not> ?valid (linked_rule ''bird'')"
    by code_simp+
  then show ?thesis by (simp only: consequence_valid simp_thms)
qed

text \<open>C28. A fact matches a rule exactly when its subjects, its objects and its adverbs each have
  a word in common with those of the cause, where of a conjunction, in the cause or in the fact, each part must have
  one; so a fact without adverbs, or a rule whose cause has none, never matches.\<close>

theorem consequence_match:
  "match (assign o1 q) f =
    Some (\<forall>role \<in> {''subject'', ''object'', ''adverbs''}. agree (part role (cause_of o1)) (part role f))"
  by (simp add: match_def assign_eq obj_and2_nonzero part_name)

theorem consequence_match_witness:
  "match (assign (rule_example ''cat'') conseq_new) (wet_fact [text_part ''adverbs'' ''Outside'']) = Some True
  \<and> match (assign (rule_example ''cat'') conseq_new)
      (wet_fact [node ''adverbs'' [node ''link_&'' [text_item ''Outside'', text_item ''today'']]]) = Some False
  \<and> match (assign (rule_example ''cat'') conseq_new) (wet_fact []) = Some False"
proof -
  let ?cause = "cause_of (rule_example ''cat'')"
  have "\<forall>role \<in> {''subject'', ''object'', ''adverbs''}.
      agree (part role ?cause) (part role (wet_fact [text_part ''adverbs'' ''Outside'']))"
    by code_simp
  moreover have "\<not> agree (part ''adverbs'' ?cause)
      (part ''adverbs'' (wet_fact [node ''adverbs'' [node ''link_&'' [text_item ''Outside'', text_item ''today'']]]))"
    "\<not> agree (part ''adverbs'' ?cause) (part ''adverbs'' (wet_fact []))"
    by code_simp+
  ultimately show ?thesis by (simp add: consequence_match)
qed

end
