(* ===== verification/ParserRules.thy ===== *)
theory ParserRules
  imports Util2012
begin

text \<open>
  The rewrite rules of \<^verbatim>\<open>parser::simplify_input\<close> in \<^verbatim>\<open>hal2012-parser2012.cpp\<close>, one table for
  each run of \<^verbatim>\<open>regex_replace\<close> and \<^verbatim>\<open>regex_ireplace\<close> calls between two other statements, in
  the order of the code; \<^verbatim>\<open>Parser2012\<close> puts them together. The rules of the loops over months and
  numbers are built as the loops build them.

  The lemmas check the tables as they are written, whatever the expression engine does with them:
  which rules refer to a group that their pattern does not have, and what numbers the loops count.
\<close>

section \<open>Rules\<close>

datatype sub = Ireplace string string | Replace string string

definition subst :: "rx \<Rightarrow> sub \<Rightarrow> string \<Rightarrow> string" where
  "subst r u s =
    (case u of
       Ireplace e t \<Rightarrow> regex_ireplace r s (pattern e) (pattern t)
     | Replace e t \<Rightarrow> regex_replace r s (pattern e) (pattern t))"

definition substs :: "rx \<Rightarrow> sub list \<Rightarrow> string \<Rightarrow> string" where
  "substs r us s = fold (subst r) us s"

section \<open>Tables\<close>

definition clean_rules :: "sub list" where
  "clean_rules =
    [Replace ''[?]+'' ''?'',
     Replace ''([?])'' ''%1.'',
     Replace ''[.!~]%s*?[.!~]'' ''~'',
     Replace ''[.!~]%s*?[.!~]'' ''~'',
     Replace ''[.!](%s|$)'' '' STOP '',
     Replace ''([0-9]) STOP '' ''%1.'',
     Replace '' STOP %((.*)%)'' '' ($0) STOP . '']"

definition reason_rules :: "sub list" where
  "reason_rules =
    [Replace ''[=]{1,3}[>]'' '' reasonof '',
     Replace ''[-]{1,3}[>]'' '' reasonof '',
     Replace ''%(reasonof%)'' '' reasonof '',
     Replace ''%(reason of%)'' '' reasonof '',
     Replace ''%(reason%)'' '' reasonof '',
     Replace ''%(r%)'' '' reasonof '']"

definition mark_rules :: "sub list" where
  "mark_rules =
    [Ireplace ''9637'' ''%$%$'',
     Ireplace ''9489'' ''%$%$'',
     Ireplace ''[?][=][>]'' '' questionnext '',
     Ireplace ''[!][=][>]'' '' factnext '',
     Ireplace ''[=][>]'' '' questionnext '',
     Ireplace ''%s*[?]'' '' ?'',
     Ireplace ''^[und]<ws>[,]<ws>'' '''']"

definition no_rules :: "sub list" where
  "no_rules =
    [Ireplace ''(^|%s)no(%s|$)'' ''%1not a%2'']"

definition english_rules :: "sub list" where
  "english_rules =
    [Ireplace ''(^|%s)an%s(...)'' ''%1a %2'',
     Ireplace ''(^|%s)(are|is|be|was|were|am)%s(.+?)%sable%sto%s'' ''%1can %3 '',
     Ireplace ''(^|%s)(are|is|be|was|were|am)%sable%sto%s'' ''%1 can '',
     Ireplace ''(^|%s)(are|is|be|was|were|am)%s(.+?)%sunable%sto%s'' ''%1not can %3 '',
     Ireplace ''(^|%s)(are|is|be|was|were|am)%sunable%sto%s'' ''%1 not can '']"

definition comma_rules :: "sub list" where
  "comma_rules =
    [Ireplace ''[,]'' '' , '',
     Ireplace ''%s+'' '' '',
     Ireplace ''<ws>[,]<ws>(und|oder|or|and)'' '' %1'',
     Ireplace ''^na<ws>[,]<ws>'' '''',
     Ireplace ''^naja<ws>[,]<ws>'' '''',
     Ireplace ''^und[,]<ws>'' '''',
     Ireplace ''^na[,]<ws>'' '''']"

definition short_opening_rules :: "sub list" where
  "short_opening_rules =
    [Ireplace ''^und%s+'' '''',
     Ireplace ''^ok%s+'' '''',
     Ireplace ''^gut%s+'' '''']"

definition nein_rules :: "sub list" where
  "nein_rules =
    [Ireplace ''^nein%s+'' '''']"

definition ja_rules :: "sub list" where
  "ja_rules =
    [Ireplace ''^ja%s+'' '''']"

definition opening_rules :: "sub list" where
  "opening_rules =
    [Ireplace ''^oder%s+'' '''',
     Ireplace ''^na%s+'' '' '',
     Ireplace ''^naja%s+'' '' '',
     Ireplace ''^h[m]+?%s+'' '' '',
     Ireplace ''^(wie|was)<ws>?[,]<ws>?'' '' '',
     Ireplace ''%s%s'' '' '',
     Ireplace ''^[,]'' '' '',
     Ireplace ''%s%s'' '' '',
     Ireplace ''^du%s([a-zA-Z0-9]+?.?.?)$'' ''%1'',
     Ireplace ''%(true%)'' ''_(true)_'',
     Ireplace ''%(maybe%)'' ''_(maybe)_'',
     Ireplace ''%(false%)'' ''_(false)_'',
     Ireplace ''%(logic%)'' ''_(logic)_'',
     Ireplace ''(^|%s)es%s(.*?%s)zu%s(.?ein)em%s(.*?)%s((?:kommt)|(?:kommen))'' ''%1%2 %3 %4 ist'',
     Ireplace ''(^|%s)es%s(.*?%s)zu%s(.?ein)em%s(.*?)%s((?:gekommen ist)|(?:gekommen war)|(?:kam))'' ''%1%2 %3 %4 war'',
     Ireplace ''(^|%s)es%s(.*?%s)zu%s(.?ein)er%s(.*?)%s((?:kommt)|(?:kommen))'' ''%1%2 %3 %4 ist'',
     Ireplace ''(^|%s)es%s(.*?%s)zu%s(.?ein)er%s(.*?)%s((?:gekommen ist)|(?:gekommen war)|(?:kam))'' ''%1%2 %3e %4 war'',
     Ireplace ''jeden Tag '' ''_jeden_tag_ '',
     Replace ''Sie([^a-zA-Z])'' ''du%1'',
     Replace ''Ihnen([^a-zA-Z])'' ''dir%1'',
     Replace ''ihnen([^a-zA-Z])'' ''dir%1'',
     Replace ''eine Menge'' ''viele'',
     Replace ''(%d)%.(%d)'' ''%1%2'']"

definition name_question_rules :: "sub list" where
  "name_question_rules =
    [Replace ''^(ist|war|sind|waren)%s([a-z]+?)%s(ein.?.?)%s([A-Z][a-z]+?)(%s?[?]?)$'' ''%1 _%2_ %3 %4 %5'',
     Ireplace ''^(.*?)du mir deinen Namen.*?$'' ''Wie ist dein Name? '',
     Ireplace ''^(.*?)du mir.*?deinen Namen.*?$'' ''Wie ist dein Name? '']"

definition as_well_rules :: "sub list" where
  "as_well_rules =
    [Ireplace ''sowohl%s(.+?)als auch([a-z0-9%s]*?[A-Z][a-z]+?)(%s|$)'' ''%1 %$%$aswellas%$%$ %2%3'',
     Ireplace ''sowohl%s(.+?)als auch(.*)'' ''%1 %$%$aswellas%$%$ %2'',
     Ireplace ''weder%s(.+?)noch([a-z0-9%s]*?[A-Z][a-z]+?)(%s|$)'' ''nicht %1 %$%$aswellas%$%$ %2%3'',
     Ireplace ''weder%s(.+?)noch(.*)'' ''nicht %1 %$%$aswellas%$%$ %2'',
     Ireplace ''(Anfang|Ende) (januar|jaenner|februar|maerz|april|mai|juni|juli|august|september|oktober|november|dezember)'' ''in dem _%2_'',
     Ireplace ''jaenner'' ''januar'']"

definition compare_rules :: "sub list" where
  "compare_rules =
    [Ireplace ''(^)([A-Z][a-z]+?en) (ist) '' ''%1_%2_ %3 '',
     Ireplace ''(^|%s)genauso (.*?) wie '' ''%1genauso %2 wie{{{adj}}} '',
     Ireplace ''(^|%s)so (.*?) wie '' ''%1so %2 wie{{{adj}}} '',
     Ireplace ''was ist '' ''was ist '',
     Replace ''was ist ([A-Z][a-z]+?)([%.?!+,;-%s]*?)$'' ''was ist _%1_%2'',
     Ireplace ''wie war '' ''wie ist '',
     Ireplace ''%s+kein'' '' nicht ein'',
     Ireplace ''(^|%s)?und sonst(%s|%$)'' '' wie geht es dir '',
     Ireplace ''(^|%s)?bevor%s'' '' , bevor '',
     Ireplace ''(^|%s)?kurz %, bevor%s'' '' , kurz bevor '',
     Ireplace ''^ %,'' '' '',
     Ireplace ''^%,'' '' '',
     Ireplace '' mehr als '' '' mehr als{{{adj}}} '',
     Ireplace '' lust zu '' '' lust , zu '',
     Ireplace '' weisst du was (.*) ist '' '' was ist %1 '']"

definition weisst_rules :: "sub list" where
  "weisst_rules =
    [Ireplace '' weisst du '' '' weisst du , '']"

definition lately_rules :: "sub list" where
  "lately_rules =
    [Ireplace '' weniger als '' '' wenigerals '',
     Ireplace '' bis zu '' '' biszu '',
     Ireplace '' bis in '' '' bisin '',
     Ireplace '' bis auf '' '' bisauf '',
     Ireplace ''^bis zu '' '' biszu '',
     Ireplace ''^bis in '' '' bisin '',
     Ireplace ''^bis auf '' '' bisauf '',
     Ireplace ''^kein(.*)'' ''ein%1 nicht'',
     Ireplace ''wozu braucht man '' ''was ist '',
     Ireplace ''(brauch)(st|e|en)(.*?)zu%s(haben)'' ''%1%2%3 %4'',
     Replace ''(^|%s)X(%s|$)'' ''%1%$a%$%2'',
     Replace ''(^|%s)Y(%s|$)'' ''%1%$b%$%2'',
     Replace ''(^|%s)Z(%s|$)'' ''%1%$c%$%2'',
     Ireplace ''([0-9]|%$)%s*?(mal)%s*?([0-9]|%$)'' ''%1*%3'',
     Ireplace ''(^|%s)([+-])ein(%s|$)'' ''%1%2 1%3'']"

definition today_rules :: "sub list" where
  "today_rules =
    [Ireplace ''(tag|datum|monat|woche|jahr) war%s'' ''%1 ist '',
     Ireplace ''welche uhrzeit%s'' ''wie uhr '',
     Ireplace ''%suhr%shaben%swir%s'' '' uhr ist es '',
     Ireplace ''%suhr%shaben%swir[?]'' '' uhr ist es?'',
     Ireplace ''aneinander '' ''aneinander'',
     Ireplace ''%shaben%swir%sheute'' '' haben wir '',
     Ireplace ''%sist%sheute'' '' ist '',
     Ireplace ''(%s|^)(ist|bist)%s(.*?)%sheute%s'' ''%1%2 %3 '',
     Ireplace ''welchen%stag%shaben%swir%s'' ''welch Datum haben wir '',
     Ireplace ''welcher%stag%sist%s'' ''welch Datum haben wir '',
     Ireplace '' hab '' '' habe '']"

definition freehal_rules :: "sub list" where
  "freehal_rules =
    [Ireplace '' FreeHAL(.?.?.?.?)$'' '' %1'']"

definition noch_rules :: "sub list" where
  "noch_rules =
    [Ireplace ''%snoch%s(nie|nicht)([%s!.,?]+)'' '' noch-%1%2'',
     Ireplace ''%snoch([%s!.,?]+)'' ''%1'',
     Ireplace ''%snoch[-](nie|nicht)([%s!.,?]+)'' '' noch %1%2'',
     Ireplace ''(^|[%s!.,?]+)(so)%setwas([%s!.,?]+)'' ''%1_%2_etwas_%3'',
     Ireplace ''(^|[%s!.,?]+)(so)was([%s!.,?]+)'' ''%1_%2_etwas_%3'']"

definition know_rules :: "sub list" where
  "know_rules =
    [Ireplace ''do you know '' '''']"

definition date_rules :: "sub list" where
  "date_rules =
    [Ireplace ''^you know (wh)'' ''%1'',
     Ireplace ''%sreally'' '''',
     Ireplace ''world wide web'' ''_world_wide_web_'',
     Ireplace ''Hersteller von'' ''Hersteller fuer'',
     Ireplace ''(^|%s)(%d+?)%.%s*?januar(%s|$)'' ''%1%2.01.%4'',
     Ireplace ''(^|%s)(%d+?)%.%s*?jaenner(%s|$)'' ''%1%2.01.%4'',
     Ireplace ''(^|%s)(%d+?)%.%s*?februar(%s|$)'' ''%1%2.02.%4'',
     Ireplace ''(^|%s)(%d+?)%.%s*?maerz(%s|$)'' ''%1%2.03.%4'',
     Ireplace ''(^|%s)(%d+?)%.%s*?april(%s|$)'' ''%1%2.04.%4'',
     Ireplace ''(^|%s)(%d+?)%.%s*?mai(%s|$)'' ''%1%2.05.%4'',
     Ireplace ''(^|%s)(%d+?)%.%s*?juni(%s|$)'' ''%1%2.06.%4'',
     Ireplace ''(^|%s)(%d+?)%.%s*?juli(%s|$)'' ''%1%2.07.%4'',
     Ireplace ''(^|%s)(%d+?)%.%s*?august(%s|$)'' ''%1%2.08.%4'',
     Ireplace ''(^|%s)(%d+?)%.%s*?september(%s|$)'' ''%1%2.09.%4'',
     Ireplace ''(^|%s)(%d+?)%.%s*?oktober(%s|$)'' ''%1%2.10.%4'',
     Ireplace ''(^|%s)(%d+?)%.%s*?november(%s|$)'' ''%1%2.11.%4'',
     Ireplace ''(^|%s)(%d+?)%.%s*?dezember(%s|$)'' ''%1%2.12.%4'',
     Ireplace ''(^|%s)(%d)%.(%d+?)%.(%d+?)(%s|$)'' ''%1 0%2.%3.%4%5'',
     Ireplace ''(^|%s)(%d+?)%.(%d)%.(%d+?)(%s|$)'' ''%1%2.0%3.%4%5'',
     Ireplace ''(^|%s)(%d+?)%.(%d+?)%.(%d%d)(%s|$)'' ''%1%2.%3.19%4%5'',
     Replace ''(^|%s)(%d+?)%.(%d+?)%.(%d+?)(%s|$)'' ''%2.%3.%4%5'',
     Replace ''(^|%s)(%d+?)%.(%d+?)%.?(%s|$)'' ''%2.%3.0000%5'']"

definition genitive_rules :: "sub list" where
  "genitive_rules =
    [Ireplace ''(^|%s)sein%s([A-Z])'' ''%1sein{{{art}}} %2'',
     Ireplace ''%s([mds])eines%s(.*?[a-z])s(%s|$)'' '' von %1einem %2%3'',
     Ireplace ''%s([mds])eines%s'' '' von %1einem '',
     Ireplace ''%s([mds])eines%s'' '' von %1einem '',
     Ireplace ''%s([mds])einer%s'' '' von %1einer '',
     Ireplace ''%s(aus|von|in|an)%svon%s([mds])eine([rs])%s'' '' %1 %2eine%3 '',
     Replace ''(%s)([A-Z][a-z]*?)%sder%s([A-Z])'' ''%1%2 von der _%3_'',
     Replace ''(%s)([A-Z][a-z]*?)%sdes%s((?:[a-z]+?%s)*[A-Z][a-z]*?)s([^a-zA-Z])'' ''%1%2 von dem _%3_%4'',
     Replace ''(%s)([A-Z][a-z]*?)%sdes%s([A-Z])'' ''%1%2 von dem _%3_'',
     Replace ''(%s)([A-Z][a-z]*?)%sjeder%s([A-Z])'' ''%1%2 von jeder _%3_'',
     Replace ''(%s)([A-Z][a-z]*?)%sjedes%s([A-Z][a-z]*?)s([^a-zA-Z])'' ''%1%2 von jedem _%3_%4'',
     Replace ''(%s)([A-Z][a-z]*?)%sjedes%s([A-Z])'' ''%1%2 von jedem _%3_'',
     Replace ''(%s)([A-Z][a-z]*?)%s(mehrer|viel|wenig|einig)er%s([A-Z])'' ''%1%2 von %3en %4'']"

definition equal_rules :: "sub list" where
  "equal_rules =
    [Ireplace ''%s?ist dasselbe wie%s?'' '' = '',
     Ireplace ''%s?ist dasgleiche wie%s?'' '' = '',
     Ireplace ''%s?ist das selbe wie%s?'' '' = '',
     Ireplace ''%s?ist das gleiche wie%s?'' '' = '',
     Ireplace ''%s?is the same as%s?'' '' = '',
     Ireplace ''%s?is same as%s?'' '' = '',
     Replace ''befindet sich'' ''liegt'',
     Replace ''sich (.*?)befindet'' ''%1liegt'',
     Ireplace ''teil von ein.?.?%s'' ''teil von '']"

definition article_rules :: "sub list" where
  "article_rules =
    [Ireplace ''^(ein|eine)%s'' '' '']"

definition wording_rules :: "sub list" where
  "wording_rules =
    [Ireplace ''(^|%s)du hast (.*?) aus '' ''%1du bekommst %2 aus '',
     Ireplace ''(^|%s)woher hast du '' ''%1woher bekommst du '',
     Ireplace ''(^|%s)woher hast du '' ''%1woher bekommst du '',
     Ireplace '' wehnig '' '' wenig '',
     Ireplace ''niss(%s|$)'' ''nis%1'',
     Ireplace ''^wovon '' ''was '',
     Ireplace '' wovon '' '' was '',
     Ireplace ''^von was '' ''was '',
     Ireplace '' von was '' '' was '',
     Ireplace ''^([A-Z][a-z]+?en) ist '' ''_%1_ ist '',
     Ireplace '' wirst du genannt'' '' heisst du '',
     Ireplace '' wird (.*?) genannt'' '' %1 ist '',
     Ireplace ''^das%s([a-z]+?)%s(ich|du)'' ''%2 %1 das '',
     Ireplace '' ein jeder '' '' _jeder_ '',
     Ireplace '' sinn des lebens'' '' _sinn_des_lebens_ '',
     Ireplace '' du jetzt '' '' du '',
     Ireplace '' ich jetzt '' '' ich '',
     Ireplace '' befindet sich '' '' liegt '',
     Ireplace '' befinden sich '' '' liegen '',
     Ireplace '' befinde mich '' '' liege '',
     Ireplace '' befindest dich '' '' liegst '',
     Ireplace '' sich befindet '' '' liegt '',
     Ireplace '' sich befinden '' '' liegen '',
     Ireplace '' mich befinde '' '' liege '',
     Ireplace '' dich befindest '' '' liegst '',
     Ireplace ''(^|%s)da([r]?)(durch|auf|fuer|an) '' '' %3 _das_ '',
     Ireplace ''([0-9])([a-z]|[A-Z])'' ''%1 %2'',
     Ireplace ''([a-z]|[A-Z])([0-9])'' ''%1 %2'',
     Ireplace ''([0-9])%.([a-zA-Z])'' ''%1 %2'',
     Ireplace ''([a-z]|[A-Z])%.([0-9])'' ''%1 %2'',
     Ireplace ''%smacht man mit%s'' '' ist '',
     Ireplace ''%sist mit%s'' '' ist-mit '',
     Ireplace ''Was fuer (.*?) kennst du.*'' ''was ist %1 ?'',
     Ireplace ''dem Begriff der '' ''der '',
     Ireplace ''den Begriff der '' ''die '',
     Ireplace ''der Begriff der '' ''die '',
     Ireplace ''dem Begriff des '' ''dem '',
     Ireplace ''den Begriff des '' ''das '',
     Ireplace ''der Begriff des '' ''das '',
     Ireplace ''([-_a-zA-Z]+?%s+?[-_a-zA-Z]+?)%s*?[,]%s*?([-_a-zA-Z]+?%s+?[-_a-zA-Z]+?)%s*?(und|oder)%s*?([-_a-zA-Z]+?%s+?[-_a-zA-Z]+?)'' ''%1 %3 %2 %3 %4'',
     Ireplace ''([-_a-zA-Z]+?)%s*?[,]%s*?([-_a-zA-Z]+?%s+?[-_a-zA-Z]+?)%s*?(und|oder)%s*?([-_a-zA-Z]+?%s+?[-_a-zA-Z]+?)'' ''%1 %3 %2 %3 %4'',
     Ireplace ''([-_a-zA-Z]+?%s+?[-_a-zA-Z]+?)%s*?[,]%s*?([-_a-zA-Z]+?%s+?[-_a-zA-Z]+?)%s*?(und|oder)%s*?([-_a-zA-Z]+?)'' ''%1 %3 %2 %3 %4'',
     Ireplace ''([-_a-zA-Z]+?)%s*?[,]%s*?([-_a-zA-Z]+?)%s*?(und|oder)%s*?([-_a-zA-Z]+?%s+?[-_a-zA-Z]+?)'' ''%1 %3 %2 %3 %4'',
     Ireplace ''([-_a-zA-Z]+?)%s*?[,]%s*?([-_a-zA-Z]+?%s+?[-_a-zA-Z]+?)%s*?(und|oder)%s*?([-_a-zA-Z]+?)'' ''%1 %3 %2 %3 %4'',
     Ireplace ''([-_a-zA-Z]+?%s+?[-_a-zA-Z]+?)%s*?[,]%s*?([-_a-zA-Z]+?)%s*?(und|oder)%s*?([-_a-zA-Z]+?)'' ''%1 %3 %2 %3 %4'',
     Ireplace ''([-_a-zA-Z]+?)%s*?[,]%s*?([-_a-zA-Z]+?)%s*?(und|oder)%s*?([-_a-zA-Z]+?)'' ''%1 %3 %2 %3 %4'',
     Ireplace ''^was%sgeht<ws>[?]'' ''wie geht es dir?'',
     Ireplace ''^was%sgeht$'' ''wie geht es dir?'']"

definition ask_rules :: "sub list" where
  "ask_rules =
    [Ireplace ''^was%sgeht%sab<ws>[?]'' ''wie geht es dir?'',
     Ireplace ''^was%sgeht%sab$'' ''wie geht es dir?'',
     Ireplace ''^wie%slang%s'' ''wie '',
     Ireplace ''^wie%slange%s'' ''wie '',
     Ireplace ''Ihnen'' ''dir'',
     Ireplace ''%sdenn<ws>?[?]'' '' ?'',
     Ireplace ''%sdenn[?]'' '' ?'',
     Ireplace ''%sdann<ws>?[?]'' '' ?'',
     Ireplace ''%sdann[?]'' '' ?'',
     Ireplace ''St%.'' ''St'',
     Ireplace ''bitte (sag|erzaehl)'' ''%1'',
     Ireplace ''Kannst du mir sagen[,]+'' '''',
     Ireplace ''Kannst du mir sagen'' '''',
     Ireplace ''sage mir '' ''was ist '',
     Ireplace ''sag was '' ''was ist '',
     Ireplace ''sag etwas '' ''was ist '',
     Ireplace ''sag '' ''was ist '',
     Ireplace ''(ich glaube) ([a-zA-Z])'' ''%1 , %2'',
     Ireplace ''(ich denke) ([a-zA-Z])'' ''%1 , %2'',
     Ireplace ''stelle mir eine frage'' ''was ist '',
     Ireplace ''stell mir eine frage'' ''was ist '',
     Ireplace ''stelle eine frage'' ''was ist '',
     Ireplace ''stell eine frage'' ''was ist '',
     Ireplace ''Was kannst du mir ueber (.*?) sagen'' ''was ist %1'',
     Ireplace ''Was weisst du ueber (.*?)$'' ''was ist %1'',
     Ireplace ''Was kannst du mir ueber (.*?) erzaehlen'' ''was ist %1'',
     Ireplace ''Was kannst du ueber (.*?) sagen'' ''was ist %1'',
     Ireplace ''Was weisst du alles'' ''was ist'',
     Ireplace ''frag mich was'' ''was ist'',
     Ireplace ''frag mich etwas'' ''was ist'',
     Ireplace ''frag mich<ws>?[,]'' '''',
     Ireplace ''was ist ([dsmk]?ein)([a-zA-Z]+?)%s'' ''was ist %1%2 '',
     Ireplace ''was denkst du ueber '' ''was ist '',
     Ireplace ''wie denkst du ueber '' ''was ist '',
     Ireplace ''was haeltst du von '' ''was ist '',
     Ireplace ''was haelst du von '' ''was ist '',
     Ireplace ''erzaehl mir was(?:([%s!?.]?.*?$)|$)'' ''was ist %1 ?'',
     Ireplace ''erzaehl mir etwas(?:([%s!?.]?.*?$)|$)'' ''was ist %1 ?'',
     Ireplace ''erzaehle mir was(?:([%s!?.]?.*?$)|$)'' ''was ist %1 ?'',
     Ireplace ''erzaehle mir etwas(?:([%s!?.]?.*?$)|$)'' ''was ist %1 ?'',
     Ireplace ''erzaehl mir bitte was(?:([%s!?.]?.*?$)|$)'' ''was ist %1 ?'',
     Ireplace ''erzaehl mir bitte etwas(?:([%s!?.]?.*?$)|$)'' ''was ist %1 ?'',
     Ireplace ''erzaehle mir bitte was(?:([%s!?.]?.*?$)|$)'' ''was ist %1 ?'',
     Ireplace ''erzaehle mir bitte etwas(?:([%s!?.]?.*?$)|$)'' ''was ist %1 ?'',
     Ireplace ''erzael mir was(?:([%s!?.]?.*?$)|$)'' ''was ist %1 ?'',
     Ireplace ''erzael mir etwas(?:([%s!?.]?.*?$)|$)'' ''was ist %1 ?'',
     Ireplace ''erzaele mir was(?:([%s!?.]?.*?$)|$)'' ''was ist %1 ?'',
     Ireplace ''erzaele mir etwas(?:([%s!?.]?.*?$)|$)'' ''was ist %1 ?'',
     Ireplace ''erzaehl was(?:([%s!?.]?.*?$)|$)'' ''was ist %1 ?'',
     Ireplace ''erzaehl etwas(?:([%s!?.]?.*?$)|$)'' ''was ist %1 ?'',
     Ireplace ''erzaehle was(?:([%s!?.]?.*?$)|$)'' ''was ist %1 ?'',
     Ireplace ''erzaehle etwas(?:([%s!?.]?.*?$)|$)'' ''was ist %1 ?'',
     Ireplace ''erzael was(?:([%s!?.]?.*?$)|$)'' ''was ist %1 ?'',
     Ireplace ''erzael etwas(?:([%s!?.]?.*?$)|$)'' ''was ist %1 ?'',
     Ireplace ''erzaele was(?:([%s!?.]?.*?$)|$)'' ''was ist %1 ?'',
     Ireplace ''erzaele etwas(?:([%s!?.]?.*?$)|$)'' ''was ist %1 ?'',
     Ireplace ''Erzaehlst du .*'' ''was ist?'',
     Ireplace ''was ist%s+?ueber '' ''was ist '']"

definition heisst_rules :: "sub list" where
  "heisst_rules =
    [Ireplace ''(was%sheisst%s)'' ''was heisst '',
     Replace ''(was%sheisst%s)([A-Z][a-z]+?%s[a-z]+?)((?:%s.?.?.?.?.?)|$)'' ''%1 _%2_%3'',
     Ireplace ''(ich weiss nicht)%s+?(?:(global var questionwords_reg_ex) (.*?))($|[.,])'' ''_%2_ _no-question_ %3 , weiss ich nicht%4'',
     Ireplace ''(du weisst nicht)%s+?(?:(global var questionwords_reg_ex) (.*?))($|[.,])'' ''_%2_ _no-question_ %3 , weisst du nicht%4'',
     Ireplace ''(weiss ich)%s+?(global var questionwords_reg_ex)'' ''%1 , %2'',
     Ireplace ''(weisst du)%s+?(global var questionwords_reg_ex)'' ''%1 , %2'']"

definition tell_rules :: "sub list" where
  "tell_rules =
    [Ireplace ''(was (?:machst|tust) du).*?(heute|jetzt|momentan|gerade|grade).*?$'' ''%1 ?'',
     Ireplace ''(das weiss ich,)$'' ''%1 ?'',
     Ireplace ''(das weiss ich)$'' ''%1 ?'',
     Ireplace ''sag mir '' '''',
     Ireplace ''sag mir[,]'' '''',
     Ireplace ''^<ws>?ob%s'' '''',
     Ireplace ''can you remmember that '' '''',
     Ireplace ''do you know whether '' '''',
     Ireplace ''you know whether '' '''',
     Ireplace ''von wo '' ''woher '',
     Ireplace ''(^|%s)was fuer eine%s'' '' welche '',
     Ireplace ''(^|%s)was fuer einen%s'' '' welchen '',
     Ireplace ''(^|%s)was fuer einem%s'' '' welchem '',
     Ireplace ''(^|%s)was fuer ein%s'' '' welches '',
     Ireplace ''(^|%s)was fuer%s'' '' welch '',
     Ireplace ''was (.+?) fuer eine%s(.+)'' ''welche %2 %1'',
     Ireplace ''was (.+?) fuer einen%s(.+)'' ''welchen %2 %1'',
     Ireplace ''was (.+?) fuer einem%s(.+)'' ''welchem %2 %1'',
     Ireplace ''was (.+?) fuer ein%s(.+)'' ''welches %2 %1'',
     Ireplace ''was (.+?) fuer%s(.+)'' ''welch %2 %1'',
     Ireplace ''can you tell me whether%s'' '''',
     Ireplace ''can you tell me (who|how|where|when|if|what)'' ''%1 '',
     Ireplace ''can you tell me%s'' ''what is '',
     Ireplace ''^sobald%s*?(.*),%s*?(.*)$'' ''%1, wenn %2'',
     Ireplace ''^(.*),%s*?sobald%s*?(.*)$'' ''%2, wenn %1'',
     Ireplace ''^wenn%s*?(.*),%s*?(.*)$'' ''%2, wenn %1'']"

definition kennst_rules :: "sub list" where
  "kennst_rules =
    [Ireplace ''kennst du ein(e|en) '' ''what-nowiki ist '',
     Ireplace ''kennst du '' ''was ist '']"

definition macht_rules :: "sub list" where
  "macht_rules =
    [Ireplace ''wie heisst du mit '' ''du '',
     Ireplace ''was macht '' ''was '',
     Ireplace ''kannst du (.*?isch)($|(?:.?.?.?.?$))'' ''kannst du %1 sprechen %2'',
     Ireplace ''kann ich (.*?isch)($|(?:.?.?.?.?$))'' ''kann ich %1 sprechen %2'',
     Ireplace ''(^|%s)?wie wird '' ''%1 wie ist '',
     Ireplace ''Wie ist das Wetter heute'' ''Wie ist das Wetter '',
     Ireplace ''dir heute'' ''dir '']"

definition filler_ja_rules :: "sub list" where
  "filler_ja_rules =
    [Ireplace '' ja '' '' '']"

definition es_ist_rules :: "sub list" where
  "es_ist_rules =
    [Ireplace ''es ist<ws>?$'' ''ist es '',
     Ireplace ''es ist<ws>?[?]<ws>?$'' ''ist es ?'']"

definition possessive_rules :: "sub list" where
  "possessive_rules =
    [Ireplace '' (seinen|ihren|seiner|ihrer|seines|ihres|seine|ihre) '' '' das '']"

definition can_rules :: "sub list" where
  "can_rules =
    [Ireplace ''Weisst du etwas ueber '' ''was ist '',
     Ireplace ''was weisst du ueber '' ''was ist '',
     Ireplace ''heise'' ''heisse'',
     Ireplace ''heist'' ''heisst'',
     Ireplace '' has to '' '' must '',
     Ireplace '' have to '' '' must '',
     Ireplace '' had to '' '' must '',
     Ireplace '' is able to '' '' can '',
     Ireplace '' am able to '' '' can '',
     Ireplace ''m able to '' '' can '',
     Ireplace '' are able to '' '' can '',
     Ireplace '' were able to '' '' can '',
     Ireplace '' was able to '' '' can '',
     Ireplace '' has been able to '' '' can '',
     Ireplace '' have been able to '' '' can '',
     Ireplace ''don['`']t'' ''do not'',
     Ireplace ''can['`']t'' ''can not'',
     Ireplace ''cannot'' ''can not'',
     Ireplace ''hasn['`']t'' ''has not'',
     Ireplace ''havn['`']t'' ''have not'',
     Ireplace ''didn['`']t'' ''did not'',
     Ireplace ''mustn['`']t'' ''must not'',
     Ireplace ''n['`']t'' '' not'',
     Ireplace ''gehts(.?.?.?.?)$'' ''geht es dir ?'',
     Ireplace ''gehts'' ''geht es'',
     Ireplace ''geht['`']s'' ''geht es'',
     Ireplace ''^(.?.?)gibt es '' ''%1was ist '',
     Ireplace ''^(.?.?)gibt es'' ''%1was ist'',
     Ireplace ''was ist neues'' ''was gibt es neues'',
     Ireplace ''geht es so[?%s]'' ''geht es%1'',
     Ireplace ''wie geht es [?]'' ''wie geht es dir ?'',
     Ireplace ''wie geht es%s*?$'' ''wie geht es dir ?'',
     Ireplace ''wie geht es<ws>?$'' ''wie geht es dir ?'']"

definition list_rules :: "sub list" where
  "list_rules =
    [Ireplace ''([a-zA-Z0-9_]+)<ws>[,]<ws>([a-zA-Z0-9_]+)%s+(und|oder|or|and)<ws>'' ''%1 %3 %2 %3 '',
     Ireplace ''<ws>[,]<ws>([a-zA-Z0-9_]+%s+[a-zA-Z0-9_]+)%s+(und|oder|or|and)<ws>'' '' %2 %1 %2 '']"

definition own_name_rules :: "sub list" where
  "own_name_rules =
    [Ireplace ''heisst%sdu'' ''ist dein name'',
     Ireplace ''du%sheisst'' ''dein name ist'',
     Ireplace ''heisse%sich'' ''ist mein name'',
     Ireplace ''ich%sheisse'' ''mein name ist'',
     Ireplace ''wer%sbist%sdu'' ''was ist dein name'',
     Ireplace ''wer%sdu%sbist'' ''wer ist dein name'',
     Replace ''(ist) ([A-Z][a-z]+?) (ein)'' ''%1 _%2_ %3'',
     Ireplace '', die du kennst%s'' '' '',
     Ireplace ''die du kennst%s'' '' '',
     Ireplace ''(^|%s)es leben'' ''%1leben'',
     Ireplace '' (%d+?)%s*?(gb|gigabyte|mb|megabyte|kb|kilobyte|byte)%s*?(ram|arbeitsspeicher|festplatte|speicher)'' '' _%1_%2_%3_ '',
     Ireplace '' brauchst du '' '' du brauchst '',
     Ireplace '' brauche ich '' '' ich brauche '',
     Ireplace ''nenne mir (.*)'' ''zaehle %1 auf'',
     Ireplace ''nenne (.*)'' ''zaehle %1 auf'',
     Ireplace ''Zaehle mir alle (.*)en auf.*'' ''ENUMALL ein %1e'',
     Ireplace ''Zaehle mir die (.*)en auf.*'' ''ENUMALL eine %1e'',
     Ireplace ''Zaehle mir den (.*)en auf.*'' ''ENUMALL ein %1e'',
     Ireplace ''Zaehle mir das (.*)en auf.*'' ''ENUMALL ein %1e'',
     Ireplace ''Zaehle alle (.*)en auf.*'' ''ENUMALL ein %1e'',
     Ireplace ''Zaehle die (.*)en auf.*'' ''ENUMALL eine %1e'',
     Ireplace ''Zaehle den (.*)en auf.*'' ''ENUMALL ein %1e'',
     Ireplace ''Zaehle das (.*)en auf.*'' ''ENUMALL ein %1e'',
     Ireplace ''Zaehle mir alle (.*)n auf.*'' ''ENUMALL ein %1'',
     Ireplace ''Zaehle mir die (.*)n auf.*'' ''ENUMALL eine %1'',
     Ireplace ''Zaehle mir den (.*)n auf.*'' ''ENUMALL ein %1'',
     Ireplace ''Zaehle mir das (.*)n auf.*'' ''ENUMALL ein %1'',
     Ireplace ''Zaehle alle (.*)n auf.*'' ''ENUMALL ein %1'',
     Ireplace ''Zaehle die (.*)n auf.*'' ''ENUMALL eine %1'',
     Ireplace ''Zaehle den (.*)n auf.*'' ''ENUMALL ein %1'',
     Ireplace ''Zaehle das (.*)n auf.*'' ''ENUMALL ein %1'',
     Ireplace ''Zaehle mir alle (.*)s auf.*'' ''ENUMALL ein %1'',
     Ireplace ''Zaehle mir die (.*)s auf.*'' ''ENUMALL eine %1'',
     Ireplace ''Zaehle mir den (.*)s auf.*'' ''ENUMALL ein %1'',
     Ireplace ''Zaehle mir das (.*)s auf.*'' ''ENUMALL ein %1'',
     Ireplace ''Zaehle alle (.*)s auf.*'' ''ENUMALL ein %1'',
     Ireplace ''Zaehle die (.*)s auf.*'' ''ENUMALL eine %1'',
     Ireplace ''Zaehle den (.*)s auf.*'' ''ENUMALL ein %1'',
     Ireplace ''Zaehle das (.*)s auf.*'' ''ENUMALL ein %1'',
     Ireplace ''Zaehle mir alle (.*[rmndtp])e auf.*'' ''ENUMALL ein %1'',
     Ireplace ''Zaehle alle (.*[rmndtp]) auf.*'' ''ENUMALL ein %1'',
     Ireplace ''Zaehle mir alle (.*) auf.*'' ''ENUMALL ein %1'',
     Ireplace ''Zaehle mir die (.*) auf.*'' ''ENUMALL eine %1'',
     Ireplace ''Zaehle mir den (.*) auf.*'' ''ENUMALL ein %1'',
     Ireplace ''Zaehle mir das (.*) auf.*'' ''ENUMALL ein %1'',
     Ireplace ''Zaehle alle (.*) auf.*'' ''ENUMALL ein %1'']"

definition enumerate_rules :: "sub list" where
  "enumerate_rules =
    [Ireplace ''Zaehle die (.*) auf.*'' ''ENUMALL eine %1'',
     Ireplace ''Zaehle den (.*) auf.*'' ''ENUMALL ein %1'',
     Ireplace ''Zaehle das (.*) auf.*'' ''ENUMALL ein %1'',
     Ireplace ''Zaehle (.*) auf.*'' ''ENUMALL %1'',
     Ireplace ''ENUMALL mir (.*?) auf.*'' ''ENUMALL %1'',
     Ireplace ''ENUMALL mir (.*)'' ''ENUMALL %1'',
     Ireplace ''http[:/]+'' ''http_'',
     Ireplace ''(^|%s)(eigentlich|wirklich|doch|nun|wenigstens|schliesslich|denn)(%s|$)'' ''%1%3'',
     Ireplace '' das verlangen '' '' das _verlangen_ '',
     Ireplace ''wie viel uhr'' ''wie uhr'',
     Ireplace ''wie viel[a-zA-Z]*%s'' ''wie '',
     Ireplace ''wieviel[a-zA-Z]*%s'' ''wie '',
     Ireplace ''wie spaet'' ''wie uhr'',
     Ireplace ''wie frueh'' ''wie uhr'',
     Ireplace ''wie uhr '' ''wie _$$time$$_ '',
     Ireplace ''[=]'' '' = '',
     Replace ''opposite'' '' opposite '',
     Ireplace ''wofuer steht '' ''was ist '',
     Ireplace '' schon mal '' '' '',
     Ireplace ''hast du schon mal von (.*?) gehoert'' ''was ist %1'',
     Ireplace ''hast du schon von (.*?) gehoert'' ''was ist %1'',
     Ireplace ''hast du von (.*?) gehoert'' ''was ist %1'',
     Ireplace ''hast du mal von (.*?) gehoert'' ''was ist %1'',
     Ireplace ''hast du schon mal was von (.*?) gehoert'' ''was ist %1'',
     Ireplace ''hast du schon was von (.*?) gehoert'' ''was ist %1'',
     Ireplace ''hast du was von (.*?) gehoert'' ''was ist %1'',
     Ireplace ''hast du was mal von (.*?) gehoert'' ''was ist %1'',
     Ireplace ''^(...*?) hast du '' ''%1 du hast '',
     Ireplace ''^(...*?) habe ich '' ''%1 ich habe '']"

definition long_weisst_rules :: "sub list" where
  "long_weisst_rules =
    [Ireplace ''^weisst du<ws>[,]*<ws>'' '''',
     Ireplace ''^weisst du'' '''']"

definition weisst_du_rules :: "sub list" where
  "weisst_du_rules =
    [Ireplace ''^weisst du<ws>[,]*<ws>'' '''',
     Ireplace ''^weisst du'' '''']"

definition noch_rules_2 :: "sub list" where
  "noch_rules_2 =
    [Ireplace ''%snoch%s(nie|nicht)([%s!.,?]+)'' '' noch-%1%2'',
     Ireplace ''%snoch([%s!.,?]+)'' ''%1'',
     Ireplace ''%snoch[-](nie|nicht)([%s!.,?]+)'' '' noch %1%2'',
     Ireplace ''(^|[%s!.,?]+)(so)%setwas([%s!.,?]+)'' ''%1_%2_etwas_%3'',
     Ireplace ''(^|[%s!.,?]+)(so)was([%s!.,?]+)'' ''%1_%2_etwas_%3'']"

definition gerne_rules :: "sub list" where
  "gerne_rules =
    [Ireplace ''%sgerne([%s!.,?]+)'' ''%1'']"

definition negation_rules :: "sub list" where
  "negation_rules =
    [Ireplace ''%s(kein|keine|keinen|keiner|keinem|nicht)%skein(|e|en|er|em)%s'' '' kein%2 '',
     Ireplace ''%s(kein|keine|keinen|keiner|keinem|nicht)%snicht%s'' '' %1 '',
     Ireplace ''(^|%s)?k(ein|eine|einen|einer|einem)%s'' ''%1nicht %2 '',
     Ireplace ''%sim%s'' '' in dem '',
     Ireplace ''%sbeim%s'' '' bei dem '']"

definition german_im_rules :: "sub list" where
  "german_im_rules =
    [Ireplace ''%sam%s([a-zA-Z]*?)ten($|%s|[,])'' '' am_%1ten{{{adj}}} %2 '',
     Ireplace ''%sam%s'' '' an dem '',
     Ireplace ''%sins%s'' '' in das '',
     Ireplace ''^im%s'' '' in dem '',
     Ireplace ''^am%s'' '' an dem '',
     Ireplace ''^ins%s'' '' in das '']"

definition zum_rules :: "sub list" where
  "zum_rules =
    [Ireplace ''%szu([mr])%s+([a-zA-Z_]+)%s+([A-Z_][a-zA-Z_]+)'' '' zu%1_%l%2_%l%3 '',
     Ireplace ''%szu([mr])%s+([a-zA-Z_]+)'' '' zu%1_%l%2 '',
     Ireplace ''^zu([mr])%s+([a-zA-Z_]+)'' '' zu%1_%l%2 '',
     Ireplace ''[,]%s+[,]'' '','',
     Ireplace ''^wozu%s'' ''wie '',
     Ireplace ''%swozu%s'' '' wie '',
     Ireplace ''%soppo%s'' '' opposite '',
     Ireplace ''%s.?.?opposite.?.?%s'' '' opposite '']"

definition weiss_rules :: "sub list" where
  "weiss_rules =
    [Ireplace ''(^|%s)(ich|du|das) (weiss) '' ''%1%2 %3%{%{%{v%}%}%} '',
     Ireplace '' (weiss) (ich|du|das) '' '' %1%{%{%{v%}%}%} %2 '']"

definition zu_rules :: "sub list" where
  "zu_rules =
    [Replace ''%szu%s([a-z]+?)%s([a-z]+?)(.?.?.?)$'' '' %2 , _to_ %1 %3'']"

definition es_rules :: "sub list" where
  "es_rules =
    [Ireplace '' ist es '' '' ist '']"

definition user_rules :: "sub list" where
  "user_rules =
    [Ireplace ''kind of '' ''kind_of_'',
     Ireplace '' mal n '' '' einen '',
     Ireplace '' mal nen '' '' einen '',
     Ireplace '' n '' '' einen '',
     Ireplace '' nen '' '' einen '',
     Ireplace '' mal [']n '' '' einen '',
     Ireplace '' mal [']nen '' '' einen '',
     Ireplace '' [']n '' '' einen '',
     Ireplace '' [']nen '' '' einen '',
     Ireplace '' mal [`]n '' '' einen '',
     Ireplace '' mal [`]nen '' '' einen '',
     Ireplace '' [`]n '' '' einen '',
     Ireplace '' [`]nen '' '' einen '',
     Ireplace '' .... username .... '' '' %$%$username%$%$ '',
     Ireplace '' ..... username ..... '' '' %$%$username%$%$ '',
     Ireplace '' .... unknownproperty .... '' '' %$%$unknownproperty%$%$ '',
     Ireplace '' ..... unknownproperty ..... '' '' %$%$unknownproperty%$%$ '']"

definition count_rules :: "sub list" where
  "count_rules =
    [Ireplace ''(^|%s)(%d+?) '' ''%1_%2_ '']"

definition tobias_rules :: "sub list" where
  "tobias_rules =
    [Ireplace ''(^|%s)tobias schulz'' ''%1_tobias_schulz_'']"

definition year_rules :: "sub list" where
  "year_rules =
    [Ireplace ''(^|%s)im jahre (%d%d%d%d) '' ''%1%2 '',
     Ireplace ''(^|%s)im jahr (%d%d%d%d) '' ''%1%2 '']"

definition in_year_rules :: "sub list" where
  "in_year_rules =
    [Ireplace ''(^|%s)(%d%d%d%d) '' ''%1in_jahre_%2 '']"

definition bare_year_rules :: "sub list" where
  "bare_year_rules =
    [Ireplace ''(^|%s)(%d%d%d%d) '' ''%1_%2_ '']"

definition nicht_rules :: "sub list" where
  "nicht_rules =
    [Ireplace ''(^|%s)?(nicht|not)(%s)'' ''%1'']"

definition title_rules :: "sub list" where
  "title_rules =
    [Ireplace ''(herr|frau|mr|mrs|miss|doktor|dr|firma)%.? (%S%S%S+?)($|%s)'' ''_%1_%2_ %3'',
     Ireplace ''sth%.'' ''something'',
     Ireplace ''sth%s'' ''something '',
     Ireplace ''do you know (what|who|where|how|when|which|whose)'' ''%1'',
     Ireplace ''do you know something about '' ''what is '',
     Ireplace '' do you do'' '' are you'']"

definition what_rules :: "sub list" where
  "what_rules =
    [Ireplace ''what<ws>up%s($|[?])'' ''how are you?'',
     Ireplace ''what[']s<ws>up%s($|[?])'' ''how are you?'',
     Ireplace ''whats<ws>up%s($|[?])'' ''how are you?'',
     Ireplace ''how are you doing'' ''how are you'',
     Ireplace ''what%'s '' ''what is '',
     Ireplace ''whats '' ''what is '',
     Ireplace ''whos '' ''what is '',
     Ireplace ''who%'s '' ''what is '',
     Ireplace ''whore '' ''what is '',
     Ireplace ''who%'re '' ''what is '',
     Ireplace ''who are you.*'' ''what is your name?'',
     Ireplace ''was ist mit (.*?) los'' ''was ist %1'',
     Ireplace ''was ist ueber (.*?)'' ''was ist %1'',
     Ireplace ''was ist los mit (.*?)'' ''was ist %1'',
     Ireplace ''^(.*?) muss man '' ''Man muss %1 '',
     Ireplace ''^weisst du denn noch '' ''weisst du '',
     Ireplace ''^weisst du denn '' ''weisst du '',
     Ireplace ''^weisst du noch '' ''weisst du '',
     Ireplace ''^weisst du (w[^%s]*?)%s([^?!.,]*)'' ''%2 %1'',
     Ireplace ''^weisst du '' '''',
     Ireplace ''wie vie[a-zA-Z]+%s'' ''wie '',
     Ireplace ''^hm%, '' '' '',
     Ireplace ''^hm %, '' '' '',
     Ireplace ''%shm%, '' '' '',
     Ireplace ''%shm %, '' '' '']"

definition next_rules :: "sub list" where
  "next_rules =
    [Ireplace ''questionnext'' ''q=>'',
     Ireplace ''factnext'' ''f=>'',
     Ireplace ''[?]<ws>[=]<ws>[>]'' ''?=>'',
     Ireplace ''%s+[?][=][>]'' '', ?=>'',
     Ireplace ''[!]<ws>[=]<ws>[>]'' ''!=>'',
     Ireplace ''%s+[!][=][>]'' '', !=>'',
     Ireplace ''[f]<ws>[=]<ws>[>]'' ''f=>'',
     Ireplace ''%s+[f][=][>]'' '', f=>'',
     Ireplace ''[q]<ws>[=]<ws>[>]'' ''q=>'',
     Ireplace ''%s+[q][=][>]'' '', q=>'',
     Ireplace ''[=]%s+[>]'' ''=>'',
     Ireplace ''%s+[=][>]'' '', =>'',
     Ireplace ''[,]+'' '' , '',
     Ireplace ''%s+'' '' '',
     Ireplace ''[_]+'' ''_'']"

definition months :: "string list" where
  "months =
    [''januar'', ''jaenner'', ''februar'', ''maerz'', ''april'', ''mai'', ''juni'', ''juli'',
     ''august'', ''september'', ''oktober'', ''november'', ''dezember'']"

definition month_rules :: "sub list" where
  "month_rules =
    concat (map (\<lambda>(month_num, month).
      [Ireplace (''(seit|bis) '' @ month @ '' ([0-9]+)'') (''%1 01.'' @ show_nat month_num @ ''.%2s''),
       Ireplace (''(seit|bis) '' @ month) (''%1 01.'' @ show_nat month_num @ ''.2012'')])
      (zip [1..<14] months))"

definition number_words :: "string list" where
  "number_words =
    [''eins'', ''zwei'', ''drei'', ''vier'', ''fuenf'', ''sechs'', ''sieben'', ''acht'', ''neun'',
     ''zehn'', ''elf'', ''zwoelf'', ''dreizehn'', ''vierzehn'', ''fuenfzehn'', ''sechzehn'',
     ''siebzehn'', ''achtzehn'', ''neunzehn'', ''zwanzig'']"

definition number_rules :: "sub list" where
  "number_rules =
    concat (map (\<lambda>(i, number).
      [Ireplace (''(^|%s)'' @ number @ ''(%s|$)'') (''%1 '' @ show_nat i @ ''%3''),
       Ireplace (''(^|%s)[+]'' @ number @ ''(%s|$)'') (''%1+'' @ show_nat i @ ''%3''),
       Ireplace (''(^|%s)[-]'' @ number @ ''(%s|$)'') (''%1-'' @ show_nat i @ ''%3'')])
      (zip [0..<20] number_words))"

section \<open>Checking the tables\<close>

text \<open>The number of groups that a pattern captures: opening parentheses that are neither escaped, nor
  inside a bracket expression, nor followed by a question mark.\<close>

function group_count :: "bool \<Rightarrow> string \<Rightarrow> nat" where
  "group_count cls [] = 0"
| "group_count cls (c # s) =
    (if c = CHR ''%'' then group_count cls (drop 1 s)
     else if cls then group_count (c \<noteq> CHR '']'') s
     else if c = CHR ''['' then group_count True s
     else if c = CHR ''('' then (if starts_with s ''?'' then 0 else 1) + group_count False s
     else group_count False s)"
  by pat_completeness auto
termination
  by (relation "measure (\<lambda>(cls, s). length s)") auto

text \<open>The greatest group that a replacement refers to.\<close>

fun last_ref :: "string \<Rightarrow> nat" where
  "last_ref [] = 0"
| "last_ref [c] = 0"
| "last_ref (c # d # s) =
    max (if c = CHR ''%'' \<and> is_digit d then code d - 48 else 0) (last_ref (d # s))"

definition bad_ref :: "sub \<Rightarrow> bool" where
  "bad_ref u =
    (case u of Ireplace e t \<Rightarrow> group_count False e < last_ref t
     | Replace e t \<Rightarrow> group_count False e < last_ref t)"

definition all_rules :: "sub list" where
  "all_rules =
    clean_rules @ reason_rules @ mark_rules @ no_rules @ english_rules @ comma_rules
    @ short_opening_rules @ nein_rules @ ja_rules @ opening_rules @ name_question_rules
    @ as_well_rules @ month_rules @ compare_rules @ weisst_rules @ lately_rules @ number_rules
    @ today_rules @ freehal_rules @ noch_rules @ know_rules @ date_rules @ genitive_rules
    @ equal_rules @ article_rules @ wording_rules @ ask_rules @ heisst_rules @ tell_rules
    @ kennst_rules @ macht_rules @ filler_ja_rules @ es_ist_rules @ possessive_rules @ can_rules
    @ list_rules @ own_name_rules @ enumerate_rules @ long_weisst_rules @ weisst_du_rules
    @ gerne_rules @ negation_rules @ german_im_rules @ zum_rules @ weiss_rules @ zu_rules
    @ es_rules @ user_rules @ count_rules @ tobias_rules @ year_rules @ in_year_rules
    @ bare_year_rules @ nicht_rules @ title_rules @ what_rules @ next_rules"

text \<open>Table by table: nearly all are clean.\<close>

lemma clean_rules_refs: "filter bad_ref clean_rules = []"
  by code_simp

lemma reason_rules_refs: "filter bad_ref reason_rules = []"
  by code_simp

lemma mark_rules_refs: "filter bad_ref mark_rules = []"
  by code_simp

lemma no_rules_refs: "filter bad_ref no_rules = []"
  by code_simp

lemma english_rules_refs: "filter bad_ref english_rules = []"
  by code_simp

lemma comma_rules_refs: "filter bad_ref comma_rules = []"
  by code_simp

lemma short_opening_rules_refs: "filter bad_ref short_opening_rules = []"
  by code_simp

lemma nein_rules_refs: "filter bad_ref nein_rules = []"
  by code_simp

lemma ja_rules_refs: "filter bad_ref ja_rules = []"
  by code_simp

lemma opening_rules_refs: "filter bad_ref opening_rules = []"
  by code_simp

lemma name_question_rules_refs: "filter bad_ref name_question_rules = []"
  by code_simp

lemma as_well_rules_refs: "filter bad_ref as_well_rules = []"
  by code_simp

lemma month_rules_refs: "filter bad_ref month_rules = []"
  by code_simp

lemma compare_rules_refs: "filter bad_ref compare_rules = []"
  by code_simp

lemma weisst_rules_refs: "filter bad_ref weisst_rules = []"
  by code_simp

lemma lately_rules_refs: "filter bad_ref lately_rules = []"
  by code_simp

lemma today_rules_refs: "filter bad_ref today_rules = []"
  by code_simp

lemma freehal_rules_refs: "filter bad_ref freehal_rules = []"
  by code_simp

lemma noch_rules_refs: "filter bad_ref noch_rules = []"
  by code_simp

lemma know_rules_refs: "filter bad_ref know_rules = []"
  by code_simp

lemma genitive_rules_refs: "filter bad_ref genitive_rules = []"
  by code_simp

lemma equal_rules_refs: "filter bad_ref equal_rules = []"
  by code_simp

lemma article_rules_refs: "filter bad_ref article_rules = []"
  by code_simp

lemma wording_rules_refs: "filter bad_ref wording_rules = []"
  by code_simp

lemma ask_rules_refs: "filter bad_ref ask_rules = []"
  by code_simp

lemma heisst_rules_refs: "filter bad_ref heisst_rules = []"
  by code_simp

lemma tell_rules_refs: "filter bad_ref tell_rules = []"
  by code_simp

lemma kennst_rules_refs: "filter bad_ref kennst_rules = []"
  by code_simp

lemma macht_rules_refs: "filter bad_ref macht_rules = []"
  by code_simp

lemma filler_ja_rules_refs: "filter bad_ref filler_ja_rules = []"
  by code_simp

lemma es_ist_rules_refs: "filter bad_ref es_ist_rules = []"
  by code_simp

lemma possessive_rules_refs: "filter bad_ref possessive_rules = []"
  by code_simp

lemma list_rules_refs: "filter bad_ref list_rules = []"
  by code_simp

lemma own_name_rules_refs: "filter bad_ref own_name_rules = []"
  by code_simp

lemma enumerate_rules_refs: "filter bad_ref enumerate_rules = []"
  by code_simp

lemma long_weisst_rules_refs: "filter bad_ref long_weisst_rules = []"
  by code_simp

lemma weisst_du_rules_refs: "filter bad_ref weisst_du_rules = []"
  by code_simp

lemma gerne_rules_refs: "filter bad_ref gerne_rules = []"
  by code_simp

lemma negation_rules_refs: "filter bad_ref negation_rules = []"
  by code_simp

lemma german_im_rules_refs: "filter bad_ref german_im_rules = []"
  by code_simp

lemma zum_rules_refs: "filter bad_ref zum_rules = []"
  by code_simp

lemma weiss_rules_refs: "filter bad_ref weiss_rules = []"
  by code_simp

lemma zu_rules_refs: "filter bad_ref zu_rules = []"
  by code_simp

lemma es_rules_refs: "filter bad_ref es_rules = []"
  by code_simp

lemma user_rules_refs: "filter bad_ref user_rules = []"
  by code_simp

lemma count_rules_refs: "filter bad_ref count_rules = []"
  by code_simp

lemma tobias_rules_refs: "filter bad_ref tobias_rules = []"
  by code_simp

lemma year_rules_refs: "filter bad_ref year_rules = []"
  by code_simp

lemma in_year_rules_refs: "filter bad_ref in_year_rules = []"
  by code_simp

lemma bare_year_rules_refs: "filter bad_ref bare_year_rules = []"
  by code_simp

lemma nicht_rules_refs: "filter bad_ref nicht_rules = []"
  by code_simp

lemma title_rules_refs: "filter bad_ref title_rules = []"
  by code_simp

lemma what_rules_refs: "filter bad_ref what_rules = []"
  by code_simp

lemma next_rules_refs: "filter bad_ref next_rules = []"
  by code_simp

lemma number_rules_refs: "filter bad_ref number_rules = number_rules"
  by code_simp

lemma date_rules_refs: "filter bad_ref date_rules = take 13 (drop 4 date_rules) @ [date_rules ! 21]"
  by code_simp

lemma can_rules_refs: "filter bad_ref can_rules = [can_rules ! 29]"
  by code_simp

lemmas table_refs =
  clean_rules_refs reason_rules_refs mark_rules_refs no_rules_refs english_rules_refs
  comma_rules_refs short_opening_rules_refs nein_rules_refs ja_rules_refs
  opening_rules_refs name_question_rules_refs as_well_rules_refs month_rules_refs
  compare_rules_refs weisst_rules_refs lately_rules_refs number_rules_refs today_rules_refs
  freehal_rules_refs noch_rules_refs know_rules_refs date_rules_refs genitive_rules_refs
  equal_rules_refs article_rules_refs wording_rules_refs ask_rules_refs heisst_rules_refs
  tell_rules_refs kennst_rules_refs macht_rules_refs filler_ja_rules_refs es_ist_rules_refs
  possessive_rules_refs can_rules_refs list_rules_refs own_name_rules_refs
  enumerate_rules_refs long_weisst_rules_refs weisst_du_rules_refs gerne_rules_refs
  negation_rules_refs german_im_rules_refs zum_rules_refs weiss_rules_refs zu_rules_refs
  es_rules_refs user_rules_refs count_rules_refs tobias_rules_refs year_rules_refs
  in_year_rules_refs bare_year_rules_refs nicht_rules_refs title_rules_refs what_rules_refs
  next_rules_refs

section \<open>Properties\<close>

text \<open>Of all the fixed rules exactly these refer to a group that their pattern does not have, so
  that the character they should put back is lost: every rule for a number word, the thirteen rules
  for a day with the name of a month, the one for a day and a month without a year, and one for a
  greeting.\<close>

theorem missing_groups:
  "filter bad_ref all_rules =
    number_rules @ take 13 (drop 4 date_rules)
    @ [Replace ''(^|%s)(%d+?)%.(%d+?)%.?(%s|$)'' ''%2.%3.0000%5'', Ireplace ''geht es so[?%s]'' ''geht es%1'']"
proof -
  have "date_rules ! 21 = Replace ''(^|%s)(%d+?)%.(%d+?)%.?(%s|$)'' ''%2.%3.0000%5''"
    "can_rules ! 29 = Ireplace ''geht es so[?%s]'' ''geht es%1''"
    by code_simp+
  then show ?thesis
    by (simp only: all_rules_def filter_append table_refs append_Nil append_Nil2 append_assoc append_Cons)
qed

text \<open>The loops count wrongly: the rules write every number word as the number below it, and from
  February on they write every month as the number of the month after it, since the list of months
  holds two names of January.\<close>

theorem counted_wrongly:
  "list_all (\<lambda>(number, i).
      Ireplace (''(^|%s)'' @ number @ ''(%s|$)'') (''%1 '' @ show_nat i @ ''%3'') \<in> set number_rules)
    [(''eins'', 0), (''zwei'', 1), (''drei'', 2), (''vier'', 3), (''fuenf'', 4), (''sechs'', 5),
     (''sieben'', 6), (''acht'', 7), (''neun'', 8), (''zehn'', 9), (''elf'', 10),
     (''zwoelf'', 11), (''dreizehn'', 12), (''vierzehn'', 13), (''fuenfzehn'', 14),
     (''sechzehn'', 15), (''siebzehn'', 16), (''achtzehn'', 17), (''neunzehn'', 18),
     (''zwanzig'', 19)]
  \<and> list_all (\<lambda>(month, i).
      Ireplace (''(seit|bis) '' @ month) (''%1 01.'' @ show_nat i @ ''.2012'') \<in> set month_rules)
    [(''januar'', 1), (''februar'', 3), (''maerz'', 4), (''april'', 5), (''mai'', 6),
     (''juni'', 7), (''juli'', 8), (''august'', 9), (''september'', 10), (''oktober'', 11),
     (''november'', 12), (''dezember'', 13)]"
proof
  show "list_all (\<lambda>(number, i).
      Ireplace (''(^|%s)'' @ number @ ''(%s|$)'') (''%1 '' @ show_nat i @ ''%3'') \<in> set number_rules)
    [(''eins'', 0), (''zwei'', 1), (''drei'', 2), (''vier'', 3), (''fuenf'', 4), (''sechs'', 5),
     (''sieben'', 6), (''acht'', 7), (''neun'', 8), (''zehn'', 9), (''elf'', 10),
     (''zwoelf'', 11), (''dreizehn'', 12), (''vierzehn'', 13), (''fuenfzehn'', 14),
     (''sechzehn'', 15), (''siebzehn'', 16), (''achtzehn'', 17), (''neunzehn'', 18),
     (''zwanzig'', 19)]"
    by code_simp
  show "list_all (\<lambda>(month, i).
      Ireplace (''(seit|bis) '' @ month) (''%1 01.'' @ show_nat i @ ''.2012'') \<in> set month_rules)
    [(''januar'', 1), (''februar'', 3), (''maerz'', 4), (''april'', 5), (''mai'', 6),
     (''juni'', 7), (''juli'', 8), (''august'', 9), (''september'', 10), (''oktober'', 11),
     (''november'', 12), (''dezember'', 13)]"
    by code_simp
qed

end
