(* ===== verification/Sentence.thy ===== *)
theory Sentence
  imports Reduce GrammarPrint XmlReader
begin

text \<open>
  Class \<^verbatim>\<open>sentence\<close> of \<^verbatim>\<open>hal2012-parser2012.cpp\<close>: cutting a sentence into words, asking the
  tagger for each, deciding whether it is a question, and turning the first parse of its words into a
  fact. This is where tagger, grammar and fact trees meet: the words become the input of the
  grammar, the tree it finds is printed as XML, and the XML is read back as a fact.

  The parser that owns a sentence is its tagger and its grammar, which the operations take and
  return; \<open>gp\<close> is the tagger's \<^verbatim>\<open>get_pos\<close>.
\<close>

section \<open>State\<close>

datatype sentence_mode = ONLY_LEARN | QUESTION | STATEMENT | UNKNOWN

datatype parse_error = Rx_failed rx_error | Xml_failed read_error

record sentence =
  sn_input :: string
  sn_mode :: sentence_mode
  sn_words :: "string list"
  sn_tags :: "tags list"
  sn_parsed :: "entities list"
  sn_fact :: "xml_fact option"

type_synonym pos_lookup = "string \<Rightarrow> tagger \<Rightarrow> rx_error + (tags \<times> tagger)"

section \<open>The words\<close>

definition sentence_words :: "rx \<Rightarrow> string \<Rightarrow> string list" where
  "sentence_words r txt =
    (let tmp = regex_replace r txt (''[.!?'' @ [quote, CHR 0x27] @ '']'') [];
         tmp1 = trim_if (\<lambda>c. is_space c \<or> is_any_of ''[-;,#+]'' c) tmp
     in split_compress is_space tmp1)"

fun tag_all :: "pos_lookup \<Rightarrow> string list \<Rightarrow> tagger \<Rightarrow> rx_error + (tags list \<times> tagger)" where
  "tag_all gp [] tg = Inr ([], tg)"
| "tag_all gp (w # ws) tg =
    (case gp w tg of
       Inl err \<Rightarrow> Inl err
     | Inr (t, tg1) \<Rightarrow>
         (case tag_all gp ws tg1 of
            Inl err \<Rightarrow> Inl err
          | Inr (ts, tg2) \<Rightarrow> Inr (t # ts, tg2)))"

definition find_mode :: "sentence \<Rightarrow> sentence" where
  "find_mode s =
    (if sn_words s = [] then s\<lparr>sn_mode := UNKNOWN\<rparr>\<lparr>sn_mode := STATEMENT\<rparr>
     else if str_contains (sn_input s) ''?'' then s\<lparr>sn_mode := QUESTION\<rparr>
     else if \<not> str_contains (sn_input s) ''_no-question_'' then
       (if 1 \<le> length (sn_tags s) \<and> fst (hd (sn_tags s)) = ''v'' then s\<lparr>sn_mode := QUESTION\<rparr>
        else if list_ex (\<lambda>t. fst t = ''questionword'') (sn_tags s) then s\<lparr>sn_mode := QUESTION\<rparr>
        else s\<lparr>sn_mode := STATEMENT\<rparr>)
     else s\<lparr>sn_mode := STATEMENT\<rparr>)"

definition new_sentence :: "rx \<Rightarrow> pos_lookup \<Rightarrow> string \<Rightarrow> tagger \<Rightarrow> rx_error + (sentence \<times> tagger)" where
  "new_sentence r gp txt tg =
    (let ws = sentence_words r txt in
     case tag_all gp ws tg of
       Inl err \<Rightarrow> Inl err
     | Inr (ts, tg1) \<Rightarrow>
         Inr (find_mode \<lparr>sn_input = txt, sn_mode = UNKNOWN, sn_words = ws, sn_tags = ts,
                sn_parsed = [], sn_fact = None\<rparr>, tg1))"

section \<open>Printing\<close>

definition to_grammar_input :: "rx \<Rightarrow> string list \<Rightarrow> sentence \<Rightarrow> string" where
  "to_grammar_input r custom s =
    (if length (sn_words s) \<noteq> length (sn_tags s) then []
     else concat (map (\<lambda>(w, t). to_grammar_pos r custom t w @ ''<'' @ w @ ''>'')
            (zip (sn_words s) (sn_tags s))))"

definition mode_name :: "sentence_mode \<Rightarrow> string" where
  "mode_name m =
    (case m of ONLY_LEARN \<Rightarrow> ''ONLY_LEARN'' | STATEMENT \<Rightarrow> ''STATEMENT'' | QUESTION \<Rightarrow> ''QUESTION''
     | UNKNOWN \<Rightarrow> ''UNKNOWN'')"

definition sentence_to_str :: "sentence \<Rightarrow> string" where
  "sentence_to_str s =
    ''{'' @ join '','' (
      (if sn_words s \<noteq> [] then ['' words='' @ print_strings (sn_words s)] else [])
      @ (if sn_tags s \<noteq> [] then ['' tags='' @ print_tags_vector (sn_tags s)] else [])
      @ (if sn_input s \<noteq> [] then ['' input='' @ [quote] @ sn_input s @ [quote]] else [])
      @ (if sn_mode s \<noteq> UNKNOWN then ['' mode='' @ mode_name (sn_mode s)] else []))
    @ '' }''"

definition print_sentences :: "sentence list \<Rightarrow> string" where
  "print_sentences v = ''['' @ join '', '' (map sentence_to_str v) @ '']''"

section \<open>Parsing\<close>

text \<open>The search for the first fact in the lines, an index loop that reads behind the last line when
  that is an opening tag.\<close>

fun find_fact :: "string list \<Rightarrow> read_error + xml_fact option" where
  "find_fact [] = Inr None"
| "find_fact (l # r) =
    (if l = ''<'' then
       (case r of
          [] \<Rightarrow> Inl Out_of_range
        | n # r' \<Rightarrow>
            (if n = ''fact'' then
               (case read_fact r' of Inl err \<Rightarrow> Inl err | Inr (x, q) \<Rightarrow> Inr (Some x))
             else find_fact r'))
     else find_fact r)"

definition result_fact :: "entities list \<Rightarrow> read_error + xml_fact option" where
  "result_fact rs = find_fact (split_lines (ordertags (print_xml rs) []))"

definition sentence_parse ::
  "rx \<Rightarrow> hash_order \<Rightarrow> pos_lookup \<Rightarrow> sentence \<Rightarrow> tagger \<times> grammar
    \<Rightarrow> parse_error + (sentence \<times> tagger \<times> grammar)"
where
  "sentence_parse r ord gp s st =
    (let (tg, g) = st;
         (rs, g1) = parse ord (to_grammar_input r (custom_names tg) s) g;
         s1 = s\<lparr>sn_parsed := rs\<rparr>
     in case result_fact rs of
          Inl err \<Rightarrow> Inl (Xml_failed err)
        | Inr None \<Rightarrow> Inr (s1, tg, g1)
        | Inr (Some x) \<Rightarrow>
            (case prepare_tags gp (trim_xml (fact_obj x)) tg of
               Inl err \<Rightarrow> Inl (Rx_failed err)
             | Inr (o1, tg1) \<Rightarrow> Inr (s1\<lparr>sn_fact := Some (x\<lparr>fact_obj := o1\<rparr>)\<rparr>, tg1, g1)))"

section \<open>Lemmas: words and tags\<close>

lemma tag_all_length: "tag_all gp ws tg = Inr (ts, tg') \<Longrightarrow> length ts = length ws"
  by (induction ws arbitrary: ts tg tg') (auto split: sum.splits)

lemma find_mode_frame [simp]:
  "sn_input (find_mode s) = sn_input s" "sn_words (find_mode s) = sn_words s"
  "sn_tags (find_mode s) = sn_tags s" "sn_parsed (find_mode s) = sn_parsed s"
  "sn_fact (find_mode s) = sn_fact s"
  by (simp_all add: find_mode_def)

lemma split_compress_one: "dropWhile (\<lambda>c. \<not> p c) s = [] \<Longrightarrow> split_compress p s = [s]"
  by (subst split_compress.simps) (simp del: dropWhile_eq_Nil_conv)

lemma split_compress_more:
  "dropWhile (\<lambda>c. \<not> p c) s = c # t \<Longrightarrow>
    split_compress p s = takeWhile (\<lambda>c. \<not> p c) s # split_compress p (dropWhile p t)"
  by (subst split_compress.simps) simp

lemma last_dropWhile: "dropWhile p t \<noteq> [] \<Longrightarrow> last (dropWhile p t) = last t"
  by (metis last_appendR takeWhile_dropWhile_id)

lemma split_compress_not_Nil [simp]: "split_compress p s \<noteq> []"
  by (subst split_compress.simps) (simp split: list.split)

lemma split_compress_clean:
  "w \<in> set (split_compress p s) \<Longrightarrow> \<forall>c \<in> set w. \<not> p c"
proof (induction p s rule: split_compress.induct)
  case (1 p s)
  show ?case
  proof (cases "dropWhile (\<lambda>c. \<not> p c) s")
    case Nil
    then have "\<forall>c \<in> set s. \<not> p c" by (simp add: dropWhile_eq_Nil_conv)
    with "1.prems" split_compress_one [OF Nil] show ?thesis by simp
  next
    case (Cons c t)
    then have "w = takeWhile (\<lambda>c. \<not> p c) s \<or> w \<in> set (split_compress p (dropWhile p t))"
      using "1.prems" split_compress_more [OF Cons] by simp
    then show ?thesis
    proof
      assume "w = takeWhile (\<lambda>c. \<not> p c) s"
      then show ?thesis by (auto dest: set_takeWhileD)
    next
      assume "w \<in> set (split_compress p (dropWhile p t))"
      then show ?thesis by (rule "1.IH" [OF Cons])
    qed
  qed
qed

text \<open>A token is empty only at the ends, and the ends of a trimmed text are not separators.\<close>

lemma split_compress_nonempty:
  "s \<noteq> [] \<Longrightarrow> \<not> p (hd s) \<Longrightarrow> \<not> p (last s) \<Longrightarrow> [] \<notin> set (split_compress p s)"
proof (induction p s rule: split_compress.induct)
  case (1 p s)
  show ?case
  proof (cases "dropWhile (\<lambda>c. \<not> p c) s")
    case Nil
    then show ?thesis using "1.prems" split_compress_one [OF Nil] by simp
  next
    case (Cons c t)
    have s: "s = takeWhile (\<lambda>c. \<not> p c) s @ c # t" by (metis Cons takeWhile_dropWhile_id)
    have c: "p c" using Cons by (simp add: dropWhile_eq_Cons_conv)
    have l: "last s = last (c # t)" by (subst s) simp
    have t: "dropWhile p t \<noteq> []"
    proof
      assume "dropWhile p t = []"
      then have "p (last (c # t))" using c by (cases t) (auto simp: dropWhile_eq_Nil_conv split: if_splits)
      with l "1.prems"(3) show False by simp
    qed
    then have "\<not> p (hd (dropWhile p t))" "last (dropWhile p t) = last s"
      using l hd_dropWhile [OF t] last_dropWhile [OF t] by (cases t; simp)+
    then have "[] \<notin> set (split_compress p (dropWhile p t))"
      using "1.IH" [OF Cons t] "1.prems"(3) by simp
    moreover have "takeWhile (\<lambda>c. \<not> p c) s \<noteq> []"
      using "1.prems"(1,2) by (cases s) auto
    ultimately show ?thesis using split_compress_more [OF Cons] by simp
  qed
qed

lemma trim_no_space: "\<forall>c \<in> set w. \<not> is_space c \<Longrightarrow> trim w = w"
  unfolding trim_def by (rule trim_if_id) (cases "w = []"; simp)

lemma sentence_words_shape:
  "sentence_words r txt \<noteq> []"
  "w \<in> set (sentence_words r txt) \<Longrightarrow> \<forall>c \<in> set w. \<not> is_space c"
  "[] \<in> set (sentence_words r txt) \<Longrightarrow> sentence_words r txt = [[]]"
proof -
  let ?p = "\<lambda>c. is_space c \<or> is_any_of ''[-;,#+]'' c"
  obtain t where w: "sentence_words r txt = split_compress is_space (trim_if ?p t)"
    by (simp add: sentence_words_def Let_def)
  show "sentence_words r txt \<noteq> []" by (simp add: w)
  show "w \<in> set (sentence_words r txt) \<Longrightarrow> \<forall>c \<in> set w. \<not> is_space c"
    unfolding w by (rule split_compress_clean)
  assume "[] \<in> set (sentence_words r txt)"
  then have "trim_if ?p t = []"
    using trim_if_shape [of ?p t] split_compress_nonempty [of "trim_if ?p t" is_space] by (auto simp: w)
  then show "sentence_words r txt = [[]]"
    unfolding w by (simp add: split_compress_one)
qed

definition asks :: "sentence \<Rightarrow> bool" where
  "asks s \<longleftrightarrow>
    str_contains (sn_input s) ''?''
  \<or> (\<not> str_contains (sn_input s) ''_no-question_''
     \<and> ((sn_tags s \<noteq> [] \<and> fst (hd (sn_tags s)) = ''v'') \<or> list_ex (\<lambda>t. fst t = ''questionword'') (sn_tags s)))"

lemma find_mode_eq:
  "sn_words s \<noteq> [] \<Longrightarrow> sn_mode (find_mode s) = (if asks s then QUESTION else STATEMENT)"
  by (cases "sn_tags s") (auto simp: find_mode_def asks_def)

lemma new_sentence_eq:
  assumes "new_sentence r gp txt tg = Inr (s, tg')"
  shows "sn_input s = txt" "sn_words s = sentence_words r txt" "length (sn_tags s) = length (sn_words s)"
    "sn_mode s = (if asks s then QUESTION else STATEMENT)" "sn_parsed s = []" "sn_fact s = None"
proof -
  obtain ts where ts: "tag_all gp (sentence_words r txt) tg = Inr (ts, tg')"
    and s: "s = find_mode \<lparr>sn_input = txt, sn_mode = UNKNOWN, sn_words = sentence_words r txt, sn_tags = ts,
                sn_parsed = [], sn_fact = None\<rparr>"
    using assms by (auto simp: new_sentence_def Let_def split: sum.splits)
  let ?s = "\<lparr>sn_input = txt, sn_mode = UNKNOWN, sn_words = sentence_words r txt, sn_tags = ts,
                sn_parsed = [], sn_fact = None\<rparr>"
  show "sn_input s = txt" "sn_words s = sentence_words r txt" "length (sn_tags s) = length (sn_words s)"
    "sn_parsed s = []" "sn_fact s = None"
    using tag_all_length [OF ts] by (simp_all add: s)
  have "asks s = asks ?s" by (simp add: asks_def s)
  then show "sn_mode s = (if asks s then QUESTION else STATEMENT)"
    using find_mode_eq [of ?s] sentence_words_shape(1) [of r "txt"] by (simp add: s)
qed

section \<open>Lemmas: from words to the grammar\<close>

definition grammar_pos :: "string list" where
  "grammar_pos = [''d-komma'', ''d-verb'', ''d-article'', ''d-adjective'', ''d-preposition'',
    ''d-questionword'', ''d-linking'', ''d-title'', ''d-noun'', ''q'']"

lemma to_grammar_pos_mem: "to_grammar_pos r custom t w \<in> set grammar_pos"
  by (simp add: to_grammar_pos_def grammar_pos_def)

text \<open>Everything that depends on the few parts of speech of the grammar is evaluated.\<close>

lemma grammar_pos_facts:
  "list_all (\<lambda>p. p \<noteq> [] \<and> trim p = p \<and> list_all (\<lambda>c. \<not> is_any_of ''#>|<'' c) p
     \<and> CHR '' '' \<notin> set (to_key (new_entity p []))) grammar_pos"
  by code_simp

lemma grammar_posD:
  assumes "p \<in> set grammar_pos"
  shows "p \<noteq> []" "trim p = p" "c \<in> set p \<Longrightarrow> \<not> is_any_of ''#>|<'' c"
    "CHR '' '' \<notin> set (to_key (new_entity p []))"
  using grammar_pos_facts assms by (auto simp: list_all_iff)

definition no_marks :: "string \<Rightarrow> bool" where
  "no_marks w \<longleftrightarrow> list_all (\<lambda>c. \<not> is_any_of ''#>|<'' c) w"

definition word_leaf :: "rx \<Rightarrow> string list \<Rightarrow> string \<times> tags \<Rightarrow> string \<times> string" where
  "word_leaf r custom wt =
    (to_key (new_entity (to_grammar_pos r custom (snd wt) (fst wt)) []), fst wt)"

definition sentence_leaves :: "rx \<Rightarrow> string list \<Rightarrow> sentence \<Rightarrow> (string \<times> string) list" where
  "sentence_leaves r custom s =
    (''d-^'', []) # map (word_leaf r custom) (zip (sn_words s) (sn_tags s)) @ [(''d-$'', [])]"

lemma word_entity_marked:
  assumes "p \<in> set grammar_pos" "no_marks w" "\<forall>c \<in> set w. \<not> is_space c"
  shows "word_entity (p @ ''<'' @ w) = Some (set_text w (new_entity p []))"
proof -
  have "\<forall>c \<in> set p. \<not> is_any_of ''|<'' c" "\<forall>c \<in> set w. \<not> is_any_of ''|<'' c"
    using grammar_posD(3) [OF assms(1)] assms(2)
    by (auto simp: no_marks_def list_all_iff is_any_of_def)
  then have s: "split (is_any_of ''|<'') (p @ ''<'' @ w) = [p, w]"
    unfolding append_Cons append_Nil
    by (subst split_append_sep) (auto simp: is_any_of_def split_no_sep)
  have "CHR ''<'' \<in> set (p @ ''<'' @ w)" "CHR ''<'' \<notin> set ''null''" by simp_all
  then have "p @ ''<'' @ w \<noteq> []" "p @ ''<'' @ w \<noteq> ''null''" by (simp, metis)
  then show ?thesis
    unfolding word_entity_def s
    using grammar_posD(2) [OF assms(1)] trim_no_space [OF assms(3)] by simp
qed

lemma split_words_input:
  assumes "\<forall>(w, t) \<in> set wts. no_marks w"
  shows "split (is_any_of ''#>'')
      (concat (map (\<lambda>(w, t). to_grammar_pos r custom t w @ ''<'' @ w @ ''>'') wts)) =
    map (\<lambda>(w, t). to_grammar_pos r custom t w @ ''<'' @ w) wts @ [[]]"
  using assms
proof (induction wts)
  case Nil
  then show ?case by simp
next
  case (Cons wt wts)
  obtain w t where wt: "wt = (w, t)" by (cases wt)
  let ?p = "to_grammar_pos r custom t w"
  have "\<not> is_any_of ''#>'' c" if "c \<in> set ?p" for c
    using grammar_posD(3) [OF to_grammar_pos_mem that] by (simp add: is_any_of_def)
  moreover have "\<not> is_any_of ''#>'' c" if "c \<in> set w" for c
    using Cons.prems that by (simp add: wt no_marks_def list_all_iff is_any_of_def)
  moreover have "\<not> is_any_of ''#>'' (CHR ''<'')" by (simp add: is_any_of_def)
  ultimately have p: "\<forall>c \<in> set (?p @ ''<'' @ w). \<not> is_any_of ''#>'' c" by auto
  have "split (is_any_of ''#>'') ((?p @ ''<'' @ w) @ CHR ''>'' # s) =
      (?p @ ''<'' @ w) # split (is_any_of ''#>'') s" for s
    by (rule split_append_sep [OF p]) (simp add: is_any_of_def)
  with Cons show ?case by (simp add: wt)
qed

lemma input_entities_sentence:
  assumes "length (sn_words s) = length (sn_tags s)"
    and "\<forall>w \<in> set (sn_words s). no_marks w \<and> (\<forall>c \<in> set w. \<not> is_space c)"
  shows "input_entities (to_grammar_input r custom s) =
    new_entity ''d-^'' []
    # map (\<lambda>(w, t). set_text w (new_entity (to_grammar_pos r custom t w) [])) (zip (sn_words s) (sn_tags s))
    @ [new_entity ''d-$'' []]"
proof -
  let ?wts = "zip (sn_words s) (sn_tags s)"
  have ok: "no_marks w \<and> (\<forall>c \<in> set w. \<not> is_space c)" if "(w, t) \<in> set ?wts" for w t
    using assms(2) set_zip_leftD [OF that] by blast
  have sp: "split (is_any_of ''#>'') (to_grammar_input r custom s) =
      map (\<lambda>(w, t). to_grammar_pos r custom t w @ ''<'' @ w) ?wts @ [[]]"
    using assms(1) ok split_words_input [of ?wts r custom]
    unfolding to_grammar_input_def by fastforce
  have "List.map_filter word_entity (map (\<lambda>(w, t). to_grammar_pos r custom t w @ ''<'' @ w) wts @ [[]]) =
      map (\<lambda>(w, t). set_text w (new_entity (to_grammar_pos r custom t w) [])) wts"
    if "set wts \<subseteq> set ?wts" for wts
    using that
  proof (induction wts)
    case Nil
    then show ?case by (simp add: map_filter_simps word_entity_def)
  next
    case (Cons wt wts)
    obtain w t where wt: "wt = (w, t)" by (cases wt)
    have "word_entity (to_grammar_pos r custom t w @ ''<'' @ w) =
        Some (set_text w (new_entity (to_grammar_pos r custom t w) []))"
      using ok [of w t] Cons.prems by (intro word_entity_marked to_grammar_pos_mem) (auto simp: wt)
    with Cons show ?case by (simp add: wt map_filter_simps)
  qed
  then show ?thesis unfolding input_entities_def sp by simp
qed

lemma leaf_of_set_text: "leaf_of (set_text w e) = (to_key e, w)"
  by (simp add: leaf_of_def)

lemma leaves_sentence:
  assumes "length (sn_words s) = length (sn_tags s)"
    and "\<forall>w \<in> set (sn_words s). no_marks w \<and> (\<forall>c \<in> set w. \<not> is_space c)"
  shows "map leaf_of (input_entities (to_grammar_input r custom s)) = sentence_leaves r custom s"
    and "list_all (\<lambda>e. CHR '' '' \<notin> set (to_key e)) (input_entities (to_grammar_input r custom s))"
proof -
  have ends: "leaf_of (new_entity ''d-^'' []) = (''d-^'', [])" "leaf_of (new_entity ''d-$'' []) = (''d-$'', [])"
    by code_simp+
  show "map leaf_of (input_entities (to_grammar_input r custom s)) = sentence_leaves r custom s"
    unfolding input_entities_sentence [OF assms]
    by (simp add: sentence_leaves_def ends word_leaf_def leaf_of_set_text case_prod_beta)
  have sp: "CHR '' '' \<notin> set (to_key (new_entity ''d-^'' []))" "CHR '' '' \<notin> set (to_key (new_entity ''d-$'' []))"
    by code_simp+
  show "list_all (\<lambda>e. CHR '' '' \<notin> set (to_key e)) (input_entities (to_grammar_input r custom s))"
    unfolding input_entities_sentence [OF assms]
    using sp grammar_posD(4) [OF to_grammar_pos_mem] by (auto simp: list_all_iff)
qed

lemma sentence_parse_parsed:
  "sentence_parse r ord gp s (tg, g) = Inr (s', tg', g') \<Longrightarrow>
    sn_parsed s' = fst (parse ord (to_grammar_input r (custom_names tg) s) g)"
  by (auto simp: sentence_parse_def Let_def split_beta split: sum.splits option.splits)

section \<open>Lemmas: from the tree to the fact\<close>

lemma order_newline: "order_chars p sp (newline # s) = (if \<not> sp \<and> p \<noteq> CHR ''>'' then '' '' else []) @ order_chars newline True s"
  by (simp add: is_blank_def)

text \<open>The end of the XML of a fact gives two last lines, whatever is before it.\<close>

lemma order_end: "\<exists>z. order_chars p sp (s @ close_tag ''fact'' @ [newline]) = z @ ''>'' @ [newline] @ ''fact'' @ [newline]"
proof (induction s arbitrary: p sp)
  case Nil
  show ?case by (simp add: close_tag_def is_blank_def newline_def)
next
  case (Cons c s)
  obtain z where "order_chars c True (s @ close_tag ''fact'' @ [newline]) = z @ ''>'' @ [newline] @ ''fact'' @ [newline]"
    using Cons by blast
  moreover obtain y where "order_chars c False (s @ close_tag ''fact'' @ [newline]) = y @ ''>'' @ [newline] @ ''fact'' @ [newline]"
    using Cons by blast
  ultimately show ?case
    unfolding append_Cons order_chars.simps(2) [of p sp c] by (metis append_assoc)
qed

lemma order_fact:
  "order_chars (CHR 0x00) False (open_tag ''fact'' @ [newline] @ s) =
    newline # ''<'' @ [newline] @ ''fact'' @ newline # order_chars newline True s"
  by (simp add: open_tag_def is_blank_def newline_def)

lemma split_lines_last:
  "\<forall>c \<in> set l. c \<noteq> newline \<Longrightarrow> split_lines (s @ newline # l @ [newline]) \<noteq> []
    \<and> last (split_lines (s @ newline # l @ [newline])) = l"
proof (induction s rule: length_induct)
  case (1 s)
  let ?p = "\<lambda>c. c \<noteq> newline"
  have e: "split_lines (l @ [newline]) = [l]" using split_lines_line [OF "1.prems", of "[]"] by simp
  show ?case
  proof (cases "dropWhile ?p s")
    case Nil
    then have a: "\<forall>c \<in> set s. ?p c" by (simp add: dropWhile_eq_Nil_conv)
    show ?thesis unfolding split_lines_line [OF a] e by simp
  next
    case (Cons d t)
    then have d: "d = newline" by (simp add: dropWhile_eq_Cons_conv)
    let ?u = "takeWhile ?p s"
    have s: "s = ?u @ newline # t" using takeWhile_dropWhile_id [of ?p s] Cons d by metis
    have a: "\<forall>c \<in> set ?u. ?p c" by (auto dest: set_takeWhileD)
    have "length t < length s" by (subst s) simp
    then have ih: "split_lines (t @ newline # l @ [newline]) \<noteq> []
        \<and> last (split_lines (t @ newline # l @ [newline])) = l" using 1 by blast
    have "split_lines (s @ newline # l @ [newline]) = ?u # split_lines (t @ newline # l @ [newline])"
      using split_lines_line [OF a, of "t @ newline # l @ [newline]"] by (subst s) simp
    with ih show ?thesis by simp
  qed
qed

lemma read_fact_ok:
  assumes "ls = [] \<or> last ls \<notin> {''>'', ''<''}"
  shows "\<exists>x q. read_fact ls = Inr (x, q)"
proof (cases "read_fact ls")
  case (Inl err)
  then have "read_loop ''fact'' (set_name ''fact'' (fact_obj new_fact)) ls = Inl err"
    by (simp add: read_fact_def read_tree_def split: sum.splits prod.splits)
  from read_loop_error [OF this] assms show ?thesis by blast
qed (metis surj_pair)

lemma result_fact_found:
  assumes "xml_tag (grammar_key e) = ''fact''"
    and nl: "grammar_key e \<noteq> ''d-linking'' \<and> grammar_key e \<noteq> ''d-komma''"
  shows "\<exists>x q ls. result_fact ([e] # rs) = Inr (Some x) \<and> read_fact ls = Inr (x, q)"
proof -
  obtain d s r v t em n where e: "e = Entity d s r v t em n" by (cases e)
  obtain ss where x: "print_xml ([e] # rs) = open_tag ''fact'' @ [newline] @ ss @ close_tag ''fact'' @ [newline]"
    using assms by (simp add: print_xml_def e Let_def wrap_xml_def)
  obtain z where z: "order_chars newline True (ss @ close_tag ''fact'' @ [newline]) = z @ ''>'' @ [newline] @ ''fact'' @ [newline]"
    using order_end by blast
  let ?rest = "split_lines (z @ ''>'' @ [newline] @ ''fact'' @ [newline])"
  have o: "ordertags (print_xml ([e] # rs)) [] = [] @ newline # ''<'' @ newline # ''fact'' @ newline # z @ ''>'' @ [newline] @ ''fact'' @ [newline]"
    unfolding ordertags_def x order_fact z by simp
  have l: "\<forall>c \<in> set []. c \<noteq> newline" "\<forall>c \<in> set ''<''. c \<noteq> newline" "\<forall>c \<in> set ''fact''. c \<noteq> newline"
    by (simp_all add: newline_def)
  have lines: "split_lines (ordertags (print_xml ([e] # rs)) []) = [] # ''<'' # ''fact'' # ?rest"
    unfolding o split_lines_line [OF l(1)] split_lines_line [OF l(2)] split_lines_line [OF l(3)] ..
  have "last ?rest = ''fact''" using split_lines_last [OF l(3), of "z @ ''>''"] by simp
  then obtain y q where "read_fact ?rest = Inr (y, q)" using read_fact_ok [of ?rest] by auto
  moreover from this have "result_fact ([e] # rs) = Inr (Some y)"
    unfolding result_fact_def lines by simp
  ultimately show ?thesis by blast
qed

lemma result_fact_none: "result_fact [] = Inr None"
  by (simp add: result_fact_def print_xml_def ordertags_def)

text \<open>What is read has lists under the names of the roles, so it may be trimmed.\<close>

lemma role_lists_eq:
  "role_lists x \<longleftrightarrow> list_all (\<lambda>c. (xname c \<in> set roles \<longrightarrow> xmode c = LIST) \<and> role_lists c) (xcontent x)"
  by (cases x) simp

lemma role_lists_push:
  "role_lists x \<Longrightarrow> role_lists c \<Longrightarrow> xname c \<in> set roles \<longrightarrow> xmode c = LIST \<Longrightarrow> role_lists (push c x)"
  by (simp add: role_lists_eq [of "push c x"] role_lists_eq [of x])

lemma role_lists_new: "role_lists (set_name n (new_xml m))"
  by (simp add: role_lists_eq [of "set_name _ _"])

lemma text_node_name: "xname (text_node t) = []" "role_lists (text_node t)"
  by (simp_all add: text_node_def xml_set_text_def new_xml_def)

lemma role_lists_add: "role_lists x \<Longrightarrow> role_lists (add_text tag t x)"
  unfolding add_text_def
  by (auto intro!: role_lists_push role_lists_new simp: text_node_name) (simp_all add: roles_def)

lemma read_loop_roles:
  "read_loop tag tree ls = Inr (x, q) \<Longrightarrow> well_read tree \<Longrightarrow> xmode tree = LIST \<Longrightarrow> xname tree = tag \<Longrightarrow>
    role_lists tree \<Longrightarrow> role_lists x"
proof (induction tag tree ls arbitrary: x q rule: read_loop_induct)
  case (close tag tree n r)
  then show ?case by (auto split: if_splits)
next
  case (sub tag tree n r)
  then obtain u p where u: "read_loop n (set_name n (new_xml LIST)) r = Inr (u, p)"
    by (auto simp: read_loop_sub split: sum.splits)
  have w: "well_read u \<and> xmode u = LIST \<and> xname u = n"
    using read_loop_well [OF u well_read_new] by simp
  have "role_lists u" using sub.IH(1) [OF u] well_read_new role_lists_new by simp
  let ?t = "if xcontent u \<noteq> [] then push u tree else tree"
  have "well_read ?t \<and> xmode ?t = LIST \<and> xname ?t = tag \<and> role_lists ?t"
    using w sub.prems \<open>role_lists u\<close> by (auto intro: well_read_push role_lists_push)
  moreover have "read_loop tag ?t (tl p) = Inr (x, q)"
    using sub.prems(1) u by (simp add: read_loop_sub)
  ultimately show ?case using sub.IH(2) [OF u] by blast
next
  case (line tag tree l r)
  then show ?case using well_read_add role_lists_add by (simp add: read_loop_line)
qed auto

lemma read_fact_good:
  assumes "read_fact ls = Inr (x, q)"
  shows "coherent (fact_obj x)" "role_lists (fact_obj x)" "xname (fact_obj x) = ''fact''"
    "xmode (fact_obj x) = LIST"
proof -
  obtain y where y: "read_loop ''fact'' (set_name ''fact'' (fact_obj new_fact)) ls = Inr (y, q)"
    and x: "fact_obj x = y"
    using assms by (auto simp: read_fact_def read_tree_def split: sum.splits)
  have "set_name ''fact'' (fact_obj new_fact) = set_name ''fact'' (new_xml LIST)"
    by (simp add: new_fact_def set_name_def)
  with y have l: "read_loop ''fact'' (set_name ''fact'' (new_xml LIST)) ls = Inr (y, q)" by simp
  have "well_read y \<and> xmode y = LIST \<and> xname y = ''fact''"
    by (rule read_loop_well [OF l]) (simp_all add: well_read_new)
  moreover have "role_lists y"
    by (rule read_loop_roles [OF l]) (simp_all add: well_read_new role_lists_new)
  ultimately show "coherent (fact_obj x)" "role_lists (fact_obj x)" "xname (fact_obj x) = ''fact''"
    "xmode (fact_obj x) = LIST"
    using well_read_coherent by (simp_all add: x)
qed

text \<open>The first result has a top that is printed as a fact: no marker hides its key.\<close>

definition fact_top :: "entities list \<Rightarrow> bool" where
  "fact_top rs =
    (case rs of [] \<Rightarrow> True
     | f # _ \<Rightarrow> (case f of [e] \<Rightarrow> xml_tag (grammar_key e) = ''fact'' | _ \<Rightarrow> False))"

lemma fact_top_result:
  assumes "fact_top rs"
  shows "if rs = [] then result_fact rs = Inr None
    else \<exists>x q ls. result_fact rs = Inr (Some x) \<and> read_fact ls = Inr (x, q)"
proof (cases rs)
  case Nil
  then show ?thesis by (simp add: result_fact_none)
next
  case (Cons f fs)
  with assms obtain e where f: "f = [e]" and k: "xml_tag (grammar_key e) = ''fact''"
    by (auto simp: fact_top_def split: list.splits)
  from k have "grammar_key e \<noteq> ''d-linking'' \<and> grammar_key e \<noteq> ''d-komma''"
    by (auto simp: xml_tag_def)
  from result_fact_found [OF k this] show ?thesis by (simp add: Cons f)
qed

section \<open>A sentence\<close>

text \<open>A sentence, a tagger and a grammar on which the whole way is run.\<close>

definition way_rules :: string where
  "way_rules = concat (map (\<lambda>l. l @ [newline])
    [''s-all:'', ''  d-^ s-np/v-subject d-verb/v-verb d-$'', ''s-np:'', ''  d-article d-adjective''])"

definition way_grammar :: grammar where
  "way_grammar =
    (case read_grammar remdups (Some way_rules) grammar_new of Inr (ret, g) \<Rightarrow> g | Inl err \<Rightarrow> grammar_new)"

definition way_expanded :: grammar where
  "way_expanded = (case expand_step remdups way_grammar of (d, n, g) \<Rightarrow> build_reducemap remdups g)"

definition way_tagger :: tagger where
  "way_tagger =
    \<lparr>verbose = False, buffered = False, lang = ''de'', path = ''.'',
     tg_type = [(''das'', ''art''), (''neue'', ''adj''), (''war'', ''v'')], tg_genus = [],
     regex_type = [], regex_genus = [], togglemap = [], custom_names = [], tg_written = []\<rparr>"

definition way_pos :: pos_lookup where
  "way_pos = get_pos no_rx remdups ''1'' (\<lambda>w t. t)"

definition way_sentence :: sentence where
  "way_sentence =
    \<lparr>sn_input = '' das neue war '', sn_mode = STATEMENT, sn_words = [''das'', ''neue'', ''war''],
     sn_tags = [(''art'', []), (''adj'', []), (''v'', [])], sn_parsed = [], sn_fact = None\<rparr>"

lemma way_made: "new_sentence no_rx way_pos '' das neue war '' way_tagger = Inr (way_sentence, way_tagger)"
  by code_simp

lemma way_read: "read_grammar remdups (Some way_rules) grammar_new = Inr (0, way_grammar)"
  by code_simp

lemma way_expand: "expand remdups way_grammar = Some way_expanded"
proof -
  have "fst (expand_step remdups way_grammar)" by code_simp
  then obtain n g where s: "expand_step remdups way_grammar = (True, n, g)"
    by (cases "expand_step remdups way_grammar") auto
  show ?thesis by (simp add: expand_def expand_loop_done [OF s] way_expanded_def s)
qed

definition way_results :: "entities list" where
  "way_results = fst (parse remdups (to_grammar_input no_rx [] way_sentence) way_expanded)"

definition way_tree :: entity where
  "way_tree =
    Entity [] ''s-all'' [] [] []
      [Entity ''d-^'' [] [] [''d-^''] [] [] (-1),
       Entity [] ''s-np'' [] [''v-subject''] []
         [Entity ''d-article'' [] [] [''d-article''] ''das'' [] (-1),
          Entity ''d-adjective'' [] [] [''d-adjective''] ''neue'' [] (-1)] (-1),
       Entity ''d-verb'' [] [] [''v-verb''] ''war'' [] (-1),
       Entity ''d-$'' [] [] [''d-$''] [] [] (-1)] (-1)"

lemma way_results_eq: "way_results = [[way_tree]]"
  by code_simp

definition way_obj :: xml_obj where
  "way_obj =
    Xml LIST ''fact'' []
      [Xml LIST ''subject'' []
         [Xml LIST ''text'' [] [Xml TEXT [] ''das'' [] False False []] False False [],
          Xml LIST ''text'' [] [Xml TEXT [] ''neue'' [] False False []] False False []] False False [],
       Xml LIST ''verb'' []
         [Xml LIST ''text'' [] [Xml TEXT [] ''war'' [] False False []] False False []] False False []]
      False False []"

lemma way_read_back: "result_fact [[way_tree]] = Inr (Some (new_fact\<lparr>fact_obj := way_obj\<rparr>))"
  by code_simp

lemma way_tagged:
  "case prepare_tags way_pos (trim_xml way_obj) way_tagger of Inl err \<Rightarrow> False | Inr r \<Rightarrow> True"
  by code_simp

lemma way_words: "words_of way_obj = [''das'', ''neue'', ''war'']" "fact_top [[way_tree]]"
  "sentence_leaves no_rx [] way_sentence =
    [(''d-^'', []), (''d-article'', ''das''), (''d-adjective'', ''neue''), (''d-verb'', ''war''), (''d-$'', [])]"
  by code_simp+

lemma way_parse:
  "\<exists>g1. parse remdups (to_grammar_input no_rx (custom_names way_tagger) way_sentence) way_expanded = ([[way_tree]], g1)"
  using way_results_eq by (cases "parse remdups (to_grammar_input no_rx [] way_sentence) way_expanded")
    (simp add: way_results_def way_tagger_def)

lemma way_parsed:
  "\<exists>s' st'. sentence_parse no_rx remdups way_pos way_sentence (way_tagger, way_expanded) = Inr (s', st')
    \<and> sn_parsed s' = [[way_tree]]"
proof -
  obtain o1 tg1 where "prepare_tags way_pos (trim_xml way_obj) way_tagger = Inr (o1, tg1)"
    using way_tagged by (cases "prepare_tags way_pos (trim_xml way_obj) way_tagger") auto
  moreover obtain g1 where
    "parse remdups (to_grammar_input no_rx (custom_names way_tagger) way_sentence) way_expanded = ([[way_tree]], g1)"
    using way_parse by blast
  ultimately show ?thesis by (simp add: sentence_parse_def way_read_back new_fact_def)
qed

section \<open>Properties\<close>

text \<open>Every sentence that is made has at least one word, no word with a space in it, an empty word
  only when it has no other, and one tag for each word; it is a question exactly when its text has a
  question mark or, unless it says it is none, it starts with a verb or has a question word, and a
  statement otherwise, so that the other two modes never occur.\<close>

theorem new_sentence_shape:
  assumes "new_sentence r gp txt tg = Inr (s, tg')"
  shows "sn_words s \<noteq> [] \<and> ([] \<in> set (sn_words s) \<longrightarrow> sn_words s = [[]])
    \<and> list_all (list_all (\<lambda>c. \<not> is_space c)) (sn_words s)
    \<and> length (sn_tags s) = length (sn_words s)
    \<and> sn_mode s = (if str_contains txt ''?'' then QUESTION
        else if str_contains txt ''_no-question_'' then STATEMENT
        else if fst (hd (sn_tags s)) = ''v'' \<or> ''questionword'' \<in> set (map fst (sn_tags s)) then QUESTION
        else STATEMENT)"
proof -
  note s = new_sentence_eq [OF assms]
  have "sn_tags s \<noteq> []" using s(2,3) sentence_words_shape(1) [of r "txt"] by auto
  then show ?thesis
    using s sentence_words_shape(1,3) [of r "txt"] sentence_words_shape(2) [of _ r "txt"]
    by (auto simp: asks_def list_ex_iff list_all_iff image_iff)
qed

theorem new_sentence_shape_witness:
  "sn_words way_sentence \<noteq> [] \<and> sn_mode way_sentence = STATEMENT"
proof -
  have "str_contains '' das neue war '' ''?'' = False" "str_contains '' das neue war '' ''_no-question_'' = False"
    by code_simp+
  with new_sentence_shape [OF way_made] show ?thesis by (simp add: way_sentence_def)
qed

text \<open>C6. Tagger, sentence and grammar fit together: the trees that parsing a sentence finds are trees
  of the grammar over exactly the words of the sentence, in order, each under the symbol of its tag,
  between the two end markers, when no word contains a character that the grammar's input format
  uses.\<close>

theorem sentence_trees:
  assumes ord: "good_order ord"
    and read: "read_grammar ord (Some rules_text) grammar_new = Inr (ret, g)"
    and headers: "list_all (\<lambda>rule. CHR '' '' \<notin> set (fst rule)) (gra g)"
    and expanded: "expand ord g = Some g'"
    and made: "new_sentence r gp txt tg0 = Inr (s, tg)"
    and words: "list_all no_marks (sn_words s)"
    and parsed: "sentence_parse r ord gp s (tg, g') = Inr (s', st')"
    and result: "f \<in> set (sn_parsed s')"
  shows "\<exists>tree. f = [tree] \<and> to_key tree = ''s-all'' \<and> valid_tree (index_rules g') tree
    \<and> leaves tree = sentence_leaves r (custom_names tg) s"
proof -
  note s = new_sentence_eq [OF made]
  have ok: "length (sn_words s) = length (sn_tags s)"
    "\<forall>w \<in> set (sn_words s). no_marks w \<and> (\<forall>c \<in> set w. \<not> is_space c)"
    using s(2,3) words sentence_words_shape(2) [of _ r "txt"] by (auto simp: list_all_iff)
  obtain tg' h where "st' = (tg', h)" by (cases st')
  with parsed have "f \<in> set (fst (parse ord (to_grammar_input r (custom_names tg) s) g'))"
    using result sentence_parse_parsed [of r ord gp s tg g'] by simp
  from parse_leaves [OF ord read headers expanded leaves_sentence(2) [OF ok] this] show ?thesis
    unfolding leaves_sentence(1) [OF ok] .
qed

theorem sentence_trees_witness:
  "valid_tree (index_rules way_expanded) way_tree
    \<and> leaves way_tree =
      [(''d-^'', []), (''d-article'', ''das''), (''d-adjective'', ''neue''), (''d-verb'', ''war''), (''d-$'', [])]"
proof -
  obtain s' st' where p: "sentence_parse no_rx remdups way_pos way_sentence (way_tagger, way_expanded) = Inr (s', st')"
    "sn_parsed s' = [[way_tree]]"
    using way_parsed by blast
  have h: "list_all (\<lambda>rule. CHR '' '' \<notin> set (fst rule)) (gra way_grammar)"
    "list_all no_marks (sn_words way_sentence)"
    by code_simp+
  have "custom_names way_tagger = []" by (simp add: way_tagger_def)
  with sentence_trees [OF good_order_remdups way_read h(1) way_expand way_made h(2) p(1), of "[way_tree]"] p(2)
  show ?thesis by (simp add: way_words)
qed

text \<open>C7. Parsing a sentence gives a fact exactly when the grammar finds a tree, if the top of the
  first tree is not hidden by a marker: reading the printed XML back never runs behind its end, the
  only failure is an invalid expression of the tagger, and the fact is a list named \<^verbatim>\<open>fact\<close> whose
  caches are right and that has the words that were read.\<close>

theorem sentence_fact:
  assumes "fact_top (fst (parse ord (to_grammar_input r (custom_names tg) s) g))"
  shows "case sentence_parse r ord gp s (tg, g) of
      Inl err \<Rightarrow> (\<exists>e. err = Rx_failed e)
    | Inr (s', tg', g') \<Rightarrow>
        if sn_parsed s' = [] then sn_fact s' = sn_fact s
        else (\<exists>x y. sn_fact s' = Some x \<and> result_fact (sn_parsed s') = Inr (Some y)
          \<and> coherent (fact_obj x) \<and> mset (words_of (fact_obj x)) = mset (words_of (fact_obj y)))"
proof -
  let ?rs = "fst (parse ord (to_grammar_input r (custom_names tg) s) g)"
  obtain rs g1 where p: "parse ord (to_grammar_input r (custom_names tg) s) g = (rs, g1)" by (metis surj_pair)
  show ?thesis
  proof (cases "rs = []")
    case True
    then show ?thesis using p by (simp add: sentence_parse_def result_fact_none)
  next
    case False
    then obtain y q ls where y: "result_fact rs = Inr (Some y)" "read_fact ls = Inr (y, q)"
      using fact_top_result [OF assms] p by auto
    let ?o = "trim_xml (fact_obj y)"
    note good = read_fact_good [OF y(2)]
    have t: "coherent ?o" "mset (words_of ?o) = mset (words_of (fact_obj y))"
      using trim_coherent trim_words good by blast+
    show ?thesis
    proof (cases "prepare_tags gp ?o tg")
      case (Inl err)
      then show ?thesis using p y by (simp add: sentence_parse_def)
    next
      case (Inr ot)
      obtain o1 tg1 where ot: "ot = (o1, tg1)" by (cases ot)
      from prepare_tags_same [OF Inr [unfolded ot]] t have "coherent o1"
        "mset (words_of o1) = mset (words_of (fact_obj y))" by (simp_all add: same_words_def)
      then show ?thesis using p y Inr False by (simp add: sentence_parse_def ot)
    qed
  qed
qed

theorem sentence_fact_witness:
  "case sentence_parse no_rx remdups way_pos way_sentence (way_tagger, way_expanded) of
      Inl err \<Rightarrow> False
    | Inr (s', st') \<Rightarrow> (\<exists>x. sn_fact s' = Some x
        \<and> mset (words_of (fact_obj x)) = mset [''das'', ''neue'', ''war''])"
proof -
  obtain s' tg' g' where p: "sentence_parse no_rx remdups way_pos way_sentence (way_tagger, way_expanded) = Inr (s', tg', g')"
    "sn_parsed s' = [[way_tree]]"
    using way_parsed by auto
  have "fact_top (fst (parse remdups (to_grammar_input no_rx (custom_names way_tagger) way_sentence) way_expanded))"
    using way_parse way_words(2) by auto
  from sentence_fact [OF this, of way_pos] show ?thesis
    by (auto simp: p way_read_back way_words(1))
qed

end
