(* ===== verification/Parser2012.thy ===== *)
theory Parser2012
  imports ParserRules Sentence
begin

text \<open>
  Class \<^verbatim>\<open>parser\<close> of \<^verbatim>\<open>hal2012-parser2012.cpp\<close>: from the text of a user to parsed sentences. The
  text is cleaned, cut into sentences at the marks that cleaning leaves, every sentence is rewritten by
  the rules of \<^verbatim>\<open>simplify_input\<close>, and becomes a \<^verbatim>\<open>sentence\<close> object that is parsed.

  Parameters: \<open>r\<close> is the expression engine, \<open>gp\<close> the tagger's \<^verbatim>\<open>get_pos\<close>, and the three files that
  \<^verbatim>\<open>simplify_input\<close> reads are their contents. \<open>stale n\<close> is what the code reads through group \<open>n\<close> of a
  match object whose string has been overwritten or destroyed, or after a search that found nothing:
  the library leaves it undefined, so it is an unknown string. An invalid expression is thrown by the
  searches that fill a match object, and the second element of a list with one is an index error.

  \<^verbatim>\<open>extend_input\<close>, \<^verbatim>\<open>put_underscore_names_into_builtin_name\<close> and \<^verbatim>\<open>to_unixtime\<close> have empty bodies.
\<close>

section \<open>Errors and files\<close>

datatype parser_error = Bad_index | Bad_expression rx_error | Sentence_failed parse_error

definition and_then :: "'e + 'a \<Rightarrow> ('a \<Rightarrow> 'e + 'b) \<Rightarrow> 'e + 'b" where
  "and_then x f = (case x of Inl err \<Rightarrow> Inl err | Inr a \<Rightarrow> f a)"

definition with_match :: "rx_error + string list option \<Rightarrow> 'a \<Rightarrow> (string list \<Rightarrow> parser_error + 'a) \<Rightarrow> parser_error + 'a" where
  "with_match x a f =
    (case x of Inl err \<Rightarrow> Inl (Bad_expression err) | Inr None \<Rightarrow> Inr a | Inr (Some m) \<Rightarrow> f m)"

type_synonym stale = "nat \<Rightarrow> string"

record parser_files =
  remove_words :: "string option"
  male_history :: "string option"
  female_history :: "string option"

section \<open>Pairs\<close>

definition underscored :: "rx \<Rightarrow> string \<Rightarrow> string" where
  "underscored r s =
    regex_replace r (trim (str_replace (str_replace s ''STOP'' []) [quote] [])) (pattern ''%s+'') ''_''"

text \<open>The inner loop; it overwrites the variable of the outer one.\<close>

fun pair_with :: "rx \<Rightarrow> string \<Rightarrow> string \<Rightarrow> string list \<Rightarrow> string" where
  "pair_with r joinby i [] = []"
| "pair_with r joinby i (j # js) =
    (if i \<noteq> j then
       ''_'' @ underscored r i @ ''_ '' @ joinby @ '' _'' @ underscored r j @ ''_ STOP ''
       @ pair_with r joinby (underscored r i) js
     else pair_with r joinby i js)"

definition pair_parts :: "string \<Rightarrow> string \<Rightarrow> string list" where
  "pair_parts str divideby = split_compress (is_any_of ''@'') (str_replace (trim str) divideby ''@'')"

definition build_pair_sentences :: "rx \<Rightarrow> string \<Rightarrow> string \<Rightarrow> string \<Rightarrow> string" where
  "build_pair_sentences r str divideby joinby =
    (let parts = pair_parts str divideby in concat (map (\<lambda>i. pair_with r joinby i parts) parts))"

definition build_word_sentences :: "string \<Rightarrow> string \<Rightarrow> string \<Rightarrow> string \<Rightarrow> string" where
  "build_word_sentences str divideby joinby word_1 =
    concat (map (\<lambda>j. if word_1 \<noteq> j
        then word_1 @ '' '' @ joinby @ '' '' @ trim (str_replace (str_replace j ''STOP'' []) [quote] []) @ '' STOP ''
        else []) (pair_parts str divideby))"

section \<open>Cleaning\<close>

definition clean_input :: "rx \<Rightarrow> stale \<Rightarrow> string \<Rightarrow> parser_error + string" where
  "clean_input r stale str =
    (let s1 = substs r reason_rules (substs r clean_rules str) in
     and_then
       (if str_contains s1 '' reasonof '' then Inr (build_pair_sentences r s1 '' reasonof '' ''reasonof'')
        else if str_contains s1 ''learn:'' then
          Inr (build_pair_sentences r (str_replace s1 ''learn:'' []) '','' ''='')
        else
          with_match (regex_ifind_m r s1 ''properties:(.*?):'')
            (if regex_find r s1 ''[=].*?[=]'' then build_pair_sentences r s1 ''='' ''='' else s1)
            (\<lambda>m. Inr (build_word_sentences (regex_replace r s1 ''properties:(.*?):'' []) '','' ''ist'' (stale 1))))
       (\<lambda>s2.
         (let s3 = trim (regex_replace r s2 (pattern ''%s+'') '' '');
              s4 = regex_replace r s3 ''@'' ''AT'';
              s5 = regex_replace r s4 (pattern ''%s*STOP%s*'') ''@''
          in Inr (trim_if (is_any_of ''@'') s5))))"

section \<open>Names and relations\<close>

definition to_name :: "rx \<Rightarrow> string \<Rightarrow> string" where
  "to_name r str =
    (let undef = regex_ifind r str (pattern ''(^|%s)(ein|eine)%s'');
         s1 = regex_ireplace r str (pattern ''(^|%s)(ein|eine)%s'') [];
         def = regex_ifind r s1 (pattern ''(^|%s)(der|die|das)%s'');
         s2 = regex_ireplace r s1 (pattern ''(^|%s)(der|die|das)%s'') [];
         s3 = trim_if (\<lambda>c. is_space c \<or> is_any_of ''_'' c) s2;
         s4 = regex_replace r s3 (pattern ''%s+'') ''_'';
         s5 = (if undef then ''(a) '' @ s4 else if def then ''(the) '' @ s4 else s4);
         s6 = regex_replace r s5 ''_(und|and)_'' ''_ & _''
     in regex_replace r s6 ''_(oder|or)_'' ''_ | _'')"

text \<open>The text is overwritten before the second group is read.\<close>

definition remove_adverbs :: "rx \<Rightarrow> stale \<Rightarrow> string \<times> string \<Rightarrow> parser_error + string \<times> string" where
  "remove_adverbs r stale ta =
    (let (str, adverbs) = ta in
     with_match (regex_find_m r str (pattern ''^(.*?)%s(von.*?)$'')) (str, adverbs)
       (\<lambda>m. Inr (capture 1 m, (if 0 < length adverbs then adverbs @ '' '' else adverbs) @ stale 2)))"

definition relation :: "rx \<Rightarrow> stale \<Rightarrow> string \<Rightarrow> string \<Rightarrow> string \<Rightarrow> parser_error + string" where
  "relation r stale rel a b =
    and_then (remove_adverbs r stale (a, [])) (\<lambda>(a1, adv1).
    and_then (remove_adverbs r stale (b, adv1)) (\<lambda>(b1, adv2).
      Inr (to_name r a1 @ rel @ to_name r b1 @ '' '' @ adv2)))"

text \<open>The fourth of the relations reads a match object that its own search does not fill.\<close>

definition find_relations :: "rx \<Rightarrow> stale \<Rightarrow> string \<Rightarrow> parser_error + string" where
  "find_relations r stale str =
    (if \<not> str_contains str ''?'' \<and> \<not> str_contains str '','' then
       and_then (with_match (regex_ifind_m r str
           (pattern ''^(.+?)%s+?((?:gehoert zu)|(?:liegt in)|(?:%s?ist in)|(?:%s?ist .*?teil von))%s+?(.+?)$''))
         str (\<lambda>m. relation r stale '' is-part '' (capture 1 m) (capture 3 m))) (\<lambda>s1.
       and_then (with_match (regex_ifind_m r s1 (pattern ''^(.+?)%s+?(gehoert)%s+?(.+?)$''))
         s1 (\<lambda>m. relation r stale '' is-own '' (capture 1 m) (capture 3 m))) (\<lambda>s2.
       and_then (with_match (regex_ifind_m r s2 (pattern ''^(.+?)%s+?(beinhaltet)%s+?(.+?)$''))
         s2 (\<lambda>m. relation r stale '' is-part '' (capture 3 m) (capture 1 m))) (\<lambda>s3.
       and_then (if regex_ifind r s3 (pattern ''^(.+?)%s+?(besitzt)%s+?(.+?)$'')
         then relation r stale '' is-own '' (stale 3) (stale 1) else Inr s3) (\<lambda>s4.
       Inr (substs r article_rules s4)))))
     else Inr str)"

definition question_starts :: string where
  "question_starts = pattern
    ''^%s*?(?:wie|wer|was|wo|wann|warum|wieso|weshalb|welcher|welchem|welches|welche|who|how|where|when|if|what)%s''"

definition find_property :: "rx \<Rightarrow> bool \<Rightarrow> string \<Rightarrow> parser_error + string" where
  "find_property r is_question str =
    (if is_question \<and> \<not> regex_ifind r str question_starts then
       with_match (regex_find_m r str ''^(.*?) hat (.*?)((?:[?].*?)?)$'') str
         (\<lambda>m. Inr (capture 2 m @ '' is-property '' @ capture 1 m @ '' ?''))
     else
       with_match (regex_find_m r str (pattern ''^(.*?) hat (?:der|die|das)%s([^A-Z]*?[A-Z][^%s]+?)%s(.*?)$'')) str
         (\<lambda>m. Inr (capture 1 m @ '' is-property '' @ to_name r (capture 2 m) @ '' _:_ '' @ to_name r (capture 3 m))))"

section \<open>Rewriting a sentence\<close>

text \<open>The stages of \<^verbatim>\<open>simplify_input\<close>, in its order. Each is a run of rule tables with the statements
  between them.\<close>

definition substs_if :: "bool \<Rightarrow> rx \<Rightarrow> sub list \<Rightarrow> string \<Rightarrow> string" where
  "substs_if b r us s = (if b then substs r us s else s)"

definition simplify_opening :: "rx \<Rightarrow> string \<Rightarrow> string \<Rightarrow> string" where
  "simplify_opening r lng s =
    (let s1 = substs r mark_rules s;
         s2 = (if lng = ''en'' then substs r english_rules (substs_if (7 < length s1) r no_rules s1) else s1);
         s3 = substs r comma_rules s2;
         s4 = substs_if (length s3 < 8) r short_opening_rules s3;
         s5 = substs r nein_rules s4;
         s6 = substs_if (5 < length s5) r ja_rules s5
     in substs r opening_rules s6)"

definition keep_verb :: "rx \<Rightarrow> string \<Rightarrow> parser_error + string" where
  "keep_verb r s =
    with_match (regex_find_m r s (pattern ''^(ist|war|sind|waren)%s'')) s
      (\<lambda>m. Inr (regex_ireplace r s (pattern ''^(ist|war|sind|waren)%s'') (capture 1 m @ '' '')))"

definition judge :: "rx \<Rightarrow> string \<Rightarrow> string \<Rightarrow> string" where
  "judge r word s =
    (if regex_find r s (pattern (''%('' @ word @ ''%)'')) then
       ''_'' @ regex_ireplace r (trim (regex_ireplace r s (pattern (''%s*?%('' @ word @ ''%)'')) []))
           (pattern ''%s+ '') ''_''
       @ ''_ = _('' @ word @ '')_''
     else s)"

definition simplify_numbers :: "rx \<Rightarrow> string \<Rightarrow> string" where
  "simplify_numbers r s =
    (let s1 = substs r compare_rules (substs r month_rules (substs r as_well_rules s));
         s2 = substs_if (length s1 < 14) r weisst_rules s1
     in substs r today_rules (substs r number_rules (substs r lately_rules s2)))"

definition remove_word :: "rx \<Rightarrow> string \<Rightarrow> string \<Rightarrow> string" where
  "remove_word r line s =
    (let w = trim line; punct = pattern ''([%s!.,?]+)'';
         e = (if starts_with w ''^'' then ''^'' @ punct @ w @ punct
              else if ends_with w ''$'' then punct @ w @ punct @ ''$''
              else punct @ w @ punct)
     in regex_ireplace r (regex_ireplace r s e (pattern ''%1%2'')) (pattern ''%s+'') '' '')"

definition simplify_fillers :: "rx \<Rightarrow> string \<Rightarrow> parser_files \<Rightarrow> string \<Rightarrow> string" where
  "simplify_fillers r lng fs s =
    (let s1 = substs_if (\<not> regex_find r s ''(heiss|name)'' \<and> lng = ''de'' \<and> 20 < length s) r freehal_rules s;
         s2 = substs r noch_rules ('' '' @ s1 @ '' '');
         s3 = (case remove_words fs of None \<Rightarrow> s2
               | Some contents \<Rightarrow> fold (remove_word r) (split_lines contents) s2);
         s4 = trim (substs r know_rules s3)
     in substs r genitive_rules (trim (substs r date_rules s4)))"

definition according_to :: "rx \<Rightarrow> stale \<Rightarrow> string \<Rightarrow> parser_error + string" where
  "according_to r stale s =
    (if regex_find r s (pattern ''(^|%s)(.+?)%s(den|dem|der|des)%s([A-Z])'') then
       with_match (regex_find_m r (lc s) (pattern ''(^|%s)(laut|nach)%s(den|dem|der|des)%s'')) s
         (\<lambda>m. Inr (regex_ireplace r s (pattern ''(^|%s)(laut|nach)%s(den|dem|der|des)%s'')
            (pattern ''%1_'' @ stale 2 @ pattern ''_ %3 '')))
     else Inr s)"

text \<open>The first half, up to the relations.\<close>

definition simplify_first :: "rx \<Rightarrow> stale \<Rightarrow> string \<Rightarrow> parser_files \<Rightarrow> string \<Rightarrow> parser_error + string" where
  "simplify_first r stale lng fs str =
    (let is_question = regex_find r str ''[?]'' in
     and_then (keep_verb r (simplify_opening r lng str)) (\<lambda>s1.
     and_then (according_to r stale
       (simplify_fillers r lng fs (simplify_numbers r
         (judge r ''good'' (judge r ''bad'' (substs r name_question_rules s1)))))) (\<lambda>s2.
     and_then (find_property r is_question (substs r equal_rules s2)) (\<lambda>s3.
       find_relations r stale s3))))"

definition upper_heisst :: "rx \<Rightarrow> string \<Rightarrow> parser_error + string" where
  "upper_heisst r s =
    with_match (regex_ifind_m r s ''(was heisst) ([a-z])'') s
      (\<lambda>m. Inr (regex_ireplace r s ''(was heisst) ([a-z])'' (pattern ''%1 '' @ ucfirst (capture 2 m))))"

definition question_mark :: "rx \<Rightarrow> string \<Rightarrow> string" where
  "question_mark r s =
    (if \<not> str_contains s ''_no-question_'' \<and> regex_ifind r s question_starts
        \<and> (\<not> ends_with s ''?'' \<or> regex_find r s ''[?].*?[?]'')
     then trim (regex_replace r s (pattern ''%s*[?]'') []) @ '' ?'' else s)"

definition upper_noun_verb :: "rx \<Rightarrow> string \<Rightarrow> parser_error + string" where
  "upper_noun_verb r s =
    with_match (regex_find_m r s (pattern ''%s(|d|m|k)ein%s([a-z]+?en)(%s|$)'')) s
      (\<lambda>m. Inr (regex_replace r s (pattern ''%s(|d|m|k)ein%s([a-z]+?en)(%s|$)'')
        (pattern '' %1ein '' @ ucfirst (capture 2 m) @ pattern ''%3'')))"

definition simplify_wording :: "rx \<Rightarrow> string \<Rightarrow> parser_error + string" where
  "simplify_wording r s =
    and_then (upper_heisst r (substs r ask_rules (substs r wording_rules s))) (\<lambda>s1.
      (let s2 = substs r tell_rules (question_mark r (substs r heisst_rules s1));
           s3 = substs r macht_rules (substs_if (\<not> regex_find r s2 '' aus.?.?.?.?$'') r kennst_rules s2);
           s4 = substs r es_ist_rules (substs_if (10 < length s3) r filler_ja_rules s3)
       in and_then (upper_noun_verb r s4) (\<lambda>s5.
            (let s6 = substs_if (regex_find r s5 ''(([?])|global var questionwords_reg_ex)'') r possessive_rules s5
             in Inr (substs r enumerate_rules (substs r own_name_rules
                  ((substs r list_rules ^^ 19) (substs r can_rules s6))))))))"

definition join_zum :: "rx \<Rightarrow> string \<Rightarrow> parser_error + string" where
  "join_zum r s =
    with_match (regex_find_m r s (pattern ''%szu[mr]%s+([a-zA-Z_]+)%s+([a-zA-Z_]+)(<ws>?[,.?!]*?<ws>?)$'')) s
      (\<lambda>m. Inr (if ends_with (capture 2 m) ''t'' then
          regex_ireplace r s (pattern ''%szu([mt])%s+([a-zA-Z_]+)%s+([a-zA-Z_]+)(<ws>?[,.?!]*?<ws>?)$'')
            (pattern '' zu%1_%l%2_%l%3 %4'') else s))"

definition opposite_parts :: "rx \<Rightarrow> string \<Rightarrow> string list" where
  "opposite_parts r s =
    split_compress (is_any_of ''@'')
      (str_replace (regex_replace r (trim s) (pattern ''%s+'') ''_'') ''_opposite_'' ''@'')"

definition find_opposites :: "rx \<Rightarrow> string \<Rightarrow> parser_error + string" where
  "find_opposites r s =
    (if regex_find r s '' opposite '' then
       (case opposite_parts r s of
          a # b # _ \<Rightarrow> Inr (''_'' @ a @ ''_ opposite _'' @ b @ ''_'')
        | _ \<Rightarrow> Inl Bad_index)
     else Inr s)"

definition simplify_negation :: "rx \<Rightarrow> string \<Rightarrow> string \<Rightarrow> parser_error + string" where
  "simplify_negation r lng s =
    (let s1 = substs_if (24 < length s \<and> regex_find r s ''(question|fact)next'') r long_weisst_rules s;
         s2 = substs r noch_rules_2 ('' '' @ substs r weisst_du_rules s1 @ '' '');
         s3 = substs r negation_rules (substs_if (24 < length s2 \<and> str_contains s2 ''?'') r gerne_rules s2);
         s4 = substs_if (str_contains lng ''de'') r german_im_rules s3
     in and_then (join_zum r s4) (\<lambda>s5.
        and_then (find_opposites r (substs r weiss_rules (substs r zum_rules s5))) (\<lambda>s6.
          Inr (substs r zu_rules s6))))"

section \<open>Clauses\<close>

text \<open>The words of a clause with \<^verbatim>\<open>zu\<close> and a verb: is there another verb, before a linking word
  that follows it? The tagger may remember a guess at every word.\<close>

fun other_verb :: "pos_lookup \<Rightarrow> string \<Rightarrow> string list \<Rightarrow> bool \<Rightarrow> bool \<Rightarrow> tagger \<Rightarrow> rx_error + (bool \<times> tagger)" where
  "other_verb gp zu_verb [] other seen tg = Inr (other, tg)"
| "other_verb gp zu_verb (w # ws) other seen tg =
    (if length w = 0 then other_verb gp zu_verb ws other seen tg
     else if w \<noteq> zu_verb then
       (case gp w tg of
          Inl err \<Rightarrow> Inl err
        | Inr (t, tg1) \<Rightarrow>
            if fst t = ''linking'' \<and> seen then Inr (other, tg1)
            else other_verb gp zu_verb ws (if fst t = ''v'' then True else other) seen tg1)
     else other_verb gp zu_verb ws other True tg)"

definition zu_clause :: "rx \<Rightarrow> pos_lookup \<Rightarrow> string \<Rightarrow> string \<times> tagger \<Rightarrow> parser_error + string \<times> tagger" where
  "zu_clause r gp clause st =
    (let (s, tg) = st; zu = pattern ''%szu%s([a-z]+?en)%s'' in
     with_match (regex_find_m r clause zu) (s, tg)
       (\<lambda>m. (case other_verb gp (capture 1 m) (split_compress is_space (trim clause)) False False tg of
          Inl err \<Rightarrow> Inl (Bad_expression err)
        | Inr (other, tg1) \<Rightarrow>
            Inr (regex_replace r s zu (pattern (if other then '' , _to_ %1 '' else '' _to_ %1 '')), tg1))))"

fun each_clause :: "(string \<Rightarrow> string \<times> tagger \<Rightarrow> parser_error + string \<times> tagger) \<Rightarrow> string list
    \<Rightarrow> string \<times> tagger \<Rightarrow> parser_error + string \<times> tagger" where
  "each_clause f [] st = Inr st"
| "each_clause f (c # cs) st =
    (case f c st of Inl err \<Rightarrow> Inl err | Inr st1 \<Rightarrow> each_clause f cs st1)"

definition clauses_of :: "string \<Rightarrow> string list" where
  "clauses_of s = split_compress (is_any_of '','') s"

definition zu_clauses :: "rx \<Rightarrow> pos_lookup \<Rightarrow> string \<times> tagger \<Rightarrow> parser_error + string \<times> tagger" where
  "zu_clauses r gp st =
    (let (s, tg) = st; s1 = str_replace s ''KOMMA'' '','' in
     each_clause (zu_clause r gp) (clauses_of s1) (s1, tg))"

definition relative_clause :: "rx \<Rightarrow> pos_lookup \<Rightarrow> string \<Rightarrow> string \<times> tagger \<Rightarrow> parser_error + string \<times> tagger" where
  "relative_clause r gp clause st =
    (let (s, tg) = st in
     with_match (regex_find_m r clause (pattern ''^%s*?(der|die|das|den|dem|dessen)%s([a-z]+?)%s'')) (s, tg)
       (\<lambda>m. (let rel_verb = capture 2 m;
                 e = pattern ''%s*?(der|die|das|den|dem|dessen)%s('' @ rel_verb @ pattern '')%s''
             in case gp rel_verb tg of
                  Inl err \<Rightarrow> Inl (Bad_expression err)
                | Inr (t, tg1) \<Rightarrow>
                    if fst t = ''v'' \<or> length (split_compress is_space clause) < 3
                    then Inr (regex_replace r s e (pattern '' _%1_ %2 ''), tg1)
                    else Inr (regex_replace r s e (pattern '' %1%{%{%{questionword%}%}%} %2 ''), tg1))))"

text \<open>The first clause is never relative.\<close>

definition relative_clauses :: "rx \<Rightarrow> pos_lookup \<Rightarrow> string \<times> tagger \<Rightarrow> parser_error + string \<times> tagger" where
  "relative_clauses r gp st =
    (let (s, tg) = st; s1 = str_replace s ''KOMMA'' '','' in
     each_clause (relative_clause r gp) (drop 1 (clauses_of s1)) (s1, tg))"

section \<open>The last stages\<close>

definition simplify_es :: "rx \<Rightarrow> string \<Rightarrow> string" where
  "simplify_es r s =
    (let s1 = substs_if (regex_find r s (pattern ''ist es.*?%szu%s'')) r es_rules s;
         s2 = substs_if (regex_find r s1 (pattern ''ist%ses(%s[A-Za-z]+?)?(%s[A-Za-z]+?)?%s(das|der|die)%s'')) r es_rules s1
     in trim_left_if (\<lambda>c. is_space c \<or> is_any_of '','' c) s2)"

definition simplify_years :: "rx \<Rightarrow> string \<Rightarrow> string \<Rightarrow> string" where
  "simplify_years r lng s =
    (if str_contains lng ''de'' then
       (let s1 = substs r year_rules s in
        if regex_find r s1 (pattern ''%d%d%d%d'') then
          (let s2 = substs_if (\<not> regex_find r s1 (pattern ''%svon%s(%d%d%d%d)%s'')
                      \<and> \<not> regex_ifind r s1 (pattern ''ist%s(%d%d%d%d)'')) r in_year_rules s1
           in substs_if (\<not> regex_find r s2 (pattern ''(%d%d%d%d)......'')) r bare_year_rules s2)
        else s1)
     else s)"

definition simplify_titles :: "rx \<Rightarrow> string \<Rightarrow> string \<Rightarrow> string" where
  "simplify_titles r lng s =
    (let s1 = substs r user_rules s;
         s2 = substs_if (regex_ifind r s1 (pattern ''ist%s(%d+?)'')) r count_rules s1;
         s3 = simplify_years r lng (substs r tobias_rules s2);
         s4 = substs_if (regex_find r s3 ''[?]'') r nicht_rules s3
     in substs r what_rules (trim (substs r title_rules s4)))"

definition quoted_rules :: "sub list" where
  "quoted_rules =
    [Ireplace (''%s'' @ [quote] @ ''%s?([A-Za-z0-9_'' @ [quote] @ '']+?)%s?'' @ [quote]) ('' '' @ [quote] @ ''%1'' @ [quote]),
     Ireplace ''in dem jahr ([%d]+)'' (''in dem '' @ [quote] @ ''jahre %1'' @ [quote]),
     Ireplace ''in dem jahre ([%d]+)'' (''in dem '' @ [quote] @ ''jahre %1'' @ [quote])]"

definition quote_step :: sub where
  "quote_step =
    Ireplace ([quote] @ ''([^%s'' @ [quote] @ '']+?)%s([^'' @ [quote] @ '']*?)'' @ [quote])
      ([quote] @ ''%1_%2'' @ [quote])"

text \<open>From 50 down to 0 the body runs 51 times.\<close>

definition simplify_quotes :: "rx \<Rightarrow> string \<Rightarrow> string" where
  "simplify_quotes r s =
    subst r (Ireplace [quote] ''_'') ((subst r quote_step ^^ 51) (substs r quoted_rules s))"

definition last_substantive :: "string \<Rightarrow> string" where
  "last_substantive contents = fold (\<lambda>l best. if 1 < length l then l else best) (split_lines contents) []"

definition replace_he :: "rx \<Rightarrow> string \<Rightarrow> string \<Rightarrow> string" where
  "replace_he r s replacement =
    regex_ireplace r (regex_ireplace r s (pattern ''(^|%s)(er|ihn)(%s|$)'') (pattern ''%1'' @ replacement @ pattern ''%3''))
      (pattern ''(^|%s)(he|him)(%s|$)'') (pattern ''%1'' @ replacement @ pattern ''%3'')"

definition replace_she :: "rx \<Rightarrow> string \<Rightarrow> string \<Rightarrow> string" where
  "replace_she r s replacement =
    regex_ireplace r (regex_ireplace r s (pattern ''(^|%s)(sie)(%s|$)'') (pattern ''%1'' @ replacement @ pattern ''%3''))
      (pattern ''(^|%s)(she)(%s|$)'') (pattern ''%1'' @ replacement @ pattern ''%3'')"

definition from_history :: "(rx \<Rightarrow> string \<Rightarrow> string \<Rightarrow> string) \<Rightarrow> rx \<Rightarrow> string option \<Rightarrow> string \<Rightarrow> string" where
  "from_history f r hist s =
    (case hist of None \<Rightarrow> s
     | Some contents \<Rightarrow>
         if 0 < length (last_substantive contents) then f r s (last_substantive contents) else s)"

definition simplify_end :: "rx \<Rightarrow> parser_files \<Rightarrow> string \<Rightarrow> string" where
  "simplify_end r fs s =
    (let s1 = substs r next_rules (trim (simplify_quotes r s));
         s2 = (if regex_find r s1 ''[?]'' then lcfirst s1 else s1)
     in from_history replace_she r (female_history fs) (from_history replace_he r (male_history fs) s2))"

definition simplify_input ::
  "rx \<Rightarrow> pos_lookup \<Rightarrow> stale \<Rightarrow> string \<Rightarrow> parser_files \<Rightarrow> string \<times> tagger \<Rightarrow> parser_error + string \<times> tagger"
where
  "simplify_input r gp stale lng fs st =
    (let (s, tg) = st in
     and_then (simplify_first r stale lng fs s) (\<lambda>s1.
     and_then (simplify_wording r s1) (\<lambda>s2.
     and_then (simplify_negation r lng s2) (\<lambda>s3.
     and_then (zu_clauses r gp (s3, tg)) (\<lambda>(s4, tg1).
     and_then (relative_clauses r gp (simplify_titles r lng (simplify_es r s4), tg1)) (\<lambda>(s5, tg2).
       Inr (simplify_end r fs s5, tg2)))))))"

section \<open>The parser\<close>

record parser = freehal_base +
  pr_raw :: string
  pr_clean :: string
  pr_simplified :: "string list"
  pr_extended :: "string list"
  pr_sentences :: "sentence list"
  pr_tagger :: bool
  pr_grammar :: bool

definition pr_set_tagger :: "bool \<Rightarrow> parser \<Rightarrow> parser" where
  "pr_set_tagger t p = p\<lparr>pr_tagger := t\<rparr>"

definition pr_set_grammar :: "bool \<Rightarrow> parser \<Rightarrow> parser" where
  "pr_set_grammar g p = p\<lparr>pr_grammar := g\<rparr>"

text \<open>The loops of \<^verbatim>\<open>parse\<close>: rewriting, making and parsing every sentence, in three passes.\<close>

fun simplify_all ::
  "(string \<times> tagger \<Rightarrow> parser_error + string \<times> tagger) \<Rightarrow> string list \<Rightarrow> tagger
    \<Rightarrow> parser_error + string list \<times> tagger" where
  "simplify_all f [] tg = Inr ([], tg)"
| "simplify_all f (s # ss) tg =
    and_then (f (s, tg)) (\<lambda>(s1, tg1).
    and_then (simplify_all f ss tg1) (\<lambda>(ss1, tg2). Inr (s1 # ss1, tg2)))"

fun make_all :: "rx \<Rightarrow> pos_lookup \<Rightarrow> string list \<Rightarrow> tagger \<Rightarrow> parser_error + sentence list \<times> tagger" where
  "make_all r gp [] tg = Inr ([], tg)"
| "make_all r gp (s # ss) tg =
    (case new_sentence r gp s tg of
       Inl err \<Rightarrow> Inl (Bad_expression err)
     | Inr (x, tg1) \<Rightarrow> and_then (make_all r gp ss tg1) (\<lambda>(xs, tg2). Inr (x # xs, tg2)))"

fun parse_all ::
  "(sentence \<Rightarrow> tagger \<times> grammar \<Rightarrow> parse_error + (sentence \<times> tagger \<times> grammar)) \<Rightarrow> sentence list
    \<Rightarrow> tagger \<times> grammar \<Rightarrow> parser_error + sentence list \<times> tagger \<times> grammar" where
  "parse_all f [] st = Inr ([], st)"
| "parse_all f (x # xs) st =
    (case f x st of
       Inl err \<Rightarrow> Inl (Sentence_failed err)
     | Inr (y, st1) \<Rightarrow> and_then (parse_all f xs st1) (\<lambda>(ys, st2). Inr (y # ys, st2)))"

definition sentence_texts :: "string \<Rightarrow> string list" where
  "sentence_texts clean = split_compress (is_any_of ''@'') clean"

definition parser_parse ::
  "rx \<Rightarrow> hash_order \<Rightarrow> pos_lookup \<Rightarrow> stale \<Rightarrow> parser_files \<Rightarrow> string \<Rightarrow> parser \<Rightarrow> tagger \<times> grammar
    \<Rightarrow> parser_error + parser \<times> tagger \<times> grammar"
where
  "parser_parse r ord gp stale fs input p st =
    (let (tg, g) = st in
     if \<not> is_configured p then Inr (p, st)
     else if \<not> pr_tagger p then Inr (p, st)
     else if \<not> pr_grammar p then Inr (p, st)
     else
       and_then (clean_input r stale input) (\<lambda>clean.
       and_then (simplify_all (simplify_input r gp stale (lang p) fs) (sentence_texts clean) tg) (\<lambda>(simplified, tg1).
       and_then (make_all r gp simplified tg1) (\<lambda>(made, tg2).
       and_then (parse_all (sentence_parse r ord gp) made (tg2, g)) (\<lambda>(parsed, st3).
         Inr (p\<lparr>pr_raw := input, pr_clean := clean, pr_simplified := simplified,
                pr_extended := simplified, pr_sentences := parsed\<rparr>, st3))))))"

section \<open>Lemmas\<close>

lemma and_then_Inr: "and_then x f = Inr y \<longleftrightarrow> (\<exists>a. x = Inr a \<and> f a = Inr y)"
  by (cases x) (simp_all add: and_then_def)

lemma and_then_Inl: "and_then x f = Inl e \<longleftrightarrow> x = Inl e \<or> (\<exists>a. x = Inr a \<and> f a = Inl e)"
  by (cases x) (simp_all add: and_then_def)

lemma with_match_Inl:
  "with_match x a f = Inl e \<longleftrightarrow> (\<exists>err. x = Inl err \<and> e = Bad_expression err) \<or> (\<exists>m. x = Inr (Some m) \<and> f m = Inl e)"
  by (cases x) (auto simp: with_match_def split: option.splits)

text \<open>Pairs.\<close>

definition pair_text :: "string \<Rightarrow> string \<Rightarrow> string \<Rightarrow> string" where
  "pair_text joinby i j = ''_'' @ i @ ''_ '' @ joinby @ '' _'' @ j @ ''_ STOP ''"

lemma pair_with_Cons:
  "pair_with r jb i (j # js) =
    (if i \<noteq> j then pair_text jb (underscored r i) (underscored r j) @ pair_with r jb (underscored r i) js
     else pair_with r jb i js)"
  by (simp add: pair_text_def)

lemma pair_with_plain:
  "underscored r i = i \<Longrightarrow> \<forall>j \<in> set js. underscored r j = j \<Longrightarrow>
    pair_with r jb i js = concat (map (pair_text jb i) (filter (\<lambda>j. j \<noteq> i) js))"
proof (induction js)
  case (Cons j js)
  then show ?case by (simp add: pair_with_Cons del: pair_with.simps) auto
qed simp

lemma pair_with_meets:
  "underscored r u = u \<Longrightarrow> u \<noteq> p \<Longrightarrow> sublist (pair_text jb u (underscored r p)) (pair_with r jb u (xs @ p # ys))"
proof (induction xs)
  case Nil
  then show ?case by (simp add: pair_with_Cons sublist_append_rightI del: pair_with.simps)
next
  case (Cons x xs)
  then have ih: "sublist (pair_text jb u (underscored r p)) (pair_with r jb u (xs @ p # ys))" by blast
  show ?case
  proof (cases "u = x")
    case True
    then show ?thesis using ih by (simp add: pair_with_Cons del: pair_with.simps)
  next
    case False
    then show ?thesis
      using ih Cons.prems(1) by (simp add: pair_with_Cons sublist_append del: pair_with.simps)
  qed
qed

lemma sublist_concat: "x \<in> set xs \<Longrightarrow> sublist s (f x) \<Longrightarrow> sublist s (concat (map f xs))"
  by (auto dest!: split_list simp: sublist_append)

text \<open>Cutting at a mark.\<close>

lemma length_split_compress: "2 \<le> length (split_compress p s) \<longleftrightarrow> list_ex p s"
proof (cases "dropWhile (\<lambda>c. \<not> p c) s")
  case Nil
  then have "\<not> list_ex p s" by (auto simp: list_ex_iff dropWhile_eq_Nil_conv)
  then show ?thesis using split_compress_one [OF Nil] by simp
next
  case (Cons c t)
  then have "p c" "c \<in> set s" by (simp add: dropWhile_eq_Cons_conv) (metis Cons list.set_intros(1) set_dropWhileD)
  then have "list_ex p s" by (auto simp: list_ex_iff)
  moreover have "split_compress p (dropWhile p t) \<noteq> []" by simp
  then have "1 \<le> length (split_compress p (dropWhile p t))" by (cases "split_compress p (dropWhile p t)") auto
  ultimately show ?thesis using split_compress_more [OF Cons] by simp
qed

lemma replace_all_mark:
  "d \<notin> set f \<Longrightarrow> f \<noteq> [] \<Longrightarrow> d \<in> set (replace_all f [d] s) \<longleftrightarrow> d \<in> set s \<or> sublist f s"
proof (induction s rule: length_induct)
  case (1 s)
  show ?case
  proof (cases s)
    case Nil
    then show ?thesis using "1.prems" by (simp add: replace_all.simps)
  next
    case (Cons c t)
    show ?thesis
    proof (cases "prefix f s")
      case True
      then have "sublist f s" by (auto simp: prefix_def sublist_def)
      then show ?thesis using True Cons "1.prems" by (subst replace_all.simps) simp
    next
      case False
      then have "sublist f s \<longleftrightarrow> sublist f t" by (simp add: Cons sublist_Cons_right)
      moreover have "d \<in> set (replace_all f [d] t) \<longleftrightarrow> d \<in> set t \<or> sublist f t"
        using 1 Cons by simp
      ultimately show ?thesis using False Cons "1.prems" by (subst replace_all.simps) auto
    qed
  qed
qed

text \<open>What the loops of \<^verbatim>\<open>parse\<close> keep.\<close>

lemma simplify_all_length: "simplify_all f ss tg = Inr (ts, tg') \<Longrightarrow> length ts = length ss"
  by (induction ss arbitrary: tg ts tg') (auto simp: and_then_Inr)

lemma make_all_sentences:
  "make_all r gp ss tg = Inr (xs, tg') \<Longrightarrow>
    length xs = length ss \<and> (\<forall>x \<in> set xs. \<exists>txt tg tg'. new_sentence r gp txt tg = Inr (x, tg'))"
proof (induction ss arbitrary: tg xs tg')
  case (Cons s ss)
  then obtain x tg1 ys where "new_sentence r gp s tg = Inr (x, tg1)" "make_all r gp ss tg1 = Inr (ys, tg')" "xs = x # ys"
    by (auto simp: and_then_Inr split: sum.splits)
  with Cons.IH show ?case by auto
qed simp

lemma sentence_parse_frame:
  assumes "sentence_parse r ord gp s st = Inr (s', st')"
  shows "sn_input s' = sn_input s \<and> sn_mode s' = sn_mode s \<and> sn_words s' = sn_words s \<and> sn_tags s' = sn_tags s"
proof -
  obtain tg g where st: "st = (tg, g)" by (cases st)
  obtain rs g1 where p: "parse ord (to_grammar_input r (custom_names tg) s) g = (rs, g1)" by (metis surj_pair)
  show ?thesis
    using assms by (auto simp: sentence_parse_def st p Let_def split: sum.splits option.splits)
qed

lemma parse_all_sentences:
  "parse_all (sentence_parse r ord gp) xs st = Inr (ys, st') \<Longrightarrow>
    length ys = length xs \<and> map sn_mode ys = map sn_mode xs \<and> map sn_words ys = map sn_words xs
    \<and> map sn_input ys = map sn_input xs \<and> map sn_tags ys = map sn_tags xs"
proof (induction xs arbitrary: st ys st')
  case (Cons x xs)
  then obtain y st1 zs where y: "sentence_parse r ord gp x st = Inr (y, st1)"
    and z: "parse_all (sentence_parse r ord gp) xs st1 = Inr (zs, st')" and ys: "ys = y # zs"
    by (auto simp: and_then_Inr split: sum.splits)
  show ?case using Cons.IH [OF z] sentence_parse_frame [OF y] by (simp add: ys)
qed simp

definition pr_ready :: "parser \<Rightarrow> bool" where
  "pr_ready p \<longleftrightarrow> is_configured p \<and> pr_tagger p \<and> pr_grammar p"

lemma parser_parse_sentences:
  assumes "parser_parse r ord gp stale fs input p st = Inr (p', st')" "pr_ready p"
  shows "length (pr_sentences p') = length (sentence_texts (pr_clean p'))
    \<and> (\<forall>x \<in> set (pr_sentences p'). sn_mode x = QUESTION \<or> sn_mode x = STATEMENT)"
proof -
  obtain tg g where st: "st = (tg, g)" by (cases st)
  obtain clean simplified tg1 made tg2 parsed where c:
    "simplify_all (simplify_input r gp stale (lang p) fs) (sentence_texts clean) tg = Inr (simplified, tg1)"
    "make_all r gp simplified tg1 = Inr (made, tg2)"
    "parse_all (sentence_parse r ord gp) made (tg2, g) = Inr (parsed, st')"
    and p': "pr_clean p' = clean" "pr_sentences p' = parsed"
    using assms unfolding parser_parse_def st pr_ready_def by (auto simp: and_then_Inr)
  note m = make_all_sentences [OF c(2)] and q = parse_all_sentences [OF c(3)]
  have modes: "\<forall>x \<in> set made. sn_mode x = QUESTION \<or> sn_mode x = STATEMENT"
    using m new_sentence_eq(4) by metis
  have "sn_mode ` set parsed = sn_mode ` set made" using q by (metis set_map)
  then have "sn_mode x = QUESTION \<or> sn_mode x = STATEMENT" if "x \<in> set parsed" for x
    using that modes by (metis image_iff)
  then show ?thesis
    using simplify_all_length [OF c(1)] m q by (simp add: p')
qed

section \<open>Properties\<close>

text \<open>C12. When every part of a list of things is one word without a quote, the pairs that are built are
  exactly the ordered pairs of different parts, in the order of the list.\<close>

theorem pairs_of_words:
  assumes "\<And>p. p \<in> set (pair_parts str divideby) \<Longrightarrow> underscored r p = p"
  shows "build_pair_sentences r str divideby joinby =
    concat (map (\<lambda>i. concat (map (pair_text joinby i) (filter (\<lambda>j. j \<noteq> i) (pair_parts str divideby))))
      (pair_parts str divideby))"
  using assms pair_with_plain [of r _ "pair_parts str divideby" joinby]
  by (auto simp: build_pair_sentences_def Let_def intro!: arg_cong [where f = concat])

text \<open>An engine that replaces runs of blanks.\<close>

fun blank_runs :: "string \<Rightarrow> bool \<Rightarrow> string \<Rightarrow> string" where
  "blank_runs t in_run [] = []"
| "blank_runs t in_run (c # s) =
    (if is_space c then (if in_run then [] else t) @ blank_runs t True s else c # blank_runs t False s)"

definition blank_rx :: rx where
  "blank_rx = \<lparr>rx_valid = \<lambda>e. True, rx_search = \<lambda>i e s. None,
    rx_subst = \<lambda>i e t s. if e = pattern ''%s+'' then blank_runs t False s else s\<rparr>"

theorem pairs_of_words_witness:
  "build_pair_sentences blank_rx ''Rom,Bonn'' '','' ''='' = ''_Rom_ = _Bonn_ STOP _Bonn_ = _Rom_ STOP ''"
proof -
  have parts: "pair_parts ''Rom,Bonn'' '','' = [''Rom'', ''Bonn'']" by code_simp
  have "underscored blank_rx ''Rom'' = ''Rom''" "underscored blank_rx ''Bonn'' = ''Bonn''" by code_simp+
  then have u: "p \<in> set (pair_parts ''Rom,Bonn'' '','') \<Longrightarrow> underscored blank_rx p = p" for p by (auto simp: parts)
  have "build_pair_sentences blank_rx ''Rom,Bonn'' '','' ''='' =
      concat (map (\<lambda>i. concat (map (pair_text ''='' i) (filter (\<lambda>j. j \<noteq> i) (pair_parts ''Rom,Bonn'' '',''))))
        (pair_parts ''Rom,Bonn'' '',''))"
    by (rule pairs_of_words) (rule u)
  then show ?thesis by (simp add: parts pair_text_def)
qed

text \<open>A part of more than one word that is not the first of the list is paired with itself: the inner
  loop has already changed its own copy of the part when it meets the part again.\<close>

theorem phrase_paired_with_itself:
  assumes parts: "pair_parts str divideby = a # xs @ p # ys" and a: "a \<noteq> p"
    and changed: "underscored r p \<noteq> p" and once: "underscored r (underscored r p) = underscored r p"
  shows "sublist (pair_text joinby (underscored r p) (underscored r p)) (build_pair_sentences r str divideby joinby)"
proof -
  let ?t = "pair_text joinby (underscored r p) (underscored r p)"
  have "sublist ?t (pair_with r joinby (underscored r p) (xs @ p # ys))"
    using pair_with_meets [OF once changed] .
  then have "sublist ?t (pair_with r joinby p (a # xs @ p # ys))"
    using a by (simp add: pair_with_Cons sublist_append del: pair_with.simps)
  then show ?thesis
    unfolding build_pair_sentences_def Let_def parts by (intro sublist_concat [of p]) simp_all
qed

theorem phrase_paired_with_itself_witness:
  "sublist ''_New_York_ = _New_York_ STOP '' (build_pair_sentences blank_rx ''Rom,New York'' '','' ''='')"
proof -
  have "pair_parts ''Rom,New York'' '','' = ''Rom'' # [] @ ''New York'' # []"
    "underscored blank_rx ''New York'' = ''New_York''" "underscored blank_rx ''New_York'' = ''New_York''"
    by code_simp+
  with phrase_paired_with_itself [of "''Rom,New York''" "'',''" "''Rom''" "[]" "''New York''" "[]" blank_rx "''=''"]
  show ?thesis by (simp add: pair_text_def)
qed

text \<open>C13. Looking for opposites fails, with an index behind the end of a list, exactly for the texts
  in which the word is found between blanks although the trimmed and joined text does not contain it
  between underscores, and which have no mark of their own. \<^verbatim>\<open>simplify_input\<close> has put blanks around
  the text before, so that a text that begins or ends with the word is one of them.\<close>

theorem opposites_fail:
  "find_opposites r s = Inl Bad_index \<longleftrightarrow>
    regex_find r s '' opposite ''
    \<and> \<not> sublist ''_opposite_'' (regex_replace r (trim s) (pattern ''%s+'') ''_'')
    \<and> CHR ''@'' \<notin> set (regex_replace r (trim s) (pattern ''%s+'') ''_'')"
proof -
  let ?u = "regex_replace r (trim s) (pattern ''%s+'') ''_''"
  have "2 \<le> length (opposite_parts r s) \<longleftrightarrow> CHR ''@'' \<in> set (str_replace ?u ''_opposite_'' ''@'')"
    unfolding opposite_parts_def length_split_compress by (simp add: list_ex_iff is_any_of_def)
  also have "\<dots> \<longleftrightarrow> CHR ''@'' \<in> set ?u \<or> sublist ''_opposite_'' ?u"
    unfolding str_replace_def by (rule replace_all_mark) simp_all
  finally have "2 \<le> length (opposite_parts r s) \<longleftrightarrow> CHR ''@'' \<in> set ?u \<or> sublist ''_opposite_'' ?u" .
  then show ?thesis
    by (cases "opposite_parts r s" rule: remdups_adj.cases) (auto simp: find_opposites_def)
qed

end
