(* ===== verification/Disk.thy ===== *)
theory Disk
  imports FilterFacts
begin

text \<open>
  The part of \<^verbatim>\<open>hal2012-database2012.hpp\<close> that the index database uses: the settings of the
  database and the files below its cache directory.

  The disk is a table of directories, and a directory is a table of files. A file holds the list of
  strings that \<^verbatim>\<open>boost::archive\<close> wrote to it; that reading gives back what was written is the
  documented behaviour of that library. A path is a directory and a file name; with the empty file
  name it is the directory itself. Failing to open an existing file is not modelled.
\<close>

section \<open>The database object\<close>

record database = freehal_base +
  db_tagger :: bool
  files :: "nat hmap"

definition database_new :: database where
  "database_new = \<lparr>verbose = True, buffered = False, lang = [], path = [], db_tagger = False, files = []\<rparr>"

definition set_tagger :: "bool \<Rightarrow> database \<Rightarrow> database" where
  "set_tagger t b = b\<lparr>db_tagger := t\<rparr>"

definition db_configured :: "database \<Rightarrow> bool" where
  "db_configured b = (if \<not> is_configured b then False else if \<not> db_tagger b then False else True)"

section \<open>Files\<close>

type_synonym disk = "string list hmap hmap"

type_synonym disk_path = "string \<times> string"

definition disk_look :: "disk \<Rightarrow> disk_path \<Rightarrow> string list option" where
  "disk_look dk p = (case um_find dk (fst p) of None \<Rightarrow> None | Some fs \<Rightarrow> um_find fs (snd p))"

definition disk_dir :: "disk \<Rightarrow> string \<Rightarrow> string list hmap" where
  "disk_dir dk dir = (case um_find dk dir of None \<Rightarrow> [] | Some fs \<Rightarrow> fs)"

definition disk_put :: "disk_path \<Rightarrow> string list \<Rightarrow> disk \<Rightarrow> disk" where
  "disk_put p c dk = um_set (fst p) (um_set (snd p) c (disk_dir dk (fst p))) dk"

definition disk_find_file :: "database \<Rightarrow> string \<Rightarrow> char \<Rightarrow> char \<Rightarrow> char \<Rightarrow> char \<Rightarrow> string \<Rightarrow> disk_path" where
  "disk_find_file b type1 a b1 c d filename =
    (path_append (path_append (path_append (get_cache_directory b) ''database'') type1)
       [a, CHR ''/'', b1, CHR ''/'', c, CHR ''/'', d],
     filename)"

text \<open>The list is a variable of the caller and keeps its value when nothing is read.\<close>

definition disk_read_file :: "database \<Rightarrow> disk_path \<Rightarrow> string list \<Rightarrow> disk \<Rightarrow> nat \<times> string list" where
  "disk_read_file b p list1 dk =
    (if \<not> db_configured b then (1, list1)
     else if snd p \<noteq> [] then
       (case disk_look dk p of None \<Rightarrow> (1, list1) | Some c \<Rightarrow> (0, c))
     else (1, list1))"

definition disk_write_file :: "database \<Rightarrow> disk_path \<Rightarrow> string list \<Rightarrow> disk \<Rightarrow> nat \<times> disk" where
  "disk_write_file b p list1 dk =
    (if \<not> db_configured b then (1, dk)
     else if snd p \<noteq> [] then (0, disk_put p list1 dk)
     else (1, dk))"

section \<open>Lemmas\<close>

lemma disk_look_dir: "disk_look dk (dir, f) = um_find (disk_dir dk dir) f"
  by (simp add: disk_look_def disk_dir_def split: option.split)

lemma disk_dir_put: "disk_dir (disk_put p c dk) dir =
    (if fst p = dir then um_set (snd p) c (disk_dir dk dir) else disk_dir dk dir)"
  by (simp add: disk_dir_def disk_put_def um_find_um_set)

lemma disk_look_put: "disk_look (disk_put p c dk) q = (if p = q then Some c else disk_look dk q)"
  by (cases p; cases q) (simp add: disk_look_dir disk_dir_put um_find_um_set)

interpretation dk: overwriting disk_look disk_put
  by unfold_locales (rule disk_look_put)

lemma find_file_inject:
  "disk_find_file b t a1 a2 a3 a4 f = disk_find_file b t b1 b2 b3 b4 g \<longleftrightarrow>
    [a1, a2, a3, a4] = [b1, b2, b3, b4] \<and> f = g"
  by (simp add: disk_find_file_def path_append_def)

lemma find_file_type:
  "fst (disk_find_file b ''index'' a1 a2 a3 a4 f) \<noteq> fst (disk_find_file b ''synonyms'' b1 b2 b3 b4 g)"
  by (simp add: disk_find_file_def path_append_def)

end
