(* ===== verification/DiskDb.thy ===== *)
theory DiskDb
  imports Disk
begin

text \<open>
  \<^verbatim>\<open>hal2012-diskdb2012.cpp\<close>: the index database. Facts are indexed by the first four letters of
  their words, synonyms are kept in sets that several words share, and both are written to files
  below the cache directory and read back by key.

  A fact is inserted through a pointer that its caller has just made; the pointer is the position of
  the fact in \<open>facts\<close>, and the index sets hold positions. The synonym sets are shared by pointers
  as well, and changing a set is seen by every word that shares it: \<open>syn_sets\<close> is the store of the
  sets, \<open>synonyms\<close> maps a word to the place of its set.

  The lemmas show that the index on the disk finds exactly the facts that the index in memory holds
  for a key, and what happens to synonym sets when they are merged.
\<close>

section \<open>Keys\<close>

definition key_of_text :: "string \<Rightarrow> string" where
  "key_of_text w = (let k = lc (take 4 w) in k @ replicate (4 - length k) (CHR ''_''))"

definition key_of_chars :: "char \<Rightarrow> char \<Rightarrow> char \<Rightarrow> char \<Rightarrow> string" where
  "key_of_chars a b c d = lc [a, b, c, d]"

definition key_char :: "string \<Rightarrow> nat \<Rightarrow> char" where
  "key_char k i = (if i < length k then k ! i else CHR 0x00)"

section \<open>The database in memory\<close>

record diskdb =
  ddb_filename :: string
  complete :: bool
  do_add_synonyms :: bool
  facts :: "xml_fact list"
  index_word :: "nat hmap"
  index_3chars :: "nat list hmap"
  synonyms :: "nat hmap"
  syn_sets :: "string list list"

definition diskdb_new :: diskdb where
  "diskdb_new =
    \<lparr>ddb_filename = [], complete = False, do_add_synonyms = False, facts = [], index_word = [],
     index_3chars = [], synonyms = [], syn_sets = []\<rparr>"

definition set_add_synonyms :: "bool \<Rightarrow> diskdb \<Rightarrow> diskdb" where
  "set_add_synonyms v d = d\<lparr>do_add_synonyms := v\<rparr>"

definition set_filename :: "string \<Rightarrow> diskdb \<Rightarrow> diskdb" where
  "set_filename f d = d\<lparr>ddb_filename := f\<rparr>"

definition set_complete :: "bool \<Rightarrow> diskdb \<Rightarrow> diskdb" where
  "set_complete v d = d\<lparr>complete := v\<rparr>"

text \<open>The insertion of the four cases ends with adding both words to the set at \<open>a\<close>.\<close>

definition join_synonyms :: "string \<Rightarrow> string \<Rightarrow> diskdb \<Rightarrow> nat \<times> diskdb" where
  "join_synonyms text1 text2 d =
    (case um_find (synonyms d) text1 of
       Some a \<Rightarrow>
         (case um_find (synonyms d) text2 of
            Some b \<Rightarrow>
              if a \<noteq> b then
                (a, d\<lparr>syn_sets := (syn_sets d)[a := fold set_add (syn_sets d ! b) (syn_sets d ! a)],
                      synonyms := um_insert text2 a (synonyms d)\<rparr>)
              else (a, d)
          | None \<Rightarrow> (a, d\<lparr>synonyms := um_insert text2 a (synonyms d)\<rparr>))
     | None \<Rightarrow>
         (case um_find (synonyms d) text2 of
            Some b \<Rightarrow> (b, d\<lparr>synonyms := um_insert text1 b (synonyms d)\<rparr>)
          | None \<Rightarrow>
              (let a = length (syn_sets d) in
               (a, d\<lparr>syn_sets := syn_sets d @ [[]],
                     synonyms := um_insert text2 a (um_insert text1 a (synonyms d))\<rparr>))))"

definition insert_synonym :: "xml_fact \<Rightarrow> diskdb \<Rightarrow> nat \<times> diskdb" where
  "insert_synonym x d =
    (if \<not> do_add_synonyms d then (1, d)
     else if is_synonym (fact_obj x) then
       (let text1 = print_text (part ''subject'' (fact_obj x));
            text2 = print_text (part ''object'' (fact_obj x));
            (a, d1) = join_synonyms text1 text2 d
        in (0, d1\<lparr>syn_sets := (syn_sets d1)[a := set_add text2 (set_add text1 (syn_sets d1 ! a))]\<rparr>))
     else (0, d))"

definition index_fact :: "string \<Rightarrow> nat \<Rightarrow> diskdb \<Rightarrow> diskdb" where
  "index_fact key i d =
    (case um_find (index_3chars d) key of
       None \<Rightarrow> d\<lparr>index_3chars := um_insert key [i] (index_3chars d)\<rparr>
     | Some s \<Rightarrow> d\<lparr>index_3chars := um_set key (set_add i s) (index_3chars d)\<rparr>)"

definition index_step :: "nat \<Rightarrow> word \<Rightarrow> word \<times> diskdb \<Rightarrow> word \<times> diskdb" where
  "index_step i w0 st =
    (let (previous, d) = st in
     if word_size w0 = 0 then (previous, d)
     else
       (let w = lc_word w0;
            d1 = d\<lparr>index_word := mm_insert (wtext w) i (index_word d)\<rparr>
        in (w, if is_index_word w \<and> is_index_pair previous w then index_fact (key_of_text (wtext w)) i d1
               else d1)))"

definition insert_fact :: "xml_fact \<Rightarrow> diskdb \<Rightarrow> diskdb" where
  "insert_fact x d =
    (if is_synonym (fact_obj x) then snd (insert_synonym x d)
     else
       (let (ws, o1) = get_words (fact_obj x);
            i = length (facts d)
        in snd (fold (index_step i) ws (new_word [], d\<lparr>facts := facts d @ [x\<lparr>fact_obj := o1\<rparr>]\<rparr>))))"

text \<open>\<open>visit\<close> is the order in which the set of facts is visited.\<close>

definition copy_facts_to :: "(xml_fact list \<Rightarrow> xml_fact list) \<Rightarrow> diskdb \<Rightarrow> xml_fact list \<Rightarrow> xml_fact list" where
  "copy_facts_to visit d list1 = list1 @ visit (facts d)"

section \<open>Files\<close>

definition key_path :: "database \<Rightarrow> string \<Rightarrow> string \<Rightarrow> string \<Rightarrow> disk_path" where
  "key_path b type1 key f =
    disk_find_file b type1 (key_char key 0) (key_char key 1) (key_char key 2) (key_char key 3) f"

definition path_filename :: "string \<Rightarrow> string" where
  "path_filename p = last (split (\<lambda>c. c = CHR ''/'') p)"

definition get_path_of_synonyms :: "database \<Rightarrow> string \<Rightarrow> disk_path" where
  "get_path_of_synonyms b w = key_path b ''synonyms'' (key_of_text w) w"

definition get_synonyms_file :: "database \<Rightarrow> string \<Rightarrow> disk \<Rightarrow> string list" where
  "get_synonyms_file b w dk =
    (let p = get_path_of_synonyms b w in
     if snd p \<noteq> [] \<and> disk_look dk p \<noteq> None then snd (disk_read_file b p [] dk) else [])"

definition get_synonyms :: "database \<Rightarrow> word \<Rightarrow> disk \<Rightarrow> word list" where
  "get_synonyms b w dk =
    map (\<lambda>s. Word s (wtags w)) (filter (\<lambda>s. s \<noteq> wtext w) (get_synonyms_file b (wtext w) dk))"

text \<open>A regular file below the index directory.\<close>

definition from_disk_file :: "database \<Rightarrow> disk_path \<Rightarrow> disk \<Rightarrow> diskdb \<Rightarrow> read_error + diskdb" where
  "from_disk_file b p dk d =
    (let xmllist = snd (disk_read_file b p [] dk);
         prestr = ordertags (concat xmllist) []
     in case read_facts insert_fact [] prestr d of
          Inl err \<Rightarrow> Inl err
        | Inr (k, d') \<Rightarrow> Inr d')"

fun from_disk_files :: "database \<Rightarrow> string \<Rightarrow> string list \<Rightarrow> disk \<Rightarrow> diskdb \<Rightarrow> read_error + diskdb" where
  "from_disk_files b dir [] dk d = Inr d"
| "from_disk_files b dir (f # fs) dk d =
    (case from_disk_file b (dir, f) dk d of
       Inl err \<Rightarrow> Inl err
     | Inr d' \<Rightarrow> from_disk_files b dir fs dk d')"

text \<open>\<open>ord\<close> is the order of the files of a directory.\<close>

definition from_disk :: "hash_order \<Rightarrow> database \<Rightarrow> string \<Rightarrow> disk \<Rightarrow> diskdb \<Rightarrow> read_error + diskdb" where
  "from_disk ord b key dk d =
    (let dir = fst (key_path b ''index'' key [])
     in from_disk_files b dir (ord (map fst (disk_dir dk dir))) dk d)"

definition get_facts :: "hash_order \<Rightarrow> database \<Rightarrow> word \<Rightarrow> disk \<Rightarrow> diskdb \<Rightarrow> read_error + diskdb" where
  "get_facts ord b w dk d = from_disk ord b (key_of_text (wtext w)) dk d"

definition store_key :: "hash_order \<Rightarrow> database \<Rightarrow> diskdb \<Rightarrow> string \<times> nat list \<Rightarrow> disk \<Rightarrow> disk" where
  "store_key ord b d e dk =
    (let p = key_path b ''index'' (key_of_text (fst e)) (path_filename (ddb_filename d));
         xmls = map (\<lambda>i. obj_print_xml (fact_obj (facts d ! i))) (snd e)
     in if complete d then snd (disk_write_file b p (ord xmls) dk)
        else snd (disk_write_file b p (ord (snd (disk_read_file b p [] dk) @ xmls)) dk))"

definition store_synonym :: "hash_order \<Rightarrow> database \<Rightarrow> string \<times> nat \<Rightarrow> disk \<times> diskdb \<Rightarrow> disk \<times> diskdb" where
  "store_synonym ord b e st =
    (let (dk, d) = st;
         p = get_path_of_synonyms b (fst e);
         s = fold set_add (snd (disk_read_file b p [] dk)) (syn_sets d ! snd e)
     in (snd (disk_write_file b p (ord s) dk), d\<lparr>syn_sets := (syn_sets d)[snd e := s]\<rparr>))"

text \<open>Only the empty key, \<^verbatim>\<open>ALL_KEYS\<close>, stores anything.\<close>

definition to_disk :: "hash_order \<Rightarrow> database \<Rightarrow> string \<Rightarrow> disk \<times> diskdb \<Rightarrow> disk \<times> diskdb" where
  "to_disk ord b key st =
    (if key = [] then
       (let (dk, d) = st;
            dk1 = fold (store_key ord b d) (iterate ord (index_3chars d)) dk
        in fold (store_synonym ord b) (iterate ord (synonyms d)) (dk1, d))
     else st)"

section \<open>Caches do not show\<close>

lemma bare_prepare [simp]: "bare (prepare_words x) = bare x"
proof (induction x)
  case (Xml m name t content cw ct ca)
  then show ?case by (simp add: Let_def comp_def cong: map_cong split: xml_mode.split)
qed

lemma print_prepare [simp]: "print_xml_at lv sec (prepare_words x) = print_xml_at lv sec x"
proof (induction x arbitrary: lv sec)
  case (Xml m name t content cw ct ca)
  then show ?case by (simp add: Let_def comp_def cong: map_cong split: xml_mode.split)
qed

lemma canonical_prepare [simp]: "canonical (prepare_words x) = canonical x"
proof (induction x)
  case (Xml m name t content cw ct ca)
  then have "list_all canonical (map prepare_words content) = list_all canonical content"
    by (simp add: list_all_iff)
  then show ?case
    by (auto simp: Let_def simp del: list.pred_map split: xml_mode.split list.split)
qed

lemma prepare_prepared [simp]: "prepare_words (prepare_words x) = prepare_words x"
proof -
  have "cached_words y \<Longrightarrow> prepare_words y = y" for y by (cases y) simp
  then show ?thesis by simp
qed

lemma get_words_prepare [simp]: "fst (get_words (prepare_words x)) = fst (get_words x)"
  by (simp add: get_words_def Let_def)

section \<open>Keys\<close>

lemma length_key [simp]: "length (key_of_text w) = 4"
  by (simp add: key_of_text_def Let_def lc_def)

lemma lc_replicate: "lc (replicate n (CHR ''_'')) = replicate n (CHR ''_'')"
  by (simp add: lc_def tolower_def is_upper_def code_def)

lemma key_idem [simp]: "key_of_text (key_of_text w) = key_of_text w"
proof -
  have "take 4 (key_of_text w) = key_of_text w" by simp
  moreover have "lc (key_of_text w) = key_of_text w"
    using lc_idem [of "take 4 w"] lc_replicate by (simp add: key_of_text_def Let_def lc_def [of "_ @ _"])
  ultimately show ?thesis unfolding key_of_text_def [of "key_of_text w"] by simp
qed

lemma key_path_dir:
  assumes "length k = 4" "length k' = 4"
  shows "fst (key_path b t k f) = fst (key_path b t k' g) \<longleftrightarrow> k = k'"
proof -
  have l: "l = [l ! 0, l ! 1, l ! 2, l ! 3]" if "length l = 4" for l :: string
    using that by (intro nth_equalityI) (auto simp: less_Suc_eq numeral_eq_Suc)
  have "fst (key_path b t k f) = fst (key_path b t k' g)
      \<longleftrightarrow> [k ! 0, k ! 1, k ! 2, k ! 3] = [k' ! 0, k' ! 1, k' ! 2, k' ! 3]"
    using assms by (simp add: key_path_def disk_find_file_def key_char_def path_append_def)
  then show ?thesis using l [OF assms(1)] l [OF assms(2)] by argo
qed

lemma key_path_file [simp]: "snd (key_path b t k f) = f"
  by (simp add: key_path_def disk_find_file_def)

lemma key_path_type: "fst (key_path b ''index'' k f) \<noteq> fst (key_path b ''synonyms'' k' g)"
  by (simp add: key_path_def find_file_type)

section \<open>The index in memory\<close>

text \<open>The keys under which a fact is to be found.\<close>

fun index_keys :: "word \<Rightarrow> word list \<Rightarrow> string list" where
  "index_keys previous [] = []"
| "index_keys previous (w # ws) =
    (if word_size w = 0 then index_keys previous ws
     else (if is_index_word (lc_word w) \<and> is_index_pair previous (lc_word w) then [key_of_text (lc (wtext w))] else [])
          @ index_keys (lc_word w) ws)"

definition fact_keys :: "xml_obj \<Rightarrow> string list" where
  "fact_keys x = index_keys (new_word []) (fst (get_words x))"

definition found :: "diskdb \<Rightarrow> string \<Rightarrow> nat set" where
  "found d k = (case um_find (index_3chars d) k of None \<Rightarrow> {} | Some s \<Rightarrow> set s)"

lemma keys_um_insert: "distinct (map fst m) \<Longrightarrow> distinct (map fst (um_insert k v m))"
  by (auto simp: um_insert_def um_find_def map_of_eq_None_iff split: option.split)

lemma keys_um_set_distinct: "distinct (map fst m) \<Longrightarrow> distinct (map fst (um_set k v m))"
proof -
  assume d: "distinct (map fst m)"
  have "map fst (map (\<lambda>e. if fst e = k then (k, v) else e) m) = map fst m" by auto
  then show ?thesis using d by (auto simp: um_set_def um_find_def map_of_eq_None_iff simp del: map_map)
qed

lemma index_fact_sel [simp]:
  "facts (index_fact k i d) = facts d" "synonyms (index_fact k i d) = synonyms d"
  "syn_sets (index_fact k i d) = syn_sets d" "complete (index_fact k i d) = complete d"
  "ddb_filename (index_fact k i d) = ddb_filename d" "do_add_synonyms (index_fact k i d) = do_add_synonyms d"
  by (simp_all add: index_fact_def split: option.split)

lemma found_index_fact: "found (index_fact k i d) k' = (if k = k' then insert i (found d k') else found d k')"
  by (auto simp: found_def index_fact_def um_find_insert um_find_um_set split: option.split)

definition index_wf :: "diskdb \<Rightarrow> bool" where
  "index_wf d \<longleftrightarrow> distinct (map fst (index_3chars d)) \<and> (\<forall>k \<in> fst ` set (index_3chars d). key_of_text k = k \<and> length k = 4)"

lemma index_wf_fact: "index_wf d \<Longrightarrow> key_of_text k = k \<Longrightarrow> length k = 4 \<Longrightarrow> index_wf (index_fact k i d)"
  using set_um_insert [of k "[i]" "index_3chars d"] keys_um_set [of k _ "index_3chars d"]
  by (fastforce simp: index_wf_def index_fact_def keys_um_insert keys_um_set_distinct split: option.split)

lemma index_step_fold:
  "fold (index_step i) ws (previous, d) = (b', d') \<Longrightarrow>
    facts d' = facts d \<and> synonyms d' = synonyms d \<and> syn_sets d' = syn_sets d \<and> complete d' = complete d
    \<and> ddb_filename d' = ddb_filename d \<and> do_add_synonyms d' = do_add_synonyms d
    \<and> (\<forall>k. found d' k = (if k \<in> set (index_keys previous ws) then insert i (found d k) else found d k))
    \<and> (index_wf d \<longrightarrow> index_wf d')"
proof (induction ws arbitrary: previous d)
  case (Cons w ws)
  show ?case
  proof (cases "word_size w = 0")
    case True
    then show ?thesis using Cons by (simp add: index_step_def)
  next
    case False
    let ?d1 = "d\<lparr>index_word := mm_insert (wtext (lc_word w)) i (index_word d)\<rparr>"
    let ?key = "key_of_text (wtext (lc_word w))"
    let ?ind = "is_index_word (lc_word w) \<and> is_index_pair previous (lc_word w)"
    define d2 where "d2 = (if ?ind then index_fact ?key i ?d1 else ?d1)"
    have w: "wtext (lc_word w) = lc (wtext w)" by (simp add: lc_word_def set_word_def)
    have f: "found ?d1 = found d" "index_wf ?d1 = index_wf d" by (auto simp: found_def index_wf_def)
    have sel: "facts d2 = facts d" "synonyms d2 = synonyms d" "syn_sets d2 = syn_sets d"
      "complete d2 = complete d" "ddb_filename d2 = ddb_filename d" "do_add_synonyms d2 = do_add_synonyms d"
      by (simp_all add: d2_def)
    have wf: "index_wf d \<Longrightarrow> index_wf d2" using f(2) by (simp add: d2_def index_wf_fact)
    have fd: "found d2 k = (if ?ind \<and> k = ?key then insert i (found d k) else found d k)" for k
      using f(1) by (auto simp: d2_def found_index_fact)
    have "index_step i w (previous, d) = (lc_word w, d2)"
      using False by (simp add: index_step_def Let_def d2_def)
    then have "fold (index_step i) ws (lc_word w, d2) = (b', d')"
      using Cons.prems by (simp only: fold_simps)
    from Cons.IH [OF this] have
      "found d' k = (if k \<in> set (index_keys (lc_word w) ws) then insert i (found d2 k) else found d2 k)"
      "facts d' = facts d" "synonyms d' = synonyms d" "syn_sets d' = syn_sets d" "complete d' = complete d"
      "ddb_filename d' = ddb_filename d" "do_add_synonyms d' = do_add_synonyms d" "index_wf d2 \<longrightarrow> index_wf d'" for k
      by (simp_all add: sel)
    then show ?thesis using False w fd wf by simp
  qed
qed auto

lemma join_synonyms_sel:
  "join_synonyms t1 t2 d = (a, d') \<Longrightarrow>
    facts d' = facts d \<and> index_3chars d' = index_3chars d \<and> complete d' = complete d
    \<and> ddb_filename d' = ddb_filename d \<and> do_add_synonyms d' = do_add_synonyms d"
  by (auto simp: join_synonyms_def Let_def split: option.splits if_splits)

lemma insert_synonym_sel [simp]:
  "facts (snd (insert_synonym x d)) = facts d" "index_3chars (snd (insert_synonym x d)) = index_3chars d"
  "complete (snd (insert_synonym x d)) = complete d" "ddb_filename (snd (insert_synonym x d)) = ddb_filename d"
  "do_add_synonyms (snd (insert_synonym x d)) = do_add_synonyms d"
proof -
  let ?t1 = "print_text (part ''subject'' (fact_obj x))"
  let ?t2 = "print_text (part ''object'' (fact_obj x))"
  obtain a d1 where j: "join_synonyms ?t1 ?t2 d = (a, d1)" by (cases "join_synonyms ?t1 ?t2 d")
  have "snd (insert_synonym x d) = d \<or>
      snd (insert_synonym x d) = d1\<lparr>syn_sets := (syn_sets d1)[a := set_add ?t2 (set_add ?t1 (syn_sets d1 ! a))]\<rparr>"
    by (simp add: insert_synonym_def j)
  then show "facts (snd (insert_synonym x d)) = facts d"
    "index_3chars (snd (insert_synonym x d)) = index_3chars d"
    "complete (snd (insert_synonym x d)) = complete d" "ddb_filename (snd (insert_synonym x d)) = ddb_filename d"
    "do_add_synonyms (snd (insert_synonym x d)) = do_add_synonyms d"
    using join_synonyms_sel [OF j] by auto
qed

text \<open>What the insertion of a fact that is no synonym does.\<close>

lemma insert_fact_proper:
  assumes "\<not> is_synonym (fact_obj x)"
  defines "f \<equiv> x\<lparr>fact_obj := prepare_words (fact_obj x)\<rparr>"
  shows "facts (insert_fact x d) = facts d @ [f]" "complete (insert_fact x d) = complete d"
    "ddb_filename (insert_fact x d) = ddb_filename d"
    "synonyms (insert_fact x d) = synonyms d" "syn_sets (insert_fact x d) = syn_sets d"
    "do_add_synonyms (insert_fact x d) = do_add_synonyms d"
    "found (insert_fact x d) k
      = (if k \<in> set (fact_keys (fact_obj f)) then insert (length (facts d)) (found d k) else found d k)"
    "index_wf d \<Longrightarrow> index_wf (insert_fact x d)"
proof -
  let ?ws = "fst (get_words (fact_obj x))"
  let ?d = "d\<lparr>facts := facts d @ [f]\<rparr>"
  obtain b' d' where r: "fold (index_step (length (facts d))) ?ws (new_word [], ?d) = (b', d')"
    by (cases "fold (index_step (length (facts d))) ?ws (new_word [], ?d)")
  have "snd (get_words (fact_obj x)) = prepare_words (fact_obj x)" by (simp add: get_words_def Let_def)
  then have i: "insert_fact x d = d'"
    using r assms by (simp add: insert_fact_def f_def case_prod_beta)
  have keys: "fact_keys (fact_obj f) = index_keys (new_word []) ?ws" by (simp add: fact_keys_def f_def)
  have d: "found ?d = found d" "index_wf ?d = index_wf d" by (auto simp: found_def index_wf_def)
  show "facts (insert_fact x d) = facts d @ [f]" "complete (insert_fact x d) = complete d"
    "ddb_filename (insert_fact x d) = ddb_filename d"
    "synonyms (insert_fact x d) = synonyms d" "syn_sets (insert_fact x d) = syn_sets d"
    "do_add_synonyms (insert_fact x d) = do_add_synonyms d"
    "found (insert_fact x d) k
      = (if k \<in> set (fact_keys (fact_obj f)) then insert (length (facts d)) (found d k) else found d k)"
    "index_wf d \<Longrightarrow> index_wf (insert_fact x d)"
    using index_step_fold [OF r] by (simp_all add: i keys d)
qed

lemma insert_fact_synonym: "is_synonym (fact_obj x) \<Longrightarrow> insert_fact x d = snd (insert_synonym x d)"
  by (simp add: insert_fact_def)

definition index_ok :: "diskdb \<Rightarrow> bool" where
  "index_ok d \<longleftrightarrow> index_wf d \<and>
    (\<forall>k i. i \<in> found d k \<longleftrightarrow> i < length (facts d) \<and> k \<in> set (fact_keys (fact_obj (facts d ! i))))"

lemma index_ok_insert [inv_intros]:
  assumes "index_ok d" shows "index_ok (insert_fact x d)"
proof (cases "is_synonym (fact_obj x)")
  case True
  then show ?thesis using assms by (simp add: insert_fact_synonym index_ok_def found_def index_wf_def)
next
  case False
  note p = insert_fact_proper [OF False]
  show ?thesis
    unfolding index_ok_def p(1) p(7)
    using assms p(8) by (auto simp: index_ok_def nth_append less_Suc_eq)
qed

lemma index_ok_start [simp]: "facts d = [] \<Longrightarrow> index_3chars d = [] \<Longrightarrow> index_ok d"
  by (simp add: index_ok_def index_wf_def found_def)

lemma facts_inserted:
  "map fact_obj (facts (fold insert_fact xs d))
    = map fact_obj (facts d) @ map (\<lambda>x. prepare_words (fact_obj x)) (filter (\<lambda>x. \<not> is_synonym (fact_obj x)) xs)"
proof (induction xs arbitrary: d)
  case (Cons x xs)
  then show ?case
    by (cases "is_synonym (fact_obj x)") (simp_all add: insert_fact_synonym insert_fact_proper)
qed simp

lemma settings_inserted:
  "complete (fold insert_fact xs d) = complete d \<and> ddb_filename (fold insert_fact xs d) = ddb_filename d"
proof (induction xs arbitrary: d)
  case (Cons x xs)
  then show ?case
    by (cases "is_synonym (fact_obj x)") (simp_all add: insert_fact_synonym insert_fact_proper)
qed simp

section \<open>The index on the disk\<close>

lemma disk_dir_fold:
  assumes "\<And>e. e \<in> set es \<Longrightarrow> fst (P e) = dir \<Longrightarrow> snd (P e) = f \<and> C e = c"
    and "disk_dir dk dir \<in> {[], [(f, c)]}"
  shows "disk_dir (fold (\<lambda>e. disk_put (P e) (C e)) es dk) dir
    = (if \<exists>e \<in> set es. fst (P e) = dir then [(f, c)] else disk_dir dk dir)"
  using assms
proof (induction es arbitrary: dk)
  case (Cons e es)
  show ?case
  proof (cases "fst (P e) = dir")
    case True
    then have "snd (P e) = f" "C e = c" using Cons.prems(1) by simp_all
    then have "disk_dir (disk_put (P e) (C e) dk) dir = [(f, c)]"
      using Cons.prems(2) True \<open>snd (P e) = f\<close> \<open>C e = c\<close> by (auto simp: disk_dir_put um_set_def um_find_def)
    then show ?thesis using Cons.IH [of "disk_put (P e) (C e) dk"] Cons.prems(1) True by simp
  next
    case False
    then show ?thesis
      using Cons.IH [of "disk_put (P e) (C e) dk"] Cons.prems by (simp add: disk_dir_put)
  qed
qed simp

definition index_dir :: "database \<Rightarrow> string \<Rightarrow> string" where
  "index_dir b key = fst (key_path b ''index'' key [])"

lemma index_dir_path: "fst (key_path b ''index'' key f) = index_dir b key"
  by (simp add: index_dir_def key_path_def disk_find_file_def)

lemma store_synonym_dir: "disk_dir (fst (store_synonym ord b e st)) (index_dir b key) = disk_dir (fst st) (index_dir b key)"
  using key_path_type [of b key "[]", THEN not_sym]
  by (auto simp: store_synonym_def get_path_of_synonyms_def index_dir_def disk_write_file_def disk_dir_put Let_def
      split: prod.split)

lemma store_synonyms_dir:
  "disk_dir (fst (fold (store_synonym ord b) es st)) (index_dir b key) = disk_dir (fst st) (index_dir b key)"
  by (induction es arbitrary: st) (simp_all add: store_synonym_dir)

text \<open>The file of a key after everything was stored on an empty disk.\<close>

definition key_xmls :: "diskdb \<Rightarrow> nat list \<Rightarrow> string list" where
  "key_xmls d s = map (\<lambda>i. obj_print_xml (fact_obj (facts d ! i))) s"

lemma stored_dir:
  assumes conf: "db_configured b" and ord: "good_order ord" and f: "path_filename (ddb_filename d) \<noteq> []"
    and comp: "complete d" and wf: "index_wf d" and key: "key_of_text key = key"
  shows "disk_dir (fst (to_disk ord b [] ([], d))) (index_dir b key)
    = (case um_find (index_3chars d) key of
         None \<Rightarrow> []
       | Some s \<Rightarrow> [(path_filename (ddb_filename d), ord (key_xmls d s))])"
proof -
  let ?f = "path_filename (ddb_filename d)"
  let ?P = "\<lambda>e :: string \<times> nat list. key_path b ''index'' (key_of_text (fst e)) ?f"
  let ?C = "\<lambda>e. ord (key_xmls d (snd e))"
  let ?es = "iterate ord (index_3chars d)"
  have es: "set ?es = set (index_3chars d)" using set_iterate [OF ord] .
  have store: "store_key ord b d = (\<lambda>e. disk_put (?P e) (?C e))"
    using conf f comp by (intro ext) (simp add: store_key_def disk_write_file_def key_xmls_def Let_def)
  have dir: "fst (?P e) = index_dir b key \<longleftrightarrow> fst e = key" if "e \<in> set (index_3chars d)" for e
  proof -
    have k: "key_of_text (fst e) = fst e" using wf that by (auto simp: index_wf_def)
    have l: "length key = 4" "length (fst e) = 4" using key k length_key by metis+
    show ?thesis unfolding k index_dir_def by (rule key_path_dir [OF l(2,1)])
  qed
  have "disk_dir (fst (to_disk ord b [] ([], d))) (index_dir b key)
      = disk_dir (fold (\<lambda>e. disk_put (?P e) (?C e)) ?es []) (index_dir b key)"
    by (simp add: to_disk_def store store_synonyms_dir)
  also have "\<dots> = (case um_find (index_3chars d) key of None \<Rightarrow> [] | Some s \<Rightarrow> [(?f, ord (key_xmls d s))])"
  proof (cases "um_find (index_3chars d) key")
    case None
    then have "\<And>e. e \<in> set ?es \<Longrightarrow> fst (?P e) \<noteq> index_dir b key"
      using dir es by (auto simp: um_find_def map_of_eq_None_iff)
    then have "disk_dir (fold (\<lambda>e. disk_put (?P e) (?C e)) ?es []) (index_dir b key) = []"
      using disk_dir_fold [of ?es ?P "index_dir b key" "[]" ?C "[]" "[]"] by (auto simp: disk_dir_def)
    then show ?thesis using None by simp
  next
    case (Some s)
    have s: "(key, s) \<in> set ?es" using um_find_in_set [OF Some] es by simp
    have "\<And>e. e \<in> set ?es \<Longrightarrow> fst (?P e) = index_dir b key \<Longrightarrow> snd (?P e) = ?f \<and> ?C e = ord (key_xmls d s)"
    proof -
      fix e assume "e \<in> set ?es" "fst (?P e) = index_dir b key"
      then have "(key, snd e) \<in> set (index_3chars d)" using dir es by auto
      then have "snd e = s"
        using Some wf map_of_is_SomeI by (fastforce simp: index_wf_def um_find_def)
      then show "snd (?P e) = ?f \<and> ?C e = ord (key_xmls d s)" by simp
    qed
    moreover have "\<exists>e \<in> set ?es. fst (?P e) = index_dir b key"
      using s dir [of "(key, s)"] es by (intro bexI [of _ "(key, s)"]) simp_all
    ultimately show ?thesis
      using Some disk_dir_fold [of ?es ?P "index_dir b key" ?f ?C "ord (key_xmls d s)" "[]"] by (simp add: disk_dir_def)
  qed
  finally show ?thesis .
qed

text \<open>Facts as the reader makes them: printable and without caches.\<close>

definition readable :: "xml_fact \<Rightarrow> bool" where
  "readable x \<longleftrightarrow> canonical (fact_obj x) \<and> xname (fact_obj x) = ''fact'' \<and> bare (fact_obj x) = fact_obj x"

lemma good_order_single: "good_order ord \<Longrightarrow> ord [f] = [f]"
proof -
  assume "good_order ord"
  then have "distinct (ord [f])" "set (ord [f]) = {f}" by (simp_all add: good_order_def)
  then show ?thesis by (cases "ord [f]"; cases "tl (ord [f])") auto
qed

lemma good_order_Nil: "good_order ord \<Longrightarrow> ord [] = []"
  by (metis good_order_def set_empty)

text \<open>The file of any facts that were inserted, read into an empty database, gives these facts.\<close>

lemma read_back_facts:
  assumes A: "\<And>y. y \<in> A \<Longrightarrow> canonical y \<and> xname y = ''fact'' \<and> prepare_words (bare y) = y \<and> \<not> is_synonym (bare y)"
    and c: "set c = obj_print_xml ` A"
  shows "\<exists>k e. read_facts insert_fact [] (ordertags (concat c) []) d0 = Inr (k, e)
    \<and> fact_obj ` set (facts e) = fact_obj ` set (facts d0) \<union> A"
proof -
  define ys where "ys = map (inv_into A obj_print_xml) c"
  have ys: "set ys \<subseteq> A" "map obj_print_xml ys = c"
    using c by (auto simp: ys_def inv_into_into f_inv_into_f intro!: map_idI)
  let ?xs = "map (\<lambda>(j, y). new_fact\<lparr>fact_obj := bare y, fact_file := [], fact_line := show_nat (j + 1)\<rparr>) (enumerate 0 ys)"
  have l: "list_all (\<lambda>x. canonical x \<and> xname x = ''fact'') ys" using ys(1) A by (auto simp: list_all_iff)
  have f: "fold (\<lambda>(j, x). use_xml_fact insert_fact [] j (new_fact\<lparr>fact_obj := bare x\<rparr>)) (enumerate 0 ys) d0
      = fold insert_fact ?xs d0"
    by (simp add: fold_map comp_def use_xml_fact_def [abs_def] split_def)
  have "\<not> is_synonym (bare (ys ! j))" if "j < length ys" for j
    using A ys(1) nth_mem [OF that] by blast
  then have "filter (\<lambda>x. \<not> is_synonym (fact_obj x)) ?xs = ?xs"
    by (auto simp: filter_id_conv in_set_enumerate_eq)
  then have "map fact_obj (facts (fold insert_fact ?xs d0)) = map fact_obj (facts d0) @ map (\<lambda>x. prepare_words (fact_obj x)) ?xs"
    by (simp only: facts_inserted)
  also have "map (\<lambda>x. prepare_words (fact_obj x)) ?xs = map (prepare_words \<circ> bare) (map snd (enumerate 0 ys))"
    by (simp only: map_map) (simp add: case_prod_beta comp_def)
  also have "\<dots> = ys" using ys(1) A by (auto intro!: map_idI)
  finally have "fact_obj ` set (facts (fold insert_fact ?xs d0)) = fact_obj ` set (facts d0) \<union> set ys"
    by (metis image_set set_append)
  moreover have "set ys = A"
  proof
    show "A \<subseteq> set ys"
    proof
      fix y assume y: "y \<in> A"
      then obtain z where z: "z \<in> set ys" "obj_print_xml z = obj_print_xml y"
        using ys(2) c by (metis imageE imageI image_set)
      then have "bare z = bare y" using print_inject A y ys(1) by blast
      then have "z = y" using A y z(1) ys(1) by (metis subsetD)
      then show "y \<in> set ys" using z(1) by simp
    qed
  qed (use ys(1) in simp)
  ultimately show ?thesis
    using read_printed_facts [OF l, of insert_fact "[]" d0] ys(2) f by auto
qed

lemma readable_stored:
  assumes "\<And>x. x \<in> set xs \<Longrightarrow> readable x" "facts d0 = []" "f \<in> set (facts (fold insert_fact xs d0))"
  defines "y \<equiv> fact_obj f"
  shows "canonical y \<and> xname y = ''fact'' \<and> prepare_words (bare y) = y \<and> \<not> is_synonym (bare y)"
proof -
  have "y \<in> set (map fact_obj (facts (fold insert_fact xs d0)))" using assms(3) by (simp add: y_def)
  then obtain x where x: "x \<in> set xs" "y = prepare_words (fact_obj x)" "\<not> is_synonym (fact_obj x)"
    by (auto simp: facts_inserted assms(2))
  then show ?thesis using assms(1) [OF x(1)] by (simp add: readable_def)
qed

text \<open>The facts of a word, read back from the disk into a database that may hold facts already.\<close>

definition stored_facts :: "diskdb \<Rightarrow> string \<Rightarrow> xml_obj set" where
  "stored_facts d key = {fact_obj g |g. g \<in> set (facts d) \<and> key \<in> set (fact_keys (fact_obj g))}"

definition storable :: "diskdb \<Rightarrow> bool" where
  "storable d \<longleftrightarrow> index_ok d \<and> complete d \<and> path_filename (ddb_filename d) \<noteq> [] \<and>
    (\<forall>g \<in> set (facts d). canonical (fact_obj g) \<and> xname (fact_obj g) = ''fact''
      \<and> prepare_words (bare (fact_obj g)) = fact_obj g \<and> \<not> is_synonym (bare (fact_obj g)))"

lemma storable_inserted:
  assumes "path_filename filename \<noteq> []" "\<forall>x \<in> set xs. readable x"
  shows "storable (fold insert_fact xs (set_add_synonyms v (set_filename filename (set_complete True diskdb_new))))"
proof -
  let ?d0 = "set_add_synonyms v (set_filename filename (set_complete True diskdb_new))"
  have d0: "facts ?d0 = []" "index_3chars ?d0 = []" "complete ?d0" "ddb_filename ?d0 = filename"
    by (simp_all add: set_add_synonyms_def set_filename_def set_complete_def diskdb_new_def)
  have "index_ok (fold insert_fact xs ?d0)"
    by (rule fold_invariant) (auto intro: index_ok_insert index_ok_start simp: d0)
  then show ?thesis
    using settings_inserted [of xs ?d0] d0 assms readable_stored [of xs ?d0]
    by (simp add: storable_def)
qed

lemma get_stored_facts:
  assumes conf: "db_configured b" and ord: "good_order ord" "good_order ord'" and d: "storable d"
  shows "\<exists>e. get_facts ord' b w (fst (to_disk ord b [] ([], d))) d0 = Inr e
    \<and> fact_obj ` set (facts e) = fact_obj ` set (facts d0) \<union> stored_facts d (key_of_text (wtext w))"
    (is "\<exists>e. ?get = Inr e \<and> _ = _ \<union> ?A")
proof -
  let ?key = "key_of_text (wtext w)"
  let ?f = "path_filename (ddb_filename d)"
  have d': "index_ok d" "complete d" "?f \<noteq> []" using d by (simp_all add: storable_def)
  have stored: "canonical y \<and> xname y = ''fact'' \<and> prepare_words (bare y) = y \<and> \<not> is_synonym (bare y)"
    if "y \<in> ?A" for y
    using that d by (auto simp: storable_def stored_facts_def)
  have A: "?A = {fact_obj (facts d ! i) |i. i \<in> found d ?key}"
    using d'(1) by (fastforce simp: index_ok_def in_set_conv_nth stored_facts_def)
  let ?dk = "fst (to_disk ord b [] ([], d))"
  have dir: "disk_dir ?dk (index_dir b ?key)
    = (case um_find (index_3chars d) ?key of None \<Rightarrow> [] | Some s \<Rightarrow> [(?f, ord (key_xmls d s))])"
    using stored_dir [OF conf ord(1)] d' by (simp add: index_ok_def)
  have get: "?get = from_disk_files b (index_dir b ?key) (ord' (map fst (disk_dir ?dk (index_dir b ?key)))) ?dk d0"
    by (simp add: get_facts_def from_disk_def index_dir_def Let_def)
  show ?thesis
  proof (cases "um_find (index_3chars d) ?key")
    case None
    then have "?A = {}" unfolding A by (simp add: found_def)
    then show ?thesis using get dir None good_order_Nil [OF ord(2)] by simp
  next
    case (Some s)
    let ?c = "ord (key_xmls d s)"
    have "found d ?key = set s" using Some by (simp add: found_def)
    then have c: "set ?c = obj_print_xml ` ?A"
      using ord(1) unfolding A by (auto simp: good_order_def key_xmls_def)
    have "disk_look ?dk (index_dir b ?key, ?f) = Some ?c"
      using dir Some by (simp add: disk_look_dir um_find_def)
    then have "snd (disk_read_file b (index_dir b ?key, ?f) [] ?dk) = ?c"
      using conf d' by (simp add: disk_read_file_def)
    moreover obtain k e where "read_facts insert_fact [] (ordertags (concat ?c) []) d0 = Inr (k, e)"
      "fact_obj ` set (facts e) = fact_obj ` set (facts d0) \<union> ?A"
      using read_back_facts [of ?A ?c d0] stored c by auto
    ultimately show ?thesis
      using get dir Some good_order_single [OF ord(2)] by (simp add: from_disk_file_def Let_def)
  qed
qed

section \<open>Synonyms\<close>

definition syn_of :: "diskdb \<Rightarrow> string \<Rightarrow> string set" where
  "syn_of d w = (case um_find (synonyms d) w of None \<Rightarrow> {} | Some a \<Rightarrow> set (syn_sets d ! a))"

definition syn_ok :: "diskdb \<Rightarrow> bool" where
  "syn_ok d \<longleftrightarrow> (\<forall>w a. um_find (synonyms d) w = Some a \<longrightarrow> a < length (syn_sets d) \<and> w \<in> set (syn_sets d ! a))"

text \<open>After the four cases every word but the two of the fact is in its set; the two are added
  next.\<close>

lemma join_synonyms_ok:
  assumes "syn_ok d" "join_synonyms t1 t2 d = (a, d1)"
  shows "a < length (syn_sets d1)" "um_find (synonyms d1) t1 = Some a" "um_find (synonyms d1) t2 \<noteq> None"
    and "um_find (synonyms d1) w = Some b \<Longrightarrow>
      b < length (syn_sets d1) \<and> (w \<in> set (syn_sets d1 ! b) \<or> b = a \<and> w \<in> {t1, t2})"
proof -
  note ok = assms(1) [unfolded syn_ok_def, rule_format]
  consider (both) p q where "um_find (synonyms d) t1 = Some p" "um_find (synonyms d) t2 = Some q"
    | (left) p where "um_find (synonyms d) t1 = Some p" "um_find (synonyms d) t2 = None"
    | (right) q where "um_find (synonyms d) t1 = None" "um_find (synonyms d) t2 = Some q"
    | (none) "um_find (synonyms d) t1 = None" "um_find (synonyms d) t2 = None"
    by (cases "um_find (synonyms d) t1"; cases "um_find (synonyms d) t2") auto
  then have "a < length (syn_sets d1) \<and> um_find (synonyms d1) t1 = Some a \<and> um_find (synonyms d1) t2 \<noteq> None
      \<and> (um_find (synonyms d1) w = Some b \<longrightarrow>
          b < length (syn_sets d1) \<and> (w \<in> set (syn_sets d1 ! b) \<or> b = a \<and> w \<in> {t1, t2}))"
  proof cases
    case both
    have l: "p < length (syn_sets d)" "q < length (syn_sets d)" using ok both by blast+
    show ?thesis
    proof (cases "p = q")
      case True
      then show ?thesis using assms(2) both ok [of w b] l by (auto simp: join_synonyms_def)
    next
      case False
      then have a: "a = p" "d1 = d\<lparr>syn_sets := (syn_sets d)[p := fold set_add (syn_sets d ! q) (syn_sets d ! p)],
            synonyms := um_insert t2 p (synonyms d)\<rparr>"
        using assms(2) both by (auto simp: join_synonyms_def)
      have s: "um_find (um_insert t2 p (synonyms d)) v = um_find (synonyms d) v" for v
        using both(2) by (auto simp: um_find_insert)
      show ?thesis unfolding a using s both ok [of w b] l by (auto simp: nth_list_update)
    qed
  next
    case left
    then have a: "a = p" "d1 = d\<lparr>synonyms := um_insert t2 p (synonyms d)\<rparr>"
      using assms(2) left by (auto simp: join_synonyms_def)
    have l: "p < length (syn_sets d)" using ok left by blast
    show ?thesis unfolding a using left ok [of w b] l by (auto simp: um_find_insert split: if_splits)
  next
    case right
    then have a: "a = q" "d1 = d\<lparr>synonyms := um_insert t1 q (synonyms d)\<rparr>"
      using assms(2) right by (auto simp: join_synonyms_def)
    have l: "q < length (syn_sets d)" using ok right by blast
    show ?thesis unfolding a using right ok [of w b] l by (auto simp: um_find_insert split: if_splits)
  next
    case none
    then have a: "a = length (syn_sets d)" "d1 = d\<lparr>syn_sets := syn_sets d @ [[]],
          synonyms := um_insert t2 a (um_insert t1 a (synonyms d))\<rparr>"
      using assms(2) none by (auto simp: join_synonyms_def Let_def)
    show ?thesis using none ok [of w b] unfolding a(2)
      by (auto simp: um_find_insert a(1) nth_append split: if_splits)
  qed
  then show "a < length (syn_sets d1)" "um_find (synonyms d1) t1 = Some a" "um_find (synonyms d1) t2 \<noteq> None"
    "um_find (synonyms d1) w = Some b \<Longrightarrow>
      b < length (syn_sets d1) \<and> (w \<in> set (syn_sets d1 ! b) \<or> b = a \<and> w \<in> {t1, t2})"
    by blast+
qed

lemma insert_synonym_ok:
  assumes "syn_ok d"
  shows "syn_ok (snd (insert_synonym x d))"
    and "is_synonym (fact_obj x) \<Longrightarrow> do_add_synonyms d \<Longrightarrow>
      {print_text (part ''subject'' (fact_obj x)), print_text (part ''object'' (fact_obj x))}
        \<subseteq> syn_of (snd (insert_synonym x d)) (print_text (part ''subject'' (fact_obj x)))"
proof -
  let ?t1 = "print_text (part ''subject'' (fact_obj x))"
  let ?t2 = "print_text (part ''object'' (fact_obj x))"
  obtain a d1 where j: "join_synonyms ?t1 ?t2 d = (a, d1)" by (cases "join_synonyms ?t1 ?t2 d")
  note ok = join_synonyms_ok [OF assms j]
  let ?d2 = "d1\<lparr>syn_sets := (syn_sets d1)[a := set_add ?t2 (set_add ?t1 (syn_sets d1 ! a))]\<rparr>"
  have i: "snd (insert_synonym x d) = (if do_add_synonyms d \<and> is_synonym (fact_obj x) then ?d2 else d)"
    by (simp add: insert_synonym_def j)
  have "syn_ok ?d2"
    unfolding syn_ok_def using ok(1,4) by (auto simp: nth_list_update)
  then show "syn_ok (snd (insert_synonym x d))" using i assms by simp
  show "is_synonym (fact_obj x) \<Longrightarrow> do_add_synonyms d \<Longrightarrow> {?t1, ?t2} \<subseteq> syn_of (snd (insert_synonym x d)) ?t1"
    using ok(1,2) by (simp add: i syn_of_def)
qed

lemma insert_fact_syn_ok: "syn_ok d \<Longrightarrow> syn_ok (insert_fact x d)"
  by (cases "is_synonym (fact_obj x)")
    (simp_all add: insert_fact_synonym insert_synonym_ok, simp add: insert_fact_proper syn_ok_def)

section \<open>Properties\<close>

text \<open>C26. The index in memory is what an exhaustive search would be: after any facts were inserted
  into an empty database, the set of a key holds exactly the facts that have an index word with this
  key; no fact is missed and none is listed under a foreign key. Synonyms are not stored as facts.\<close>

theorem index_refines_search:
  fixes xs :: "xml_fact list" and v :: bool
  defines "d \<equiv> fold insert_fact xs (set_add_synonyms v diskdb_new)"
  shows "found d k = {i. i < length (facts d) \<and> k \<in> set (fact_keys (fact_obj (facts d ! i)))}
    \<and> map fact_obj (facts d) = map (\<lambda>x. prepare_words (fact_obj x)) (filter (\<lambda>x. \<not> is_synonym (fact_obj x)) xs)"
proof -
  have "index_ok d"
    unfolding d_def
    by (rule fold_invariant) (auto intro: index_ok_insert simp: set_add_synonyms_def diskdb_new_def)
  then show ?thesis
    using facts_inserted [of xs "set_add_synonyms v diskdb_new"]
    by (auto simp: index_ok_def d_def set_add_synonyms_def diskdb_new_def)
qed

text \<open>C25. What was stored on an empty disk is found again by key, for every order in which hashed
  sets and directories are visited: reading the facts of a word into a new database gives exactly
  the facts of the old one that are indexed under the key of the word, with their word caches.\<close>

theorem disk_index_round_trip:
  fixes v :: bool
  assumes conf: "db_configured b" and ord: "good_order ord" "good_order ord'"
    and f: "path_filename filename \<noteq> []" and xs: "\<forall>x \<in> set xs. readable x"
  defines "d \<equiv> fold insert_fact xs (set_add_synonyms v (set_filename filename (set_complete True diskdb_new)))"
  shows "\<exists>e. get_facts ord' b w (fst (to_disk ord b [] ([], d))) diskdb_new = Inr e
    \<and> fact_obj ` set (facts e)
        = {fact_obj g |g. g \<in> set (facts d) \<and> key_of_text (wtext w) \<in> set (fact_keys (fact_obj g))}"
  using get_stored_facts [OF conf ord storable_inserted [OF f xs, of v], of w diskdb_new]
  by (simp add: stored_facts_def d_def) (simp add: diskdb_new_def)

definition stored_db :: database where
  "stored_db = database_new\<lparr>lang := ''de'', path := ''.'', db_tagger := True\<rparr>"

definition simple_fact :: "(string \<times> string) list \<Rightarrow> xml_fact" where
  "simple_fact ps =
    (let node = (\<lambda>n cs. push_all cs (set_name n (new_xml LIST))); t = (\<lambda>s. node ''text'' [from_text s])
     in new_fact\<lparr>fact_obj := node ''fact'' (map (\<lambda>(n, s). node n [t s]) ps)\<rparr>)"

definition cat_fact :: xml_fact where
  "cat_fact = simple_fact [(''verb'', ''sees''), (''subject'', ''the Cat'')]"

definition cat_db :: diskdb where
  "cat_db = fold insert_fact [cat_fact] (set_add_synonyms True (set_filename ''x/facts.xml'' (set_complete True diskdb_new)))"

theorem disk_index_round_trip_witness:
  "\<exists>e. get_facts (rev \<circ> remdups) stored_db (new_word ''CAT'') (fst (to_disk remdups stored_db [] ([], cat_db))) diskdb_new = Inr e
    \<and> fact_obj ` set (facts e) = {prepare_words (fact_obj cat_fact)}"
proof -
  let ?y = "prepare_words (fact_obj cat_fact)"
  let ?key = "key_of_text (wtext (new_word ''CAT''))"
  have "readable cat_fact" unfolding readable_def by code_simp
  then have r: "\<forall>x \<in> set [cat_fact]. readable x" by simp
  have h: "db_configured stored_db" "path_filename ''x/facts.xml'' \<noteq> []" by code_simp+
  have "map fact_obj (facts cat_db) = [?y]" by code_simp
  then have "fact_obj ` set (facts cat_db) = {?y}" by (metis empty_set list.simps(15) set_map)
  moreover have "?key \<in> set (fact_keys ?y)" by code_simp
  moreover have "{fact_obj g |g. g \<in> set (facts cat_db) \<and> ?key \<in> set (fact_keys (fact_obj g))}
      = {y \<in> fact_obj ` set (facts cat_db). ?key \<in> set (fact_keys y)}" by blast
  ultimately have "{fact_obj g |g. g \<in> set (facts cat_db) \<and> ?key \<in> set (fact_keys (fact_obj g))} = {?y}" by auto
  then show ?thesis
    using disk_index_round_trip [OF h(1) good_order_remdups good_order_rev h(2) r, of "new_word ''CAT''" True]
    by (simp only: cat_db_def)
qed

text \<open>Every word that has a synonym set is in it, after any facts and any merging of sets; and a
  synonym fact puts both its words into the set of the first.\<close>

theorem synonyms_contain_word:
  fixes xs :: "xml_fact list"
  defines "d \<equiv> fold insert_fact xs (set_add_synonyms True diskdb_new)"
  assumes "is_synonym (fact_obj x)"
  shows "(\<forall>w. um_find (synonyms d) w \<noteq> None \<longrightarrow> w \<in> syn_of d w)
    \<and> {print_text (part ''subject'' (fact_obj x)), print_text (part ''object'' (fact_obj x))}
        \<subseteq> syn_of (insert_fact x d) (print_text (part ''subject'' (fact_obj x)))"
proof -
  have ok: "syn_ok d \<and> do_add_synonyms d"
    unfolding d_def
  proof (rule fold_invariant)
    fix x e assume "syn_ok e \<and> do_add_synonyms e"
    then show "syn_ok (insert_fact x e) \<and> do_add_synonyms (insert_fact x e)"
      by (cases "is_synonym (fact_obj x)")
        (simp_all add: insert_fact_syn_ok insert_fact_synonym insert_synonym_ok insert_fact_proper)
  qed (simp add: syn_ok_def set_add_synonyms_def diskdb_new_def)
  then show ?thesis
    using insert_synonym_ok(2) [of d x] assms(2) by (auto simp: insert_fact_synonym syn_ok_def syn_of_def)
qed

definition same_as :: "string \<Rightarrow> string \<Rightarrow> xml_fact" where
  "same_as s t = simple_fact [(''verb'', ''=''), (''subject'', s), (''object'', t)]"

theorem synonyms_contain_word_witness:
  "{''car'', ''auto''} \<subseteq> syn_of (insert_fact (same_as ''car'' ''auto'') (set_add_synonyms True diskdb_new)) ''car''"
proof -
  have "is_synonym (fact_obj (same_as ''car'' ''auto''))" by code_simp
  from synonyms_contain_word [OF this, of "[]"] have
    "{print_text (part ''subject'' (fact_obj (same_as ''car'' ''auto''))), print_text (part ''object'' (fact_obj (same_as ''car'' ''auto'')))}
      \<subseteq> syn_of (insert_fact (same_as ''car'' ''auto'') (set_add_synonyms True diskdb_new))
          (print_text (part ''subject'' (fact_obj (same_as ''car'' ''auto''))))"
    by (simp only: fold_simps)
  moreover have "print_text (part ''subject'' (fact_obj (same_as ''car'' ''auto''))) = ''car''"
    "print_text (part ''object'' (fact_obj (same_as ''car'' ''auto''))) = ''auto''" by code_simp+
  ultimately show ?thesis by (simp only:)
qed

text \<open>Merging is one-sided: a synonym fact between two words that already have different sets
  changes the set of the first word only. The second word keeps its old set, without the first word,
  because \<^verbatim>\<open>insert\<close> into the map does not replace the entry that is there.\<close>

theorem merge_is_one_sided:
  assumes "is_synonym (fact_obj x)" "do_add_synonyms d"
    and "um_find (synonyms d) (print_text (part ''subject'' (fact_obj x))) = Some a"
    and "um_find (synonyms d) (print_text (part ''object'' (fact_obj x))) = Some b" "a \<noteq> b"
  shows "syn_of (insert_fact x d) (print_text (part ''object'' (fact_obj x)))
      = syn_of d (print_text (part ''object'' (fact_obj x)))"
  using assms by (simp add: insert_fact_synonym insert_synonym_def join_synonyms_def syn_of_def um_find_insert Let_def)

theorem merge_is_one_sided_witness:
  "let d = fold insert_fact [same_as ''a1'' ''b1'', same_as ''c1'' ''d1''] (set_add_synonyms True diskdb_new);
       d' = insert_fact (same_as ''a1'' ''c1'') d
   in syn_of d' ''c1'' = {''c1'', ''d1''} \<and> syn_of d' ''a1'' = {''a1'', ''b1'', ''c1'', ''d1''}"
proof -
  let ?x = "same_as ''a1'' ''c1''"
  let ?d = "fold insert_fact [same_as ''a1'' ''b1'', same_as ''c1'' ''d1''] (set_add_synonyms True diskdb_new)"
  have t: "print_text (part ''subject'' (fact_obj ?x)) = ''a1''" "print_text (part ''object'' (fact_obj ?x)) = ''c1''"
    by code_simp+
  have h: "is_synonym (fact_obj ?x)" "do_add_synonyms ?d" "um_find (synonyms ?d) ''a1'' = Some 0"
    "um_find (synonyms ?d) ''c1'' = Some 1" by code_simp+
  have "syn_of (insert_fact ?x ?d) ''c1'' = syn_of ?d ''c1''"
    using merge_is_one_sided [OF h(1,2), of 0 1] h(3,4) by (simp only: t)
  moreover have "syn_of ?d ''c1'' = {''c1'', ''d1''}" by code_simp
  moreover have "syn_of (insert_fact ?x ?d) ''a1'' = {''a1'', ''b1'', ''c1'', ''d1''}" by code_simp
  ultimately show ?thesis by (simp only: Let_def)
qed

end
