(* ===== verification/Database.thy ===== *)
theory Database
  imports DiskDb "HOL-Library.List_Lexorder" "HOL-Library.Char_ord"
begin

text \<open>
  \<^verbatim>\<open>hal2012-database2012.hpp\<close>: the database of facts above the index database. \<^verbatim>\<open>prepare\<close> walks over a
  directory of fact files, stores every new file in the index and remembers its size;
  \<^verbatim>\<open>find_by_word\<close>, \<^verbatim>\<open>find_by_words\<close> and \<^verbatim>\<open>find_by_fact\<close> read the facts of words back,
  replace their texts by lists of synonyms and put tags to their words.

  The files outside the cache directory are a tree (\<open>source_file\<close>), the cache directory is the disk of
  the theory \<open>Disk\<close> and the files that \<^verbatim>\<open>suspend\<close> writes. The tagger object is a parameter
  of the operations: \<open>verbs\<close>, \<open>tog\<close> and \<open>gp\<close> stand for its file of verbs, its \<^verbatim>\<open>toggle\<close> and its
  \<^verbatim>\<open>get_pos\<close>, and its state is passed through. Output and \<^verbatim>\<open>filesystem_error\<close> are not modelled.

  The lemmas show that the facts of a prepared file are found again by their words, that preparing a
  second time changes nothing, and what replacing the texts by synonyms keeps.
\<close>

section \<open>Settings and the list of files\<close>

record world =
  wdisk :: disk
  wcache :: "nat hmap hmap"

definition cache_file :: "database \<Rightarrow> string" where
  "cache_file b = path_append (get_cache_directory b) ''files.cache''"

definition resume :: "world \<Rightarrow> database \<Rightarrow> database" where
  "resume w b =
    (if lang b \<noteq> [] \<and> path b \<noteq> [] then
       (case um_find (wcache w) (cache_file b) of None \<Rightarrow> b | Some fs \<Rightarrow> b\<lparr>files := fs\<rparr>)
     else b)"

definition suspend :: "database \<Rightarrow> world \<Rightarrow> world" where
  "suspend b w =
    (if lang b \<noteq> [] \<and> path b \<noteq> [] then w\<lparr>wcache := um_set (cache_file b) (files b) (wcache w)\<rparr> else w)"

definition db_set_lang :: "string \<Rightarrow> world \<Rightarrow> database \<Rightarrow> database" where
  "db_set_lang l w b = resume w (set_lang l b)"

definition db_set_path :: "string \<Rightarrow> world \<Rightarrow> database \<Rightarrow> database" where
  "db_set_path p w b = resume w (set_path p b)"

section \<open>Preparing fact files\<close>

text \<open>A file that cannot be opened has no contents, and neither has an empty file.\<close>

definition read_xml_fact_file :: "database \<Rightarrow> string \<Rightarrow> string \<Rightarrow> diskdb \<Rightarrow> read_error + (nat \<times> diskdb)" where
  "read_xml_fact_file b filename instr idb =
    (if \<not> db_configured b then Inr (1, idb)
     else if instr = [] then Inr (1, idb)
     else
       (let prestr = ordertags instr [];
            idb1 = set_add_synonyms True (set_filename filename (set_complete True idb))
        in case read_facts insert_fact filename prestr idb1 of
             Inl err \<Rightarrow> Inl err
           | Inr (k, idb2) \<Rightarrow> Inr (0, idb2)))"

definition prepare_file :: "hash_order \<Rightarrow> string \<Rightarrow> string \<Rightarrow> database \<times> world \<Rightarrow> read_error + (database \<times> world)" where
  "prepare_file ord p contents st =
    (let (b, w) = st; size1 = length contents in
     if um_find (files b) p \<noteq> Some size1 then
       (case read_xml_fact_file b p contents diskdb_new of
          Inl err \<Rightarrow> Inl err
        | Inr (r, idb) \<Rightarrow>
            Inr (b\<lparr>files := um_insert p size1 (files b)\<rparr>, w\<lparr>wdisk := fst (to_disk ord b [] (wdisk w, idb))\<rparr>))
     else Inr (b, w))"

datatype source_file = File string | Directory "(string \<times> source_file) list" | Special

text \<open>Every call ends with \<^verbatim>\<open>suspend\<close>, the calls for the entries of a directory as well.\<close>

lemma size_sorted: "size_list f (sort_key g xs) = size_list f xs"
proof -
  have "size_list f xs = sum_mset (image_mset (\<lambda>x. Suc (f x)) (mset xs))" for xs
    by (induction xs) simp_all
  then show ?thesis by simp
qed

function prepare_node :: "hash_order \<Rightarrow> string \<Rightarrow> source_file option \<Rightarrow> database \<times> world
    \<Rightarrow> read_error + (database \<times> world)"
  and prepare_entries :: "hash_order \<Rightarrow> string \<Rightarrow> (string \<times> source_file) list \<Rightarrow> database \<times> world
    \<Rightarrow> read_error + (database \<times> world)" where
  "prepare_node ord p src st =
    (if \<not> db_configured (fst st) then Inr st
     else
       (case (case src of
                Some (File contents) \<Rightarrow> prepare_file ord p contents st
              | Some (Directory es) \<Rightarrow> prepare_entries ord p (sort_key fst es) st
              | _ \<Rightarrow> Inr st) of
          Inl err \<Rightarrow> Inl err
        | Inr (b, w) \<Rightarrow> Inr (b, suspend b w)))"
| "prepare_entries ord p [] st = Inr st"
| "prepare_entries ord p ((n, x) # es) st =
    (if ends_with n ''.xml'' then
       (case prepare_node ord (path_append p n) (Some x) st of
          Inl err \<Rightarrow> Inl err
        | Inr st' \<Rightarrow> prepare_entries ord p es st')
     else prepare_entries ord p es st)"
  by pat_completeness auto
termination
  by (relation "measure (case_sum (\<lambda>(ord, p, x, st). 2 * size_option size x)
        (\<lambda>(ord, p, es, st). Suc (2 * size_list (size_prod (\<lambda>_. 0) size) es)))")
    (simp_all add: size_sorted)

definition prepare :: "hash_order \<Rightarrow> string \<Rightarrow> source_file option \<Rightarrow> database \<times> world
    \<Rightarrow> read_error + (database \<times> world)" where
  "prepare ord p src st = prepare_node ord p src st"

declare prepare_node.simps [simp del]


section \<open>Synonyms\<close>

definition db_get_synonyms :: "database \<Rightarrow> word list \<Rightarrow> word \<Rightarrow> disk \<Rightarrow> nat \<times> word list" where
  "db_get_synonyms b syns w dk =
    (if \<not> db_configured b then (1, syns) else (0, (syns @ [w]) @ get_synonyms b w dk))"

definition synonym_text :: "word \<Rightarrow> xml_obj" where
  "synonym_text syn = push (xml_set_text (wtext syn) (new_xml TEXT)) (set_name ''text'' (new_xml LIST))"

definition synonym_tree :: "database \<Rightarrow> disk \<Rightarrow> word \<Rightarrow> xml_obj" where
  "synonym_tree b dk w =
    (let syns = snd (db_get_synonyms b [] w dk)
     in fold (\<lambda>syn t. push (synonym_text syn) t) syns (set_name ''synonyms'' (new_xml LIST)))"

definition synonym_list :: "database \<Rightarrow> disk \<Rightarrow> word list \<Rightarrow> xml_obj" where
  "synonym_list b dk ws =
    fold (\<lambda>w t. push (synonym_tree b dk w) t) ws (set_name ''list'' (new_xml LIST))"

fun insert_synonyms :: "database \<Rightarrow> disk \<Rightarrow> xml_obj \<Rightarrow> xml_obj" where
  "insert_synonyms b dk (Xml m name t content cw ct ca) =
    (if \<not> db_configured b then Xml m name t content cw ct ca
     else if m = LIST \<and> name \<noteq> ''truth'' \<and> name \<noteq> ''flags'' then
       Xml m name t
         (map (\<lambda>o1. if xmode o1 = LIST \<and> xname o1 = ''text'' then synonym_list b dk (fst (get_words o1))
                     else insert_synonyms b dk o1) content) cw ct ca
     else Xml m name t content cw ct ca)"

section \<open>Queries\<close>

datatype db_error = Read_failed read_error | Tag_failed rx_error

fun index_words :: "hash_order \<Rightarrow> database \<Rightarrow> word list \<Rightarrow> disk \<Rightarrow> diskdb \<Rightarrow> read_error + diskdb" where
  "index_words ord b [] dk d = Inr d"
| "index_words ord b (w # ws) dk d =
    (case get_facts ord b w dk d of
       Inl err \<Rightarrow> Inl err
     | Inr d' \<Rightarrow> index_words ord b ws dk d')"

text \<open>The loop over \<^verbatim>\<open>prepare_tags\<close> for the facts of the list.\<close>

fun tag_facts :: "(string \<Rightarrow> tagger \<Rightarrow> rx_error + (tags \<times> tagger)) \<Rightarrow> xml_fact list \<Rightarrow> tagger
    \<Rightarrow> rx_error + (xml_fact list \<times> tagger)" where
  "tag_facts gp [] g = Inr ([], g)"
| "tag_facts gp (x # xs) g =
    (case prepare_tags gp (fact_obj x) g of
       Inl err \<Rightarrow> Inl err
     | Inr (o1, g1) \<Rightarrow>
         (case tag_facts gp xs g1 of
            Inl err \<Rightarrow> Inl err
          | Inr (ys, g2) \<Rightarrow> Inr (x\<lparr>fact_obj := o1\<rparr> # ys, g2)))"

definition finish_facts :: "(string \<Rightarrow> tagger \<Rightarrow> rx_error + (tags \<times> tagger)) \<Rightarrow> database \<Rightarrow> disk
    \<Rightarrow> xml_fact list \<Rightarrow> tagger \<Rightarrow> db_error + (nat \<times> xml_fact list \<times> tagger)" where
  "finish_facts gp b dk list1 g =
    (let list2 = map (\<lambda>x. x\<lparr>fact_obj := insert_synonyms b dk (fact_obj x)\<rparr>) list1;
         verbose_copy = is_verbose g
     in case tag_facts gp list2 (set_verbose False g) of
          Inl err \<Rightarrow> Inl (Tag_failed err)
        | Inr (list3, g1) \<Rightarrow> Inr (0, list3, set_verbose verbose_copy g1))"

text \<open>\<open>ord\<close> is the order of the files in a directory, \<open>visit\<close> the order of the set of facts.\<close>

definition find_by_word ::
  "(xml_fact list \<Rightarrow> xml_fact list) \<Rightarrow> hash_order \<Rightarrow> (string \<Rightarrow> tagger \<Rightarrow> rx_error + (tags \<times> tagger))
    \<Rightarrow> database \<Rightarrow> disk \<Rightarrow> xml_fact list \<Rightarrow> word \<Rightarrow> tagger \<Rightarrow> db_error + (nat \<times> xml_fact list \<times> tagger)" where
  "find_by_word visit ord gp b dk list1 w g =
    (if \<not> db_configured b then Inr (1, list1, g)
     else
       (case get_facts ord b w dk (set_add_synonyms False diskdb_new) of
          Inl err \<Rightarrow> Inl (Read_failed err)
        | Inr idb \<Rightarrow> finish_facts gp b dk (copy_facts_to visit idb list1) g))"

definition find_by_words ::
  "(xml_fact list \<Rightarrow> xml_fact list) \<Rightarrow> hash_order \<Rightarrow> (string \<Rightarrow> tagger \<Rightarrow> rx_error + (tags \<times> tagger))
    \<Rightarrow> database \<Rightarrow> disk \<Rightarrow> xml_fact list \<Rightarrow> word list \<Rightarrow> tagger \<Rightarrow> db_error + (nat \<times> xml_fact list \<times> tagger)" where
  "find_by_words visit ord gp b dk list1 ws g =
    (if \<not> db_configured b then Inr (1, list1, g)
     else
       (case index_words ord b ws dk (set_add_synonyms False diskdb_new) of
          Inl err \<Rightarrow> Inl (Read_failed err)
        | Inr idb \<Rightarrow> finish_facts gp b dk (copy_facts_to visit idb list1) g))"

text \<open>The fact of the query is changed: its texts become lists of synonyms and its person is
  changed before its words are looked up.\<close>

definition find_by_fact ::
  "(xml_fact list \<Rightarrow> xml_fact list) \<Rightarrow> hash_order \<Rightarrow> string option
    \<Rightarrow> (string \<Rightarrow> tagger \<Rightarrow> rx_error + (nat \<times> string \<times> tagger))
    \<Rightarrow> (string \<Rightarrow> tagger \<Rightarrow> rx_error + (tags \<times> tagger)) \<Rightarrow> database \<Rightarrow> disk \<Rightarrow> xml_fact list \<Rightarrow> xml_fact
    \<Rightarrow> tagger \<Rightarrow> db_error + (nat \<times> xml_fact list \<times> xml_fact \<times> tagger)" where
  "find_by_fact visit ord verbs tog gp b dk list1 x g =
    (if \<not> db_configured b then Inr (1, list1, x, g)
     else
       (case toggle_xml verbs tog gp (insert_synonyms b dk (fact_obj x)) g of
          Inl err \<Rightarrow> Inl (Tag_failed err)
        | Inr (r, o1, g1) \<Rightarrow>
            (let verbose_copy = is_verbose g1 in
             case prepare_tags gp o1 (set_verbose False g1) of
               Inl err \<Rightarrow> Inl (Tag_failed err)
             | Inr (o2, g2) \<Rightarrow>
                 (let g3 = set_verbose verbose_copy g2;
                      (ws, o3) = get_words o2;
                      usefulwords = filter is_index_word ws
                  in case find_by_words visit ord gp b dk list1 usefulwords g3 of
                       Inl err \<Rightarrow> Inl err
                     | Inr (code1, list2, g4) \<Rightarrow> Inr (code1, list2, x\<lparr>fact_obj := o3\<rparr>, g4)))))"


section \<open>Lemmas on synonyms\<close>

definition proper_word :: "string \<Rightarrow> bool" where
  "proper_word s \<longleftrightarrow> s \<noteq> [] \<and> s \<noteq> ''1'' \<and> (\<forall>c \<in> set s. is_word_char c)"

lemma split_compress_tokens: "s \<in> set (split_compress p t) \<Longrightarrow> c \<in> set s \<Longrightarrow> \<not> p c"
proof (induction p t rule: split_compress.induct)
  case (1 p t)
  show ?case
  proof (cases "dropWhile (\<lambda>c. \<not> p c) t")
    case Nil
    then have "s = t" using "1.prems"(1) unfolding split_compress.simps [of p t] Nil by simp
    then show ?thesis using Nil "1.prems"(2) by (simp add: dropWhile_eq_Nil_conv)
  next
    case (Cons d r)
    then have "s = takeWhile (\<lambda>c. \<not> p c) t \<or> s \<in> set (split_compress p (dropWhile p r))"
      using "1.prems"(1) unfolding split_compress.simps [of p t] Cons by simp
    then show ?thesis using "1.IH" [OF Cons] "1.prems"(2) by (auto dest: set_takeWhileD)
  qed
qed

lemma proper_words_of: "s \<in> set (words_of x) \<Longrightarrow> proper_word s"
proof (induction x)
  case (Xml m name t content cw ct ca)
  show ?case
  proof (cases m)
    case TEXT
    then show ?thesis
      using Xml.prems split_compress_tokens [of s "\<lambda>c. \<not> is_word_char c" t]
      by (auto simp: words_of.simps split_words_def proper_word_def new_word_def)
  next
    case LIST
    then show ?thesis using Xml by (auto simp: words_of.simps split: if_splits)
  next
    case ANY
    then show ?thesis using Xml.prems by (simp add: words_of.simps)
  qed
qed

lemma word_char_no_space: "is_word_char c \<Longrightarrow> \<not> is_space c"
  by (auto simp: is_word_char_def is_alpha_def is_upper_def is_lower_char_def is_digit_def is_space_def
      is_any_of_def code_def)

lemma split_proper_word: "proper_word s \<Longrightarrow> map wtext (split_words (trim_text s)) = [s]"
proof -
  assume s: "proper_word s"
  then have c: "\<forall>c \<in> set s. is_word_char c" "s \<noteq> []" by (simp_all add: proper_word_def)
  then have "\<not> is_space (hd s)" "\<not> is_space (last s)" using word_char_no_space by simp_all
  then have "trim_text s = s" using c(2) by (simp add: trim_text_def trim_if_id)
  moreover have d: "dropWhile (\<lambda>c. \<not> \<not> is_word_char c) s = []" using c by simp
  have "split_compress (\<lambda>c. \<not> is_word_char c) s = [s]"
    unfolding split_compress.simps [of _ s] d by simp
  ultimately show ?thesis using s by (simp add: split_words_def proper_word_def new_word_def)
qed

lemma fold_push: "fold (\<lambda>i t. push (f i) t) is x = push_all (map f is) x"
  by (simp add: push_all_def fold_map comp_def)

lemma words_of_list [simp]: "xmode x = LIST \<Longrightarrow> xname x \<noteq> ''truth'' \<Longrightarrow> words_of x = concat (map words_of (xcontent x))"
  by (simp add: words_of_eq [of x])

lemma words_of_synonym_text: "words_of (synonym_text syn) = map wtext (split_words (trim_text (wtext syn)))"
  by (simp add: synonym_text_def xml_set_text_def words_of.simps)

lemma words_of_synonym_tree:
  assumes "db_configured b" "proper_word (wtext w)"
  shows "\<exists>ss. words_of (synonym_tree b dk w) = wtext w # ss"
  using assms by (simp add: synonym_tree_def db_get_synonyms_def fold_push words_of_synonym_text split_proper_word)

lemma subseq_concat: "(\<And>x. x \<in> set xs \<Longrightarrow> subseq (f x) (g x)) \<Longrightarrow> subseq (concat (map f xs)) (concat (map g xs))"
  by (induction xs) (auto intro: list_emb_append_mono)

lemma words_of_synonym_list:
  assumes "db_configured b" "\<forall>w \<in> set ws. proper_word (wtext w)"
  shows "subseq (map wtext ws) (words_of (synonym_list b dk ws))"
proof -
  have "subseq (concat (map (\<lambda>w. [wtext w]) ws)) (concat (map (\<lambda>w. words_of (synonym_tree b dk w)) ws))"
  proof (rule subseq_concat)
    fix w assume "w \<in> set ws"
    then obtain ss where "words_of (synonym_tree b dk w) = wtext w # ss"
      using words_of_synonym_tree [OF assms(1)] assms(2) by blast
    then show "subseq [wtext w] (words_of (synonym_tree b dk w))" by simp
  qed
  moreover have "concat (map (\<lambda>w. [wtext w]) ws) = map wtext ws" by (induction ws) simp_all
  ultimately show ?thesis by (simp add: synonym_list_def fold_push comp_def)
qed

lemma insert_synonyms_words:
  assumes "db_configured b"
  shows "coherent x \<Longrightarrow> subseq (words_of x) (words_of (insert_synonyms b dk x))"
proof (induction x)
  case (Xml m name t content cw ct ca)
  let ?f = "\<lambda>o1. if xmode o1 = LIST \<and> xname o1 = ''text'' then synonym_list b dk (fst (get_words o1))
      else insert_synonyms b dk o1"
  show ?case
  proof (cases "m = LIST \<and> name \<noteq> ''truth'' \<and> name \<noteq> ''flags''")
    case True
    have "subseq (words_of c) (words_of (?f c))" if c: "c \<in> set content" for c
    proof (cases "xmode c = LIST \<and> xname c = ''text''")
      case True
      have "coherent c" using Xml.prems c by (simp add: coherent.simps list_all_iff)
      then have w: "map wtext (fst (get_words c)) = words_of c" by (rule get_words_right)
      then have "\<forall>w \<in> set (fst (get_words c)). proper_word (wtext w)"
        using proper_words_of [of _ c] by (metis image_eqI image_set)
      from words_of_synonym_list [OF assms this, of dk] show ?thesis using True w by simp
    next
      case False
      then show ?thesis using Xml.IH [OF c] Xml.prems c by (auto simp: coherent.simps list_all_iff)
    qed
    then have "subseq (concat (map words_of content)) (concat (map (\<lambda>c. words_of (?f c)) content))"
      by (rule subseq_concat)
    moreover have "insert_synonyms b dk (Xml m name t content cw ct ca) = Xml m name t (map ?f content) cw ct ca"
      using True assms by simp
    ultimately show ?thesis using True by (simp only: words_of.simps) (simp add: comp_def)
  next
    case False
    then have "insert_synonyms b dk (Xml m name t content cw ct ca) = Xml m name t content cw ct ca" by auto
    then show ?thesis by (simp only:)
  qed
qed

lemma prepare_words_cached: "cached_words x \<Longrightarrow> prepare_words x = x"
  by (cases x) simp

lemma insert_synonyms_sel:
  "xmode (insert_synonyms b dk x) = xmode x" "xname (insert_synonyms b dk x) = xname x"
  "cached_words (insert_synonyms b dk x) = cached_words x" "cache_words (insert_synonyms b dk x) = cache_words x"
  by (cases x; simp)+

section \<open>Lemmas on queries\<close>

lemma insert_synonyms_prepare:
  "bare (insert_synonyms b dk (prepare_words x)) = bare (insert_synonyms b dk x)"
proof (induction x)
  case (Xml m name t content cw ct ca)
  let ?f = "\<lambda>o1. if xmode o1 = LIST \<and> xname o1 = ''text'' then synonym_list b dk (fst (get_words o1))
      else insert_synonyms b dk o1"
  have "map (\<lambda>c. bare (?f (prepare_words c))) content = map (\<lambda>c. bare (?f c)) content"
    using Xml.IH by simp
  then show ?case
    by (simp add: Let_def comp_def split: xml_mode.split)
qed

lemma prepare_tags_bare: "prepare_tags gp x g = Inr (x', g') \<Longrightarrow> bare x' = bare x"
proof (drule prepare_tags_rule [of "\<lambda>x x'. bare x' = bare x \<and> xmode x' = xmode x", rotated 2])
  fix x :: xml_obj and ws cs
  let ?p = "prepare_words x"
  assume "list_all2 (\<lambda>x x'. bare x' = bare x \<and> xmode x' = xmode x) (xcontent ?p) cs"
  then have "map bare cs = map bare (xcontent ?p)" by (induction rule: list_all2_induct) auto
  then have "bare (set_cache ws cs ?p) = bare ?p" by (cases ?p) (simp add: set_cache_def)
  then show "bare (set_cache ws cs ?p) = bare x \<and> xmode (set_cache ws cs ?p) = xmode x" by simp
qed simp_all

lemma tag_facts_bare:
  "tag_facts gp xs g = Inr (ys, g') \<Longrightarrow> map (\<lambda>x. bare (fact_obj x)) ys = map (\<lambda>x. bare (fact_obj x)) xs"
  by (induction xs arbitrary: ys g) (auto simp: prepare_tags_bare split: sum.splits prod.splits)

text \<open>A tagger that never fails.\<close>

definition total_pos :: "(string \<Rightarrow> tagger \<Rightarrow> rx_error + (tags \<times> tagger)) \<Rightarrow> bool" where
  "total_pos gp \<longleftrightarrow> (\<forall>w g err. gp w g \<noteq> Inl err)"

lemma tag_words_total: "total_pos gp \<Longrightarrow> \<exists>ws' g'. tag_words gp ws g = Inr (ws', g')"
proof (induction ws arbitrary: g)
  case (Cons w ws)
  show ?case
  proof (cases "gp (wtext w) g")
    case (Inl err)
    then show ?thesis using Cons.prems by (auto simp: total_pos_def)
  next
    case (Inr tg)
    then show ?thesis
      using Cons.IH [OF Cons.prems, of g] Cons.IH [OF Cons.prems, of "snd tg"] by (cases tg) auto
  qed
qed simp

lemma prepare_tags_total: "total_pos gp \<Longrightarrow> \<exists>x' g'. prepare_tags gp x g = Inr (x', g')"
proof (induction x arbitrary: g rule: measure_induct_rule [of nodes])
  case (less x)
  have "\<exists>cs g'. fold (tag_child (prepare_tags gp)) ds (Inr (cs0, g)) = Inr (cs, g')"
    if "\<forall>d \<in> set ds. nodes d < nodes x" for ds cs0 g
    using that
  proof (induction ds arbitrary: cs0 g)
    case (Cons d ds)
    then obtain d' g1 where "prepare_tags gp d g = Inr (d', g1)" using less by force
    then show ?case using Cons by simp
  qed simp
  moreover have "\<forall>d \<in> set (xcontent (prepare_words x)). nodes d < nodes x"
    using nodes_child [of _ "prepare_words x"] by simp
  ultimately have f: "\<exists>cs g'. fold (tag_child (prepare_tags gp)) (xcontent (prepare_words x)) (Inr ([], g)) = Inr (cs, g')" for g
    by blast
  obtain ws g1 where ws: "tag_words gp (cache_words (prepare_words x)) g = Inr (ws, g1)"
    using tag_words_total less.prems by blast
  obtain cs g2 where "fold (tag_child (prepare_tags gp)) (xcontent (prepare_words x)) (Inr ([], g1)) = Inr (cs, g2)"
    using f by blast
  then show ?case using ws by (simp add: prepare_tags_eq [of gp x])
qed

lemma tag_facts_total: "total_pos gp \<Longrightarrow> \<exists>ys g'. tag_facts gp xs g = Inr (ys, g')"
proof (induction xs arbitrary: g)
  case (Cons x xs)
  obtain o1 g1 where "prepare_tags gp (fact_obj x) g = Inr (o1, g1)" using prepare_tags_total Cons.prems by blast
  then show ?case using Cons.IH [OF Cons.prems, of g1] by auto
qed simp


text \<open>The list of prepared files does not matter for the files below the cache directory.\<close>

lemma files_simps [simp]:
  "db_configured (b\<lparr>files := fs\<rparr>) = db_configured b"
  "key_path (b\<lparr>files := fs\<rparr>) t k f = key_path b t k f"
  "disk_read_file (b\<lparr>files := fs\<rparr>) p l dk = disk_read_file b p l dk"
  "cache_file (b\<lparr>files := fs\<rparr>) = cache_file b"
  by (simp_all add: db_configured_def is_configured_def key_path_def disk_find_file_def get_cache_directory_def
      disk_read_file_def cache_file_def)

lemma get_facts_files [simp]: "get_facts ord (b\<lparr>files := fs\<rparr>) w dk d = get_facts ord b w dk d"
proof -
  have "from_disk_files (b\<lparr>files := fs\<rparr>) dir ns dk d = from_disk_files b dir ns dk d" for dir ns
    by (induction ns arbitrary: d) (simp_all add: from_disk_file_def split: sum.split)
  then show ?thesis by (simp add: get_facts_def from_disk_def)
qed

lemma index_words_stored:
  assumes "db_configured b" "good_order ord" "good_order ord'" "storable d"
  shows "\<exists>e. index_words ord' (b\<lparr>files := fs\<rparr>) ws (fst (to_disk ord b [] ([], d))) d0 = Inr e
    \<and> fact_obj ` set (facts e) = fact_obj ` set (facts d0) \<union> (\<Union>w \<in> set ws. stored_facts d (key_of_text (wtext w)))"
proof (induction ws arbitrary: d0)
  case (Cons w ws)
  obtain e where e: "get_facts ord' b w (fst (to_disk ord b [] ([], d))) d0 = Inr e"
      "fact_obj ` set (facts e) = fact_obj ` set (facts d0) \<union> stored_facts d (key_of_text (wtext w))"
    using get_stored_facts [OF assms] by blast
  show ?case using Cons.IH [of e] e by auto
qed simp

lemma suspend_wdisk [simp]: "wdisk (suspend b w) = wdisk w"
  by (simp add: suspend_def)

text \<open>Reading a file of printed facts.\<close>

definition printed :: "xml_obj list \<Rightarrow> string" where
  "printed xs = concat (map obj_print_xml xs)"

definition fact_trees :: "xml_obj list \<Rightarrow> bool" where
  "fact_trees xs \<longleftrightarrow> (\<forall>x \<in> set xs. canonical x \<and> xname x = ''fact'' \<and> bare x = x)"

lemma printed_not_Nil: "fact_trees xs \<Longrightarrow> xs \<noteq> [] \<Longrightarrow> printed xs \<noteq> []"
proof
  assume xs: "fact_trees xs" "xs \<noteq> []" and n: "printed xs = []"
  have l: "list_all (\<lambda>x. canonical x \<and> xname x = ''fact'') xs" using xs(1) by (simp add: fact_trees_def list_all_iff)
  have "read_facts (\<lambda>_ d. d) [] (ordertags [] []) () = Inr (length xs, ())"
    using read_printed_facts [OF l, of "\<lambda>_ d. d" "[]" "()"] unfolding n [unfolded printed_def] by simp
  moreover have "read_facts (\<lambda>_ d. d) [] (ordertags [] []) () = Inr (0, ())"
    by (simp add: read_facts_def ordertags_def)
  ultimately show False using xs(2) by simp
qed

lemma read_printed_file:
  assumes "db_configured b" "path_filename p \<noteq> []" "fact_trees xs" "xs \<noteq> []"
  shows "\<exists>d. read_xml_fact_file b p (printed xs) diskdb_new = Inr (0, d) \<and> storable d
    \<and> (\<forall>key. stored_facts d key = prepare_words ` {x \<in> set xs. \<not> is_synonym x \<and> key \<in> set (fact_keys x)})"
proof -
  let ?fs = "map (\<lambda>(j, x). new_fact\<lparr>fact_obj := bare x, fact_file := p, fact_line := show_nat (j + 1)\<rparr>) (enumerate 0 xs)"
  let ?start = "set_add_synonyms True (set_filename p (set_complete True diskdb_new))"
  let ?d = "fold insert_fact ?fs ?start"
  have l: "list_all (\<lambda>x. canonical x \<and> xname x = ''fact'') xs" using assms(3) by (simp add: fact_trees_def list_all_iff)
  have f: "fold (\<lambda>(j, x). use_xml_fact insert_fact p j (new_fact\<lparr>fact_obj := bare x\<rparr>)) (enumerate 0 xs) ?start = ?d"
    by (simp add: fold_map comp_def use_xml_fact_def [abs_def] split_def)
  have "read_facts insert_fact p (ordertags (printed xs) []) ?start = Inr (length xs, ?d)"
    using read_printed_facts [OF l, of insert_fact p ?start] unfolding f printed_def .
  then have "read_xml_fact_file b p (printed xs) diskdb_new = Inr (0, ?d)"
    using assms(1) printed_not_Nil [OF assms(3,4)] by (simp only: read_xml_fact_file_def) simp
  moreover have "\<forall>x \<in> set ?fs. readable x"
    using assms(3) by (auto simp: readable_def fact_trees_def in_set_enumerate_eq)
  then have "storable ?d" by (rule storable_inserted [OF assms(2)])
  moreover have "stored_facts ?d key = prepare_words ` {x \<in> set xs. \<not> is_synonym x \<and> key \<in> set (fact_keys x)}" for key
  proof -
    have "map fact_obj (facts ?d) = map prepare_words (map fact_obj (filter (\<lambda>x. \<not> is_synonym (fact_obj x)) ?fs))"
      using facts_inserted [of ?fs ?start] by (simp add: set_add_synonyms_def set_filename_def set_complete_def diskdb_new_def comp_def)
    also have "map fact_obj (filter (\<lambda>x. \<not> is_synonym (fact_obj x)) ?fs) = filter (\<lambda>x. \<not> is_synonym x) (map fact_obj ?fs)"
      by (simp add: filter_map comp_def)
    also have "map fact_obj ?fs = map bare (map snd (enumerate 0 xs))"
      by (simp only: map_map) (simp add: case_prod_beta comp_def)
    also have "\<dots> = xs" using assms(3) by (simp add: fact_trees_def map_idI)
    finally have s: "fact_obj ` set (facts ?d) = prepare_words ` {x \<in> set xs. \<not> is_synonym x}"
      by (metis image_set set_filter)
    have "stored_facts ?d key = {y \<in> fact_obj ` set (facts ?d). key \<in> set (fact_keys y)}"
      by (auto simp: stored_facts_def)
    then show ?thesis unfolding s by (auto simp: fact_keys_def)
  qed
  ultimately show ?thesis by blast
qed

section \<open>Lemmas on preparing\<close>

text \<open>The files below a path that \<^verbatim>\<open>prepare\<close> visits, with their sizes.\<close>

fun visited :: "string \<Rightarrow> source_file \<Rightarrow> (string \<times> nat) list" where
  "visited p (File contents) = [(p, length contents)]"
| "visited p (Directory es) =
    concat (map (\<lambda>e. if ends_with (fst e) ''.xml'' then visited (path_append p (fst e)) (snd e) else []) es)"
| "visited p Special = []"

definition visited_opt :: "string \<Rightarrow> source_file option \<Rightarrow> (string \<times> nat) list" where
  "visited_opt p src = (case src of None \<Rightarrow> [] | Some x \<Rightarrow> visited p x)"

definition visited_entries :: "string \<Rightarrow> (string \<times> source_file) list \<Rightarrow> (string \<times> nat) set" where
  "visited_entries p es = (\<Union>e \<in> set es. if ends_with (fst e) ''.xml'' then set (visited (path_append p (fst e)) (snd e)) else {})"

lemma visited_opt_simps [simp]:
  "visited_opt p None = []" "visited_opt p (Some (File c)) = [(p, length c)]" "visited_opt p (Some Special) = []"
  "set (visited_opt p (Some (Directory es))) = visited_entries p es"
  by (auto simp: visited_opt_def visited_entries_def)

lemma visited_entries_simps [simp]:
  "visited_entries p [] = {}"
  "visited_entries p ((n, x) # es) =
    (if ends_with n ''.xml'' then set (visited_opt (path_append p n) (Some x)) else {}) \<union> visited_entries p es"
  "visited_entries p (sort_key f es) = visited_entries p es"
  by (auto simp: visited_entries_def visited_opt_def)

lemma um_set_same: "um_set k v (um_set k v m) = um_set k v m"
proof (cases "um_find m k")
  case None
  then have "k \<notin> fst ` set m" by (simp add: um_find_def map_of_eq_None_iff)
  then have "map (\<lambda>e. if fst e = k then (k, v) else e) m = m" by (intro map_idI) auto
  then show ?thesis using None by (simp add: um_set_def [of k v m] um_set_def [of k v "m @ _"] um_find_def map_add_def)
next
  case (Some u)
  then show ?thesis using um_find_um_set [of k v m k] by (simp add: um_set_def comp_def)
qed

lemma suspend_again [simp]: "suspend b (suspend b w) = suspend b w"
  by (simp add: suspend_def um_set_same)

text \<open>What preparing does to the sizes: \<open>V\<close> are the visited files.\<close>

definition learns :: "(string \<times> nat) set \<Rightarrow> database \<Rightarrow> database \<Rightarrow> bool" where
  "learns V b b1 \<longleftrightarrow> (\<exists>fs. b1 = b\<lparr>files := fs\<rparr>)
    \<and> (\<forall>q n. um_find (files b) q = Some n \<longrightarrow> um_find (files b1) q = Some n)
    \<and> (\<forall>q n. um_find (files b1) q = Some n \<longrightarrow> um_find (files b) q = Some n \<or> (q, n) \<in> V)
    \<and> (\<forall>(q, n) \<in> V. um_find (files b1) q \<noteq> None)"

lemma learns_refl: "learns {} b b"
  by (auto simp: learns_def intro: exI [of _ "files b"])

lemma learns_trans:
  assumes l: "learns V b b1" "learns V' b1 b2"
  shows "learns (V \<union> V') b b2"
proof -
  have "\<exists>fs. b2 = b\<lparr>files := fs\<rparr>" using l by (auto simp: learns_def)
  moreover have "um_find (files b2) q \<noteq> None" if q: "(q, n) \<in> V \<union> V'" for q n
  proof (cases "(q, n) \<in> V")
    case True
    then obtain m where "um_find (files b1) q = Some m" using l(1) by (auto simp: learns_def)
    then show ?thesis using l(2) by (auto simp: learns_def)
  next
    case False
    then show ?thesis using l(2) q by (auto simp: learns_def)
  qed
  then have "\<forall>(q, n) \<in> V \<union> V'. um_find (files b2) q \<noteq> None" by blast
  ultimately show ?thesis using l unfolding learns_def by blast
qed

lemma learns_configured: "learns V b b1 \<Longrightarrow> db_configured b1 = db_configured b"
  by (auto simp: learns_def)

lemma prepare_file_learns:
  "prepare_file ord p c (b, w) = Inr (b1, w1) \<Longrightarrow> learns {(p, length c)} b b1"
proof -
  assume "prepare_file ord p c (b, w) = Inr (b1, w1)"
  then consider "b1 = b" "um_find (files b) p = Some (length c)"
    | "b1 = b\<lparr>files := um_insert p (length c) (files b)\<rparr>"
    by (auto simp: prepare_file_def Let_def split: if_splits sum.splits)
  then show ?thesis
  proof cases
    case 1
    then show ?thesis by (auto simp: learns_def intro: exI [of _ "files b"])
  next
    case 2
    have "um_find (um_insert p (length c) (files b)) p \<noteq> None"
      by (cases "um_find (files b) p") (simp_all add: um_find_insert)
    then show ?thesis using 2 by (auto simp: learns_def um_find_insert split: if_splits)
  qed
qed

lemma prepare_learns:
  "db_configured (fst st) \<Longrightarrow> prepare_node ord p src st = Inr (b1, w1) \<Longrightarrow>
    learns (set (visited_opt p src)) (fst st) b1 \<and> suspend b1 w1 = w1"
  "db_configured (fst st) \<Longrightarrow> prepare_entries ord p es st = Inr (b1, w1) \<Longrightarrow>
    learns (visited_entries p es) (fst st) b1"
proof (induction ord p src st and ord p es st arbitrary: b1 w1 and b1 w1 rule: prepare_node_prepare_entries.induct)
  case (1 ord p src st)
  obtain b w where st: "st = (b, w)" by (cases st)
  let ?r = "case src of Some (File contents) \<Rightarrow> prepare_file ord p contents st
      | Some (Directory es) \<Rightarrow> prepare_entries ord p (sort_key fst es) st | _ \<Rightarrow> Inr st"
  obtain w2 where r: "?r = Inr (b1, w2)" and w1: "w1 = suspend b1 w2"
    using "1.prems" by (auto simp: prepare_node.simps [of ord p src st] split: sum.splits prod.splits)
  have "learns (set (visited_opt p src)) b b1"
  proof (cases src)
    case None
    then show ?thesis using r st learns_refl by simp
  next
    case (Some x)
    then show ?thesis
    proof (cases x)
      case (File c)
      then show ?thesis using r st Some prepare_file_learns [of ord p c b w b1 w2] by simp
    next
      case (Directory es)
      then have "learns (visited_entries p (sort_key fst es)) (fst st) b1"
        using "1.IH" [of x es b1 w2] "1.prems"(1) r Some by simp
      then show ?thesis using Some Directory st by simp
    next
      case Special
      then show ?thesis using r st Some learns_refl by simp
    qed
  qed
  then show ?case using st w1 by simp
next
  case (2 ord p st)
  then show ?case by (simp add: learns_refl)
next
  case (3 ord p n x es st)
  show ?case
  proof (cases "ends_with n ''.xml''")
    case True
    then obtain b2 w2 where s: "prepare_node ord (path_append p n) (Some x) st = Inr (b2, w2)"
        "prepare_entries ord p es (b2, w2) = Inr (b1, w1)"
      using "3.prems"(2) by (auto split: sum.splits)
    have l: "learns (set (visited_opt (path_append p n) (Some x))) (fst st) b2"
      using "3.IH"(1) [OF True "3.prems"(1) s(1)] by simp
    then have "db_configured (fst (b2, w2))" using learns_configured "3.prems"(1) by simp
    then show ?thesis using "3.IH"(2) [OF True s(1) _ s(2)] learns_trans [OF l] True by simp
  next
    case False
    then show ?thesis using "3.IH"(3) "3.prems" by simp
  qed
qed

text \<open>When every visited file has its size recorded, preparing changes nothing.\<close>

definition all_known :: "(string \<times> nat) set \<Rightarrow> database \<Rightarrow> bool" where
  "all_known V b \<longleftrightarrow> (\<forall>(q, n) \<in> V. um_find (files b) q = Some n)"

lemma prepare_known:
  "suspend (fst st) (snd st) = snd st \<Longrightarrow> all_known (set (visited_opt p src)) (fst st) \<Longrightarrow>
    prepare_node ord p src st = Inr st"
  "suspend (fst st) (snd st) = snd st \<Longrightarrow> all_known (visited_entries p es) (fst st) \<Longrightarrow>
    prepare_entries ord p es st = Inr st"
proof (induction ord p src st and ord p es st rule: prepare_node_prepare_entries.induct)
  case (1 ord p src st)
  obtain b w where st: "st = (b, w)" by (cases st)
  have "(case src of Some (File contents) \<Rightarrow> prepare_file ord p contents st
      | Some (Directory es) \<Rightarrow> prepare_entries ord p (sort_key fst es) st | _ \<Rightarrow> Inr st) = Inr st"
    if "db_configured (fst st)"
  proof (cases src)
    case (Some x)
    then show ?thesis
      using "1.prems" "1.IH" [OF _ Some] that st
      by (cases x) (simp_all add: prepare_file_def all_known_def)
  qed simp
  then show ?case using "1.prems"(1) unfolding st by (simp add: prepare_node.simps [of ord p src "(b, w)"])
next
  case (3 ord p n x es st)
  then show ?case by (auto simp: all_known_def)
qed simp

section \<open>Properties\<close>

text \<open>C29. What was learnt is found: after a new file of printed facts was prepared on an empty
  cache, a query for any words returns exactly the facts of the file that are indexed under one of
  the words, each with the synonyms that the disk holds for its words; whatever order the hashed sets
  and directories have, and whatever tagger puts tags to the words.\<close>

theorem learnt_facts_are_found:
  assumes "db_configured b" "good_order ord" "good_order ord'" "\<forall>l. set (visit l) = set l" "total_pos gp"
    and "path_filename p \<noteq> []" "um_find (files b) p = None" "wdisk w0 = []" "fact_trees xs" "xs \<noteq> []"
  shows "\<exists>b' w' ys g'. prepare ord p (Some (File (printed xs))) (b, w0) = Inr (b', w')
    \<and> find_by_words visit ord' gp b' (wdisk w') [] ws g = Inr (0, ys, g')
    \<and> (\<lambda>y. bare (fact_obj y)) ` set ys = (\<lambda>x. bare (insert_synonyms b' (wdisk w') x)) `
        {x \<in> set xs. \<not> is_synonym x \<and> (\<exists>w \<in> set ws. key_of_text (wtext w) \<in> set (fact_keys x))}"
proof -
  obtain d where d: "read_xml_fact_file b p (printed xs) diskdb_new = Inr (0, d)" "storable d"
      "\<And>key. stored_facts d key = prepare_words ` {x \<in> set xs. \<not> is_synonym x \<and> key \<in> set (fact_keys x)}"
    using read_printed_file [OF assms(1,6,9,10)] by blast
  let ?b = "b\<lparr>files := um_insert p (length (printed xs)) (files b)\<rparr>" and ?dk = "fst (to_disk ord b [] ([], d))"
  let ?w = "suspend ?b (w0\<lparr>wdisk := ?dk\<rparr>)"
  have p: "prepare ord p (Some (File (printed xs))) (b, w0) = Inr (?b, ?w)"
    using assms(1,7,8) d(1) by (simp add: prepare_def prepare_node.simps prepare_file_def)
  obtain e where e: "index_words ord' ?b ws ?dk (set_add_synonyms False diskdb_new) = Inr e"
      "fact_obj ` set (facts e) = (\<Union>w \<in> set ws. stored_facts d (key_of_text (wtext w)))"
    using index_words_stored [OF assms(1-3) d(2), of "um_insert p (length (printed xs)) (files b)" ws
        "set_add_synonyms False diskdb_new"]
    by (auto simp: set_add_synonyms_def diskdb_new_def)
  let ?l = "map (\<lambda>x. x\<lparr>fact_obj := insert_synonyms ?b ?dk (fact_obj x)\<rparr>) (copy_facts_to visit e [])"
  obtain ys g' where ys: "tag_facts gp ?l (set_verbose False g) = Inr (ys, g')"
    using tag_facts_total [OF assms(5)] by blast
  have "find_by_words visit ord' gp ?b ?dk [] ws g = Inr (0, ys, set_verbose (is_verbose g) g')"
    using assms(1) e(1) ys by (simp add: find_by_words_def finish_facts_def)
  moreover have "(\<lambda>y. bare (fact_obj y)) ` set ys = (\<lambda>y. bare (insert_synonyms ?b ?dk y)) ` (fact_obj ` set (facts e))"
  proof -
    have "set (map (\<lambda>y. bare (fact_obj y)) ys) = set (map (\<lambda>y. bare (fact_obj y)) ?l)"
      by (simp only: tag_facts_bare [OF ys])
    then show ?thesis using assms(4) by (simp add: copy_facts_to_def image_image comp_def)
  qed
  moreover have "(\<lambda>y. bare (insert_synonyms ?b ?dk y)) ` (fact_obj ` set (facts e))
      = (\<lambda>x. bare (insert_synonyms ?b ?dk x)) `
        {x \<in> set xs. \<not> is_synonym x \<and> (\<exists>w \<in> set ws. key_of_text (wtext w) \<in> set (fact_keys x))}"
    unfolding e(2) d(3) by (force simp: image_UN image_image insert_synonyms_prepare)
  ultimately show ?thesis using p by (intro exI [of _ ?b] exI [of _ ?w]) auto
qed


definition id_facts :: "xml_obj list" where
  "id_facts = map (\<lambda>ps. fact_obj (simple_fact ps))
    [[(''verb'', ''sees''), (''subject'', ''the Cat'')], [(''verb'', ''barks''), (''subject'', ''the Dog'')]]"

theorem learnt_facts_are_found_witness:
  "\<exists>b' w' ys g'. prepare remdups ''x/facts.xml'' (Some (File (printed id_facts))) (stored_db, \<lparr>wdisk = [], wcache = []\<rparr>) = Inr (b', w')
    \<and> find_by_words rev (rev \<circ> remdups) plain_pos b' (wdisk w') [] [new_word ''CAT''] plain_tagger = Inr (0, ys, g')
    \<and> (\<lambda>y. bare (fact_obj y)) ` set ys = {bare (insert_synonyms b' (wdisk w') (hd id_facts))}"
proof -
  have f: "fact_trees id_facts" unfolding fact_trees_def by code_simp
  have h: "db_configured stored_db" "path_filename ''x/facts.xml'' \<noteq> []" "um_find (files stored_db) ''x/facts.xml'' = None"
      "id_facts \<noteq> []"
    by code_simp+
  have t: "total_pos plain_pos" by (simp add: total_pos_def plain_pos_def)
  have "filter (\<lambda>x. \<not> is_synonym x \<and> (\<exists>w \<in> set [new_word ''CAT'']. key_of_text (wtext w) \<in> set (fact_keys x))) id_facts = [hd id_facts]"
    by code_simp
  then have "{x \<in> set id_facts. \<not> is_synonym x \<and> (\<exists>w \<in> set [new_word ''CAT'']. key_of_text (wtext w) \<in> set (fact_keys x))} = {hd id_facts}"
    by (metis empty_set list.simps(15) set_filter)
  then show ?thesis
    using learnt_facts_are_found [OF h(1) good_order_remdups good_order_rev _ t h(2,3) _ f h(4),
        of rev "\<lparr>wdisk = [], wcache = []\<rparr>" "[new_word ''CAT'']" plain_tagger]
    by simp
qed

text \<open>C30. Preparing is idempotent: while the files and directories do not change, a second
  \<^verbatim>\<open>prepare\<close> changes neither the database nor anything on the disk. The hypotheses say that a path
  names one file and that no visited file was recorded with another size before.\<close>

theorem prepare_again:
  assumes "prepare ord p src (b, w) = Inr (b1, w1)" "db_configured b"
    and "\<forall>(q, n) \<in> set (visited_opt p src). \<forall>(q', n') \<in> set (visited_opt p src). q = q' \<longrightarrow> n = n'"
    and "\<forall>(q, n) \<in> set (visited_opt p src). um_find (files b) q \<in> {None, Some n}"
  shows "prepare ord p src (b1, w1) = Inr (b1, w1)"
proof -
  let ?V = "set (visited_opt p src)"
  have l: "learns ?V b b1" "suspend b1 w1 = w1"
    using prepare_learns(1) [of "(b, w)" ord p src b1 w1] assms(1,2) by (simp_all add: prepare_def)
  have "um_find (files b1) q = Some n" if q: "(q, n) \<in> ?V" for q n
  proof -
    obtain m where m: "um_find (files b1) q = Some m" using l(1) q by (auto simp: learns_def)
    then have "um_find (files b) q = Some m \<or> (q, m) \<in> ?V" using l(1) by (simp add: learns_def)
    then show ?thesis using assms(3,4) q m by fastforce
  qed
  then have "all_known ?V b1" by (auto simp: all_known_def)
  then show ?thesis using prepare_known(1) [of "(b1, w1)" p src ord] l(2) by (simp add: prepare_def)
qed

definition source_example :: source_file where
  "source_example = Directory [(''b.xml'', File (printed id_facts)), (''notes.txt'', File ''...''),
    (''a.xml'', Directory [(''c.xml'', File [])])]"

theorem prepare_again_witness:
  "\<exists>b1 w1. prepare remdups ''facts'' (Some source_example) (stored_db, \<lparr>wdisk = [], wcache = []\<rparr>) = Inr (b1, w1)
    \<and> prepare remdups ''facts'' (Some source_example) (b1, w1) = Inr (b1, w1)
    \<and> files b1 = [(''facts/a.xml/c.xml'', 0), (''facts/b.xml'', length (printed id_facts))]"
proof -
  let ?st = "(stored_db, \<lparr>wdisk = [], wcache = []\<rparr>)"
  have "case prepare remdups ''facts'' (Some source_example) ?st of
      Inl err \<Rightarrow> False
    | Inr (b1, w1) \<Rightarrow> files b1 = [(''facts/a.xml/c.xml'', 0), (''facts/b.xml'', length (printed id_facts))]"
    by code_simp
  then obtain b1 w1 where p: "prepare remdups ''facts'' (Some source_example) ?st = Inr (b1, w1)"
      "files b1 = [(''facts/a.xml/c.xml'', 0), (''facts/b.xml'', length (printed id_facts))]"
    by (auto split: sum.splits)
  have v: "visited_opt ''facts'' (Some source_example) = [(''facts/b.xml'', length (printed id_facts)), (''facts/a.xml/c.xml'', 0)]"
    by code_simp
  have "db_configured stored_db" "files stored_db = []" by code_simp+
  then show ?thesis using prepare_again [OF p(1)] p v by simp
qed

text \<open>The size of a file is recorded once and for all: after a file has changed its size, every
  later \<^verbatim>\<open>prepare\<close> finds the old size, reads the file again and records nothing.\<close>

theorem changed_file_is_read_again:
  assumes "um_find (files b) p = Some n" "length contents \<noteq> n" "db_configured b"
    and "prepare ord p (Some (File contents)) (b, w) = Inr (b1, w1)"
  shows "um_find (files b1) p = Some n \<and>
    (\<exists>r d. read_xml_fact_file b p contents diskdb_new = Inr (r, d) \<and> wdisk w1 = fst (to_disk ord b [] (wdisk w, d)))"
  using assms
  by (auto simp: prepare_def prepare_node.simps prepare_file_def um_find_insert split: sum.splits)

theorem changed_file_is_read_again_witness:
  "\<exists>b1 w1. prepare remdups ''a.xml'' (Some (File ''new'')) (stored_db\<lparr>files := [(''a.xml'', 0)]\<rparr>, \<lparr>wdisk = [], wcache = []\<rparr>) = Inr (b1, w1)
    \<and> um_find (files b1) ''a.xml'' = Some 0"
proof -
  let ?b = "stored_db\<lparr>files := [(''a.xml'', 0)]\<rparr>"
  have "case prepare remdups ''a.xml'' (Some (File ''new'')) (?b, \<lparr>wdisk = [], wcache = []\<rparr>) of Inl _ \<Rightarrow> False | Inr _ \<Rightarrow> True"
    by code_simp
  then obtain b1 w1 where p: "prepare remdups ''a.xml'' (Some (File ''new'')) (?b, \<lparr>wdisk = [], wcache = []\<rparr>) = Inr (b1, w1)"
    by (auto split: sum.splits)
  have "um_find (files ?b) ''a.xml'' = Some 0" "length ''new'' \<noteq> 0" "db_configured ?b" by code_simp+
  from changed_file_is_read_again [OF this p] p show ?thesis by blast
qed

text \<open>C31. Replacing texts by lists of synonyms loses no word: the words of a tree stay in their
  order, with synonyms between them. But the caches are not told: a node that has its words cached,
  as every fact from the index has, keeps reporting its words without the synonyms.\<close>

theorem synonyms_keep_words:
  assumes "db_configured b" "coherent x"
  shows "subseq (words_of x) (words_of (insert_synonyms b dk x))
    \<and> (cached_words x \<longrightarrow> fst (get_words (insert_synonyms b dk x)) = fst (get_words x))"
  using insert_synonyms_words [OF assms, of dk] prepare_words_cached [of x]
    prepare_words_cached [of "insert_synonyms b dk x"] insert_synonyms_sel [of b dk x]
  by (simp add: get_words_def Let_def)

definition synonym_disk :: disk where
  "synonym_disk = disk_put (get_path_of_synonyms stored_db ''Cat'') [''Cat'', ''kitten''] []"

theorem synonyms_keep_words_witness:
  "let x = prepare_words (hd id_facts); y = insert_synonyms stored_db synonym_disk x
   in words_of y = [''sees'', ''the'', ''Cat'', ''kitten''] \<and> subseq (words_of x) (words_of y)
    \<and> map wtext (fst (get_words y)) = [''sees'', ''the'', ''Cat'']"
proof -
  let ?x = "prepare_words (hd id_facts)"
  let ?y = "insert_synonyms stored_db synonym_disk ?x"
  have h: "db_configured stored_db" "coherent ?x" "cached_words ?x"
    "words_of ?y = [''sees'', ''the'', ''Cat'', ''kitten'']"
    "map wtext (fst (get_words ?x)) = [''sees'', ''the'', ''Cat'']"
    by code_simp+
  show ?thesis using synonyms_keep_words [OF h(1,2), of synonym_disk] h by (simp add: Let_def)
qed

end
