(* ===== verification/ParserRun.thy ===== *)
theory ParserRun
  imports Parser2012 Database
begin

text \<open>
  What \<^verbatim>\<open>parser::parse\<close> guarantees as a whole: the sentences that it leaves behind and the ways in which
  it can fail. An engine on which nothing matches leaves the rule tables
  without effect, so that the whole way of a text can be followed on an example.
\<close>

section \<open>Lemmas: failures\<close>

text \<open>Only the searches that fill a match object throw when their expression is malformed; the other searches
  and the replacements catch it. These are the expressions of those searches, in the order of the code. They are
  constants of the program, none is made from a word of the user; that the engine accepts them is a fact about these
  fourteen strings. What it says of other expressions does not matter.\<close>

definition parser_expressions :: "string list" where
  "parser_expressions =
    [''properties:(.*?):'',
     pattern ''^(.*?)%s(von.*?)$'',
     pattern ''^(.+?)%s+?((?:gehoert zu)|(?:liegt in)|(?:%s?ist in)|(?:%s?ist .*?teil von))%s+?(.+?)$'',
     pattern ''^(.+?)%s+?(gehoert)%s+?(.+?)$'',
     pattern ''^(.+?)%s+?(beinhaltet)%s+?(.+?)$'',
     ''^(.*?) hat (.*?)((?:[?].*?)?)$'',
     pattern ''^(.*?) hat (?:der|die|das)%s([^A-Z]*?[A-Z][^%s]+?)%s(.*?)$'',
     pattern ''^(ist|war|sind|waren)%s'',
     pattern ''(^|%s)(laut|nach)%s(den|dem|der|des)%s'',
     ''(was heisst) ([a-z])'',
     pattern ''%s(|d|m|k)ein%s([a-z]+?en)(%s|$)'',
     pattern ''%szu[mr]%s+([a-zA-Z_]+)%s+([a-zA-Z_]+)(<ws>?[,.?!]*?<ws>?)$'',
     pattern ''%szu%s([a-z]+?en)%s'',
     pattern ''^%s*?(der|die|das|den|dem|dessen)%s([a-z]+?)%s'']"

definition expressions_ok :: "rx \<Rightarrow> bool" where
  "expressions_ok r \<longleftrightarrow> list_all (rx_valid r) parser_expressions"

lemma expressions [simp]:
  assumes "expressions_ok r"
  shows "rx_valid r ''properties:(.*?):''"
    "rx_valid r (pattern ''^(.*?)%s(von.*?)$'')"
    "rx_valid r (pattern ''^(.+?)%s+?((?:gehoert zu)|(?:liegt in)|(?:%s?ist in)|(?:%s?ist .*?teil von))%s+?(.+?)$'')"
    "rx_valid r (pattern ''^(.+?)%s+?(gehoert)%s+?(.+?)$'')"
    "rx_valid r (pattern ''^(.+?)%s+?(beinhaltet)%s+?(.+?)$'')"
    "rx_valid r ''^(.*?) hat (.*?)((?:[?].*?)?)$''"
    "rx_valid r (pattern ''^(.*?) hat (?:der|die|das)%s([^A-Z]*?[A-Z][^%s]+?)%s(.*?)$'')"
    "rx_valid r (pattern ''^(ist|war|sind|waren)%s'')"
    "rx_valid r (pattern ''(^|%s)(laut|nach)%s(den|dem|der|des)%s'')"
    "rx_valid r ''(was heisst) ([a-z])''"
    "rx_valid r (pattern ''%s(|d|m|k)ein%s([a-z]+?en)(%s|$)'')"
    "rx_valid r (pattern ''%szu[mr]%s+([a-zA-Z_]+)%s+([a-zA-Z_]+)(<ws>?[,.?!]*?<ws>?)$'')"
    "rx_valid r (pattern ''%szu%s([a-z]+?en)%s'')"
    "rx_valid r (pattern ''^%s*?(der|die|das|den|dem|dessen)%s([a-z]+?)%s'')"
  using assms by (simp_all only: expressions_ok_def parser_expressions_def list.pred_inject simp_thms)

lemma valid_find_m: "rx_valid r e \<Longrightarrow> regex_find_m r s e \<noteq> Inl err" "rx_valid r e \<Longrightarrow> regex_ifind_m r s e \<noteq> Inl err"
  by (simp_all add: regex_find_m_def regex_ifind_m_def)

lemma with_match_valid:
  assumes "rx_valid r e"
  shows "with_match (regex_find_m r s e) a f = Inl err \<longleftrightarrow> (\<exists>m. regex_find_m r s e = Inr (Some m) \<and> f m = Inl err)"
    "with_match (regex_ifind_m r s e) a f = Inl err \<longleftrightarrow> (\<exists>m. regex_ifind_m r s e = Inr (Some m) \<and> f m = Inl err)"
  using valid_find_m [OF assms] by (auto simp: with_match_Inl)

lemma and_then_no_error: "(\<And>err. x \<noteq> Inl err) \<Longrightarrow> (\<And>a err. f a \<noteq> Inl err) \<Longrightarrow> and_then x f \<noteq> Inl err"
  by (auto simp: and_then_Inl)

text \<open>When these expressions are well formed, every stage but the one that looks for opposites succeeds.\<close>

lemma clean_input_total: "expressions_ok r \<Longrightarrow> clean_input r stale s \<noteq> Inl err"
  unfolding clean_input_def Let_def
  by (rule and_then_no_error) (auto simp: with_match_valid split: if_splits)

lemma remove_adverbs_total: "expressions_ok r \<Longrightarrow> remove_adverbs r stale ta \<noteq> Inl err"
  by (auto simp: remove_adverbs_def with_match_valid split: prod.splits)

lemma relation_total: "expressions_ok r \<Longrightarrow> relation r stale rel a b \<noteq> Inl err"
  unfolding relation_def by (auto simp: and_then_Inl remove_adverbs_total split: prod.splits)

lemma find_relations_total: "expressions_ok r \<Longrightarrow> find_relations r stale s \<noteq> Inl err"
  unfolding find_relations_def
  by (auto simp: and_then_Inl with_match_valid relation_total split: if_splits)

lemma find_property_total: "expressions_ok r \<Longrightarrow> find_property r q s \<noteq> Inl err"
  by (auto simp: find_property_def with_match_valid split: if_splits)

lemma simplify_first_total: "expressions_ok r \<Longrightarrow> simplify_first r stale lng fs s \<noteq> Inl err"
  unfolding simplify_first_def Let_def
  by (auto simp: and_then_Inl keep_verb_def according_to_def with_match_valid find_property_total
      find_relations_total split: if_splits)

lemma simplify_wording_total: "expressions_ok r \<Longrightarrow> simplify_wording r s \<noteq> Inl err"
  unfolding simplify_wording_def Let_def
  by (auto simp: and_then_Inl upper_heisst_def upper_noun_verb_def with_match_valid)

lemma find_opposites_error: "find_opposites r s = Inl err \<Longrightarrow> err = Bad_index"
  by (auto simp: find_opposites_def split: if_splits list.splits)

lemma simplify_negation_error: "expressions_ok r \<Longrightarrow> simplify_negation r lng s = Inl err \<Longrightarrow> err = Bad_index"
  unfolding simplify_negation_def Let_def
  by (auto simp: and_then_Inl join_zum_def with_match_valid dest: find_opposites_error split: if_splits)

lemma other_verb_total: "total_pos gp \<Longrightarrow> other_verb gp v ws b seen tg \<noteq> Inl err"
  by (induction ws arbitrary: b seen tg) (auto simp: total_pos_def split: sum.splits if_splits)

lemma each_clause_total:
  "(\<And>c st err. c \<in> set cs \<Longrightarrow> f c st \<noteq> Inl err) \<Longrightarrow> each_clause f cs st \<noteq> Inl err"
  by (induction cs arbitrary: st) (auto split: sum.splits)

lemma zu_clause_total: "expressions_ok r \<Longrightarrow> total_pos gp \<Longrightarrow> zu_clause r gp c (s, tg) \<noteq> Inl err"
  unfolding zu_clause_def Let_def
  by (simp add: with_match_valid) (auto simp: other_verb_total split: sum.split)

lemma zu_clauses_total: "expressions_ok r \<Longrightarrow> total_pos gp \<Longrightarrow> zu_clauses r gp st \<noteq> Inl err"
  unfolding zu_clauses_def Let_def case_prod_beta
  by (rule each_clause_total) (metis surj_pair zu_clause_total)

lemma relative_clause_total:
  assumes "expressions_ok r" "total_pos gp"
  shows "relative_clause r gp c (s, tg) \<noteq> Inl err"
proof
  assume "relative_clause r gp c (s, tg) = Inl err"
  then obtain m err' where "(case gp (capture 2 m) tg of Inl err \<Rightarrow> Inl (Bad_expression err)
      | Inr (t, tg1) \<Rightarrow>
          if fst t = ''v'' \<or> length (split_compress is_space c) < 3
          then Inr (regex_replace r s (pattern ''%s*?(der|die|das|den|dem|dessen)%s('' @ capture 2 m @ pattern '')%s'') (pattern '' _%1_ %2 ''), tg1)
          else Inr (regex_replace r s (pattern ''%s*?(der|die|das|den|dem|dessen)%s('' @ capture 2 m @ pattern '')%s'')
            (pattern '' %1%{%{%{questionword%}%}%} %2 ''), tg1)) = Inl err'"
    unfolding relative_clause_def Let_def prod.case with_match_valid [OF expressions(14) [OF assms(1)]] by blast
  then show False using assms(2) by (cases "gp (capture 2 m) tg") (auto simp: total_pos_def split: if_splits)
qed

lemma relative_clauses_total: "expressions_ok r \<Longrightarrow> total_pos gp \<Longrightarrow> relative_clauses r gp st \<noteq> Inl err"
  unfolding relative_clauses_def Let_def case_prod_beta
  by (rule each_clause_total) (metis surj_pair relative_clause_total)

lemma simplify_input_error:
  assumes "expressions_ok r" "total_pos gp" "simplify_input r gp stale lng fs st = Inl err"
  shows "err = Bad_index"
  using assms(3)
  by (auto simp: simplify_input_def and_then_Inl simplify_first_total [OF assms(1)]
      simplify_wording_total [OF assms(1)] zu_clauses_total [OF assms(1,2)] relative_clauses_total [OF assms(1,2)]
      dest: simplify_negation_error [OF assms(1)] split: prod.splits)

lemma simplify_all_error:
  "(\<And>st err. f st = Inl err \<Longrightarrow> err = e) \<Longrightarrow> simplify_all f ss tg = Inl err \<Longrightarrow> err = e"
  by (induction ss arbitrary: tg) (auto simp: and_then_Inl split: prod.splits)

lemma tag_all_total: "total_pos gp \<Longrightarrow> tag_all gp ws tg \<noteq> Inl err"
  by (induction ws arbitrary: tg err) (auto simp: total_pos_def split: sum.splits)

lemma new_sentence_total: "total_pos gp \<Longrightarrow> new_sentence r gp s tg \<noteq> Inl err"
  by (auto simp: new_sentence_def Let_def tag_all_total split: sum.splits)

lemma make_all_total: "total_pos gp \<Longrightarrow> make_all r gp ss tg \<noteq> Inl err"
  by (induction ss arbitrary: tg err) (auto simp: and_then_Inl new_sentence_total split: sum.splits prod.splits)

lemma sentence_parse_error:
  assumes "total_pos gp" "sentence_parse r ord gp s st = Inl err"
  shows "\<exists>e. err = Xml_failed e"
proof -
  have "prepare_tags gp x tg \<noteq> Inl e" for x tg e
    using prepare_tags_total [OF assms(1), of x tg] by auto
  then show ?thesis
    using assms(2) by (auto simp: sentence_parse_def Let_def split: sum.splits option.splits prod.splits)
qed

lemma parse_all_error:
  "(\<And>x st err. f x st = Inl err \<Longrightarrow> \<exists>e. err = Xml_failed e) \<Longrightarrow> parse_all f xs st = Inl err
    \<Longrightarrow> \<exists>e. err = Sentence_failed (Xml_failed e)"
  by (induction xs arbitrary: st) (fastforce simp: and_then_Inl split: sum.splits prod.splits)+

text \<open>The parts of a cleaned text.\<close>

lemma clean_input_ends:
  "clean_input r stale s = Inr c \<Longrightarrow> c = [] \<or> hd c \<noteq> CHR ''@'' \<and> last c \<noteq> CHR ''@''"
  using trim_if_shape [of "is_any_of ''@''"]
  by (auto simp: clean_input_def Let_def and_then_Inr is_any_of_def)

lemma sentence_texts_clean:
  assumes "clean_input r stale s = Inr c" "x \<in> set (sentence_texts c)"
  shows "CHR ''@'' \<notin> set x \<and> (x = [] \<longrightarrow> c = [])"
  using clean_input_ends [OF assms(1)] split_compress_clean [OF assms(2) [unfolded sentence_texts_def]]
    split_compress_nonempty [of c "is_any_of ''@''"] assms(2)
  by (auto simp: sentence_texts_def is_any_of_def)

lemma make_all_inputs: "make_all r gp ss tg = Inr (xs, tg') \<Longrightarrow> map sn_input xs = ss"
proof (induction ss arbitrary: tg xs tg')
  case (Cons s ss)
  then obtain x tg1 ys where x: "new_sentence r gp s tg = Inr (x, tg1)" and ys: "make_all r gp ss tg1 = Inr (ys, tg')"
    and "xs = x # ys" by (auto simp: and_then_Inr split: sum.splits)
  with Cons.IH [OF ys] new_sentence_eq(1) [OF x] show ?case by simp
qed simp

lemma make_all_words: "make_all r gp ss tg = Inr (xs, tg') \<Longrightarrow> map sn_words xs = map (sentence_words r) ss"
proof (induction ss arbitrary: tg xs tg')
  case (Cons s ss)
  then obtain x tg1 ys where x: "new_sentence r gp s tg = Inr (x, tg1)" and ys: "make_all r gp ss tg1 = Inr (ys, tg')"
    and "xs = x # ys" by (auto simp: and_then_Inr split: sum.splits)
  with Cons.IH [OF ys] new_sentence_eq(2) [OF x] show ?case by simp
qed simp

text \<open>\<open>in_turn f xs ys st st'\<close>: \<open>f\<close> takes the elements of \<open>xs\<close> in their order to the elements of \<open>ys\<close>, each
  from the state that the one before it left, beginning with \<open>st\<close> and ending with \<open>st'\<close>.\<close>

definition in_turn :: "('x \<Rightarrow> 's \<Rightarrow> 'e + ('y \<times> 's)) \<Rightarrow> 'x list \<Rightarrow> 'y list \<Rightarrow> 's \<Rightarrow> 's \<Rightarrow> bool" where
  "in_turn f xs ys st st' \<longleftrightarrow> length ys = length xs
    \<and> (\<exists>sts. length sts = Suc (length xs) \<and> sts ! 0 = st \<and> sts ! length xs = st'
        \<and> (\<forall>i < length xs. f (xs ! i) (sts ! i) = Inr (ys ! i, sts ! Suc i)))"

lemma in_turn_Nil [simp]: "in_turn f [] [] st st"
  unfolding in_turn_def by (auto intro: exI [of _ "[st]"])

lemma in_turn_Cons:
  assumes "f x st = Inr (y, st1)" "in_turn f xs ys st1 st'"
  shows "in_turn f (x # xs) (y # ys) st st'"
proof -
  obtain sts where sts: "length sts = Suc (length xs)" "sts ! 0 = st1" "sts ! length xs = st'"
    "\<forall>i < length xs. f (xs ! i) (sts ! i) = Inr (ys ! i, sts ! Suc i)" and l: "length ys = length xs"
    using assms(2) unfolding in_turn_def by blast
  have "f ((x # xs) ! i) ((st # sts) ! i) = Inr ((y # ys) ! i, (st # sts) ! Suc i)" if "i < length (x # xs)" for i
    using that assms(1) sts by (cases i) simp_all
  then show ?thesis using sts l unfolding in_turn_def by (intro conjI exI [of _ "st # sts"]) simp_all
qed

lemma simplify_all_in_turn:
  "simplify_all f ss tg = Inr (ts, tg') \<Longrightarrow> in_turn (\<lambda>s tg. f (s, tg)) ss ts tg tg'"
  by (induction ss arbitrary: tg ts) (auto simp: and_then_Inr intro!: in_turn_Cons)

lemma make_all_in_turn: "make_all r gp ss tg = Inr (xs, tg') \<Longrightarrow> in_turn (new_sentence r gp) ss xs tg tg'"
  by (induction ss arbitrary: tg xs) (auto simp: and_then_Inr intro!: in_turn_Cons split: sum.splits)

lemma parse_all_in_turn: "parse_all f xs st = Inr (ys, st') \<Longrightarrow> in_turn f xs ys st st'"
  by (induction xs arbitrary: st ys) (auto simp: and_then_Inr intro!: in_turn_Cons split: sum.splits)

lemma parser_parse_steps:
  assumes "parser_parse r ord gp stale fs input p (tg, g) = Inr (p', st')" "pr_ready p"
  obtains clean simplified tg1 made tg2 parsed where
    "clean_input r stale input = Inr clean"
    "simplify_all (simplify_input r gp stale (lang p) fs) (sentence_texts clean) tg = Inr (simplified, tg1)"
    "make_all r gp simplified tg1 = Inr (made, tg2)"
    "parse_all (sentence_parse r ord gp) made (tg2, g) = Inr (parsed, st')"
    "p' = p\<lparr>pr_raw := input, pr_clean := clean, pr_simplified := simplified,
            pr_extended := simplified, pr_sentences := parsed\<rparr>"
  using assms unfolding parser_parse_def pr_ready_def by (auto simp: and_then_Inr)

section \<open>Properties\<close>

text \<open>C4. When the fourteen expressions of the searches that can throw are well formed and the tagger never fails,
  parsing a text fails in at most two ways, whatever other expressions the engine rejects: the index behind the end of a list that is read when opposites are looked for, or reading
  back the XML that was printed for a sentence.\<close>

theorem parser_errors:
  assumes "parser_parse r ord gp stale fs input p st = Inl err" "expressions_ok r" "total_pos gp"
  shows "err = Bad_index \<or> (\<exists>e. err = Sentence_failed (Xml_failed e))"
proof -
  obtain tg g where st: "st = (tg, g)" by (cases st)
  note ok = clean_input_total [OF assms(2)] make_all_total [OF assms(3)]
  consider ss where "simplify_all (simplify_input r gp stale (lang p) fs) ss tg = Inl err"
    | xs st1 where "parse_all (sentence_parse r ord gp) xs st1 = Inl err"
    using assms(1) unfolding parser_parse_def st by (auto simp: and_then_Inl ok split: if_splits)
  then show ?thesis
  proof cases
    case 1
    then have "err = Bad_index"
      by (rule simplify_all_error [rotated]) (rule simplify_input_error [OF assms(2,3)])
    then show ?thesis ..
  next
    case 2
    then have "\<exists>e. err = Sentence_failed (Xml_failed e)"
      by (rule parse_all_error [rotated]) (rule sentence_parse_error [OF assms(3)])
    then show ?thesis ..
  qed
qed

text \<open>C3. A parser that is not configured or has no tagger or no grammar is left as it is. Otherwise the text is
  cleaned and cut into parts, none of them empty unless the whole text is. The parts are rewritten in their order, each
  into the simplified part at the same place, with what the tagger learnt from the parts before it; the extended parts
  are the same. From the simplified parts the sentences are made in their order, and then parsed in their order, one to
  each part, with the tagger and the grammar as the sentence before left them. Parsing leaves the sentence its
  simplified part as its text, the words of it, and a mode that is decided.\<close>

theorem parser_result:
  assumes "parser_parse r ord gp stale fs input p st = Inr (p', st')"
  shows "if pr_ready p then
      pr_raw p' = input
      \<and> clean_input r stale input = Inr (pr_clean p')
      \<and> ([] \<in> set (sentence_texts (pr_clean p')) \<longrightarrow> pr_clean p' = [])
      \<and> (\<exists>made tg1 tg2.
           in_turn (\<lambda>s tg. simplify_input r gp stale (lang p) fs (s, tg))
             (sentence_texts (pr_clean p')) (pr_simplified p') (fst st) tg1
           \<and> pr_extended p' = pr_simplified p'
           \<and> in_turn (new_sentence r gp) (pr_extended p') made tg1 tg2
           \<and> in_turn (sentence_parse r ord gp) made (pr_sentences p') (tg2, snd st) st')
      \<and> length (pr_simplified p') = length (sentence_texts (pr_clean p'))
      \<and> map sn_input (pr_sentences p') = pr_simplified p'
      \<and> map sn_words (pr_sentences p') = map (sentence_words r) (pr_simplified p')
      \<and> sn_mode ` set (pr_sentences p') \<subseteq> {QUESTION, STATEMENT}
    else p' = p \<and> st' = st"
proof (cases "pr_ready p")
  case True
  obtain tg g where st: "st = (tg, g)" by (cases st)
  from parser_parse_steps [OF assms [unfolded st] True]
  obtain clean simplified tg1 made tg2 parsed where c: "clean_input r stale input = Inr clean"
    "simplify_all (simplify_input r gp stale (lang p) fs) (sentence_texts clean) tg = Inr (simplified, tg1)"
    "make_all r gp simplified tg1 = Inr (made, tg2)"
    "parse_all (sentence_parse r ord gp) made (tg2, g) = Inr (parsed, st')"
    and p': "p' = p\<lparr>pr_raw := input, pr_clean := clean, pr_simplified := simplified,
            pr_extended := simplified, pr_sentences := parsed\<rparr>" .
  note turns = simplify_all_in_turn [OF c(2)] make_all_in_turn [OF c(3)] parse_all_in_turn [OF c(4)]
  have "\<exists>made tg1 tg2.
      in_turn (\<lambda>s tg. simplify_input r gp stale (lang p) fs (s, tg))
        (sentence_texts (pr_clean p')) (pr_simplified p') (fst st) tg1
      \<and> pr_extended p' = pr_simplified p'
      \<and> in_turn (new_sentence r gp) (pr_extended p') made tg1 tg2
      \<and> in_turn (sentence_parse r ord gp) made (pr_sentences p') (tg2, snd st) st'"
    using turns by (simp add: p' st) blast
  moreover have "[] \<in> set (sentence_texts clean) \<Longrightarrow> clean = []" using sentence_texts_clean [OF c(1)] by blast
  ultimately show ?thesis
    using True c(1) simplify_all_length [OF c(2)] parse_all_sentences [OF c(4)] make_all_inputs [OF c(3)]
      make_all_words [OF c(3)] parser_parse_sentences [OF assms True]
    by (simp only: if_True) (auto simp: p' simp del: ex_simps)
next
  case False
  then show ?thesis using assms by (auto simp: parser_parse_def pr_ready_def split: prod.splits if_splits)
qed

section \<open>Examples\<close>

text \<open>An engine that rejects an open bracket, and on which only the search for the word finds something.\<close>

definition opposite_rx :: rx where
  "opposite_rx = \<lparr>rx_valid = \<lambda>e. e \<noteq> ''('',
    rx_search = \<lambda>i e s. if e = '' opposite '' \<and> sublist e s then Some [e] else None, rx_subst = \<lambda>i e r s. s\<rparr>"

definition way_parser :: parser where
  "way_parser =
    \<lparr>verbose = False, buffered = False, lang = ''de'', path = ''.'', pr_raw = [], pr_clean = [],
     pr_simplified = [], pr_extended = [], pr_sentences = [], pr_tagger = True, pr_grammar = True\<rparr>"

definition no_files :: parser_files where
  "no_files = \<lparr>remove_words = None, male_history = None, female_history = None\<rparr>"

definition no_stale :: stale where
  "no_stale n = []"

text \<open>The second of the engines is that of the tagger's example.\<close>

definition keeps_texts :: "rx \<Rightarrow> bool" where
  "keeps_texts r \<longleftrightarrow> (\<forall>e. e \<noteq> ''('' \<longrightarrow> rx_valid r e) \<and> (\<forall>i e t s. rx_subst r i e t s = s)
    \<and> (\<forall>i e s. e \<noteq> '' opposite '' \<longrightarrow> rx_search r i e s = None)"

lemma keeps_texts: "keeps_texts no_rx" "keeps_texts opposite_rx"
  by (simp_all add: keeps_texts_def no_rx_def opposite_rx_def)

lemma keeps_simps:
  assumes "keeps_texts r"
  shows "regex_replace r s e t = s" "regex_ireplace r s e t = s"
    "e \<noteq> '' opposite '' \<Longrightarrow> regex_find r s e = False" "e \<noteq> '' opposite '' \<Longrightarrow> regex_ifind r s e = False"
    "e \<noteq> '' opposite '' \<Longrightarrow> e \<noteq> ''('' \<Longrightarrow> regex_find_m r s e = Inr None"
    "e \<noteq> '' opposite '' \<Longrightarrow> e \<noteq> ''('' \<Longrightarrow> regex_ifind_m r s e = Inr None"
  using assms
  by (simp_all add: keeps_texts_def regex_replace_def regex_ireplace_def regex_find_def regex_ifind_def
      regex_find_m_def regex_ifind_m_def)

lemma keeps_subst: "keeps_texts r \<Longrightarrow> subst r u = id"
  by (rule ext) (simp add: subst_def keeps_simps split: sub.split)

lemma keeps_substs: "keeps_texts r \<Longrightarrow> substs r us = id" "keeps_texts r \<Longrightarrow> substs_if b r us s = s"
proof -
  assume r: "keeps_texts r"
  show "substs r us = id" by (rule ext) (induction us, simp_all add: substs_def keeps_subst [OF r])
  then show "substs_if b r us s = s" by (simp add: substs_if_def)
qed

lemma keeps_first:
  assumes r: "keeps_texts r"
  shows "simplify_first r stale ''de'' no_files s = Inr (trim (trim ('' '' @ s @ '' '')))"
proof -
  have "simplify_opening r ''de'' s = s" "simplify_numbers r s = s" for s
    by (simp_all add: simplify_opening_def simplify_numbers_def keeps_substs [OF r])
  moreover have "keep_verb r s = Inr s" "judge r ''bad'' s = s" "judge r ''good'' s = s" for s
    by (simp_all add: keep_verb_def judge_def keeps_simps [OF r] with_match_def pattern_def)
  moreover have "simplify_fillers r ''de'' no_files s = trim (trim ('' '' @ s @ '' ''))" for s
    by (simp add: simplify_fillers_def keeps_substs [OF r] no_files_def)
  moreover have "according_to r stale s = Inr s" for s
    by (simp add: according_to_def keeps_simps [OF r] with_match_def pattern_def)
  moreover have "find_property r b s = Inr s" for b s
    by (simp add: find_property_def keeps_simps [OF r] with_match_def pattern_def)
  moreover have "find_relations r stale s = Inr s" for s
    by (simp add: find_relations_def keeps_simps [OF r] with_match_def pattern_def and_then_def keeps_substs [OF r])
  ultimately show ?thesis by (simp add: simplify_first_def and_then_def keeps_substs [OF r] Let_def)
qed

lemma keeps_wording:
  assumes r: "keeps_texts r"
  shows "simplify_wording r s = Inr s"
proof -
  have "upper_heisst r s = Inr s" "upper_noun_verb r s = Inr s" "question_mark r s = s" for s
    by (simp_all add: upper_heisst_def upper_noun_verb_def question_mark_def question_starts_def
        keeps_simps [OF r] with_match_def pattern_def)
  then show ?thesis by (simp add: simplify_wording_def keeps_substs [OF r] and_then_def Let_def)
qed

lemma keeps_negation:
  assumes r: "keeps_texts r"
  shows "simplify_negation r ''de'' s = find_opposites r ('' '' @ s @ '' '')"
proof -
  have "join_zum r s = Inr s" for s
    by (simp add: join_zum_def keeps_simps [OF r] with_match_def pattern_def)
  then show ?thesis
    by (simp add: simplify_negation_def keeps_substs [OF r] and_then_def Let_def split: sum.split)
qed

lemma keeps_clauses:
  assumes r: "keeps_texts r"
  shows "zu_clauses r gp (s, tg) = Inr (str_replace s ''KOMMA'' '','', tg)"
    "relative_clauses r gp (s, tg) = Inr (str_replace s ''KOMMA'' '','', tg)"
proof -
  have "each_clause (zu_clause r gp) cs (s, tg) = Inr (s, tg)"
    "each_clause (relative_clause r gp) cs (s, tg) = Inr (s, tg)" for cs s
    by (induction cs)
      (simp_all add: zu_clause_def relative_clause_def keeps_simps [OF r] with_match_def pattern_def Let_def)
  then show "zu_clauses r gp (s, tg) = Inr (str_replace s ''KOMMA'' '','', tg)"
    "relative_clauses r gp (s, tg) = Inr (str_replace s ''KOMMA'' '','', tg)"
    by (simp_all add: zu_clauses_def relative_clauses_def)
qed

lemma keeps_end:
  assumes r: "keeps_texts r"
  shows "simplify_es r s = trim_left_if (\<lambda>c. is_space c \<or> is_any_of '','' c) s"
    "simplify_titles r ''de'' s = trim s" "simplify_end r no_files s = trim s"
proof -
  show "simplify_es r s = trim_left_if (\<lambda>c. is_space c \<or> is_any_of '','' c) s"
    by (simp add: simplify_es_def keeps_substs [OF r])
  have "simplify_years r ''de'' s = s" for s
    by (simp add: simplify_years_def keeps_substs [OF r] keeps_simps [OF r] pattern_def)
  then show "simplify_titles r ''de'' s = trim s"
    by (simp add: simplify_titles_def keeps_substs [OF r] Let_def)
  have "simplify_quotes r s = s" for s
    by (simp add: simplify_quotes_def keeps_substs [OF r] keeps_subst [OF r])
  then show "simplify_end r no_files s = trim s"
    by (simp add: simplify_end_def keeps_substs [OF r] keeps_simps [OF r] from_history_def no_files_def)
qed

lemma keeps_input:
  assumes r: "keeps_texts r"
  shows "simplify_input r gp stale ''de'' no_files (s, tg) =
    and_then (find_opposites r ('' '' @ trim (trim ('' '' @ s @ '' '')) @ '' '')) (\<lambda>s3.
      Inr (trim (str_replace (trim (trim_left_if (\<lambda>c. is_space c \<or> is_any_of '','' c) (str_replace s3 ''KOMMA'' '','')))
        ''KOMMA'' '',''), tg))"
  by (simp add: simplify_input_def and_then_def keeps_first [OF r] keeps_wording [OF r] keeps_negation [OF r]
      keeps_clauses [OF r] keeps_end [OF r])

lemma keeps_clean:
  assumes r: "keeps_texts r" and s: "\<not> str_contains s '' reasonof ''" "\<not> str_contains s ''learn:''"
  shows "clean_input r stale s = Inr (trim_if (is_any_of ''@'') (trim s))"
  using s by (simp add: clean_input_def keeps_substs [OF r] keeps_simps [OF r] with_match_def and_then_def)

theorem parser_errors_witness:
  "\<exists>err. parser_parse opposite_rx remdups plain_pos no_stale no_files ''opposite war'' way_parser (way_tagger, way_expanded) = Inl err
    \<and> (err = Bad_index \<or> (\<exists>e. err = Sentence_failed (Xml_failed e)))"
proof -
  let ?t = "''opposite war''"
  note r = keeps_texts(2)
  have "find_opposites opposite_rx ('' '' @ trim (trim ('' '' @ ?t @ '' '')) @ '' '') = Inl Bad_index"
    by code_simp
  then have i: "simplify_input opposite_rx plain_pos no_stale ''de'' no_files (?t, way_tagger) = Inl Bad_index"
    by (simp add: keeps_input [OF r] and_then_def)
  have "\<not> str_contains ?t '' reasonof ''" "\<not> str_contains ?t ''learn:''"
    "sentence_texts (trim_if (is_any_of ''@'') (trim ?t)) = [?t]" "pr_ready way_parser" "lang way_parser = ''de''"
    by code_simp+
  then have "parser_parse opposite_rx remdups plain_pos no_stale no_files ?t way_parser (way_tagger, way_expanded) = Inl Bad_index"
    using i by (simp add: parser_parse_def pr_ready_def keeps_clean [OF r] and_then_def)
  moreover have "expressions_ok opposite_rx" by code_simp
  moreover have "total_pos plain_pos" by (simp add: total_pos_def plain_pos_def)
  ultimately show ?thesis using parser_errors by metis
qed

text \<open>The sentence of the other example, as the parser gets it.\<close>

definition way_input :: sentence where
  "way_input = way_sentence\<lparr>sn_input := ''das neue war''\<rparr>"

lemma way_input_made: "new_sentence no_rx way_pos ''das neue war'' way_tagger = Inr (way_input, way_tagger)"
  by code_simp

lemma way_input_parsed:
  "\<exists>s' st'. sentence_parse no_rx remdups way_pos way_input (way_tagger, way_expanded) = Inr (s', st')"
proof -
  have "to_grammar_input no_rx (custom_names way_tagger) way_input = to_grammar_input no_rx (custom_names way_tagger) way_sentence"
    by (simp add: to_grammar_input_def way_input_def)
  then show ?thesis
    using way_parsed by (auto simp: sentence_parse_def Let_def split: prod.splits sum.splits option.splits)
qed

lemma way_parser_run:
  "\<exists>p' st'. parser_parse no_rx remdups way_pos no_stale no_files ''das neue war'' way_parser (way_tagger, way_expanded) = Inr (p', st')
    \<and> pr_simplified p' = [''das neue war'']"
proof -
  let ?t = "''das neue war''"
  note r = keeps_texts(1)
  have "find_opposites no_rx ('' '' @ trim (trim ('' '' @ ?t @ '' '')) @ '' '') = Inr '' das neue war ''"
    "trim (str_replace (trim (trim_left_if (\<lambda>c. is_space c \<or> is_any_of '','' c)
        (str_replace '' das neue war '' ''KOMMA'' '',''))) ''KOMMA'' '','') = ?t"
    by code_simp+
  then have "simplify_input no_rx way_pos no_stale ''de'' no_files (?t, way_tagger) = Inr (?t, way_tagger)"
    by (simp add: keeps_input [OF r] and_then_def)
  moreover have "\<not> str_contains ?t '' reasonof ''" "\<not> str_contains ?t ''learn:''"
    "sentence_texts (trim_if (is_any_of ''@'') (trim ?t)) = [?t]" "pr_ready way_parser" "lang way_parser = ''de''"
    by code_simp+
  ultimately show ?thesis
    using way_input_parsed
    by (auto simp: parser_parse_def pr_ready_def keeps_clean [OF r] and_then_def way_input_made)
qed

theorem parser_result_witness:
  "\<exists>p' st'. parser_parse no_rx remdups way_pos no_stale no_files ''das neue war'' way_parser (way_tagger, way_expanded) = Inr (p', st')
    \<and> pr_raw p' = ''das neue war'' \<and> map sn_words (pr_sentences p') = [[''das'', ''neue'', ''war'']]
    \<and> sn_mode ` set (pr_sentences p') \<subseteq> {QUESTION, STATEMENT}"
proof -
  obtain p' st' where p: "parser_parse no_rx remdups way_pos no_stale no_files ''das neue war'' way_parser (way_tagger, way_expanded) = Inr (p', st')"
    "pr_simplified p' = [''das neue war'']"
    using way_parser_run by blast
  have "pr_ready way_parser" "sentence_words no_rx ''das neue war'' = [''das'', ''neue'', ''war'']" by code_simp+
  then show ?thesis using parser_result [OF p(1)] p by simp
qed

end
