(* ===== verification/Predefined2012.thy ===== *)
theory Predefined2012
  imports Sentence
begin

text \<open>
  \<^verbatim>\<open>hal2012-predefined2012.cpp\<close>: the answers that need no knowledge. Greetings and thanks are
  answered before a sentence is parsed; a sentence to which no fact was found gets an answer that is
  drawn from a table, for a question after its question word.

  Parameters: \<open>hour\<close> is the hour of the local time and \<open>shuffle\<close> is \<^verbatim>\<open>random_shuffle\<close> as it runs
  in this call. The pointers to tagger and grammar are only compared with null (\<open>pd_tagger\<close>,
  \<open>pd_grammar\<close>).
\<close>

section \<open>State\<close>

record predefined = freehal_base +
  pd_tagger :: bool
  pd_grammar :: bool

definition pd_set_tagger :: "bool \<Rightarrow> predefined \<Rightarrow> predefined" where
  "pd_set_tagger t p = p\<lparr>pd_tagger := t\<rparr>"

definition pd_set_grammar :: "bool \<Rightarrow> predefined \<Rightarrow> predefined" where
  "pd_set_grammar g p = p\<lparr>pd_grammar := g\<rparr>"

type_synonym shuffle = "string list \<Rightarrow> string list"

definition first_of :: "shuffle \<Rightarrow> string list \<Rightarrow> string" where
  "first_of shuffle outputs = shuffle outputs ! 0"

section \<open>Tables\<close>

definition thanks_outputs :: "string list" where
  "thanks_outputs =
    [''Nichts zu danken.'',
     ''Gern geschehen.'',
     ''Nichts zu danken...'',
     ''Gern geschehen...'',
     ''Nichts zu danken!'',
     ''Gern geschehen!'']"

definition please_outputs :: "string list" where
  "please_outputs =
    [''Danke!'',
     ''Danke.'',
     ''Danke...'']"

definition ignorance_outputs :: "string list" where
  "ignorance_outputs =
    [''Da kann ich dir leider keine Antwort geben.'',
     ''Keine Ahnung.'',
     ''Keine Ahnung, das kann ich dir nicht sagen.'',
     ''Keine Ahnung, das kann ich nicht sagen.'',
     ''Tut mir leid, das weiss ich nicht.'',
     ''Sorry, Keine Ahnung.'',
     ''Tut mir leid, das kann ich nicht sagen.'',
     ''Hm, das kann ich nicht sagen.'',
     ''Hm, das kann ich dir nicht sagen.'',
     ''Das weiss ich nicht.'',
     ''Ich weiss das nicht, kannst du es mir sagen?'',
     ''Wenn ich das wuesste...'',
     ''Ich stehe gerade auf dem Schlauch.'',
     ''Ich stehe wohl gerade auf dem Schlauch.'',
     ''Diese Eingabe kann ich nicht verarbeiten.'',
     ''Auf diese Eingabe kann ich nicht antworten.'',
     ''Darauf kann ich noch nicht antworten.'',
     ''Das kann ich leider nicht beantworten.'',
     ''Fuer diese Eingabe fehlt mir das notwendige Wissen.'',
     ''Auf alles habe ich leider keine Antwort...'',
     ''Die Antwort auf diese Eingabe ist mir unbekannt.'',
     ''Zur Zeit kann ich diese Eingabe nicht beantworten.'',
     ''Momentan ist es mir nicht moeglich diese Eingabe zu beantworten.'',
     ''Mein Wissensspeicher ist begrenzt, diese Eingabe kann ich nicht verarbeiten.'',
     ''Fuer diese Eingabe ist keine Antwort in meinen Daten vorhanden.'',
     ''Tut mir leid, aber auf diese Eingabe habe ich keine korrekte Antwort. '',
     ''Das kann ich momentan noch nicht beantworten.'',
     ''Fuer diese Eingabe fehlt mir momentan das notwendige Wissen, um diese genau zu beantworten.'',
     ''Bitte nicht boese sein, aber auf diese Eingabe habe ich keine Antwort.'']"

definition yes_outputs :: "string list" where
  "yes_outputs =
    [''Wieso nicht?'',
     ''Ja.'',
     ''Ja, klar.'',
     ''Ja klar.'',
     ''Natuerlich.'']"

definition why_outputs :: "string list" where
  "why_outputs =
    [''Wieso nicht?'',
     ''Keine Ahnung.'',
     ''Keine Ahnung, das kann ich dir nicht sagen.'',
     ''Keine Ahnung, das kann ich nicht sagen.'',
     ''Hm, das kann ich nicht sagen.'',
     ''Hm, das kann ich dir nicht sagen.'',
     ''Das weiss ich nicht.'',
     ''Ich weiss das nicht, kannst du es mir sagen?'']"

definition hast_outputs :: "string list" where
  "hast_outputs =
    [''Nein, habe ich leider verliehen.'',
     ''Nein, ich bin nuechtern.'',
     ''Nein, ich habe eine Menge Freunde.'',
     ''Nein, ich habe viele Freunde und Bekannte.'']"

definition denial_outputs :: "string list" where
  "denial_outputs =
    [''Nein eigentlich so gut wie nie.'',
     ''Nein, ganz im Gegenteil.'',
     ''Nein, ganz und gar nicht.'',
     ''Nein, keinesfalls.'',
     ''Nein, ich sehe keinen Grund dazu .'',
     ''Nein, ich vertreibe mir mit chatten die Langeweile.'',
     ''Nein, tu ich sicher nicht.'',
     ''Nein, nicht direkt, darueber will ich nicht reden.'',
     ''Nein, nur ganz selten.'',
     ''Nicht falsch verstehen, aber ich denke nicht das dich das etwas angeht.'']"

definition statement_outputs :: "string list" where
  "statement_outputs =
    [''Ich habe dich leider nicht verstanden.'',
     ''Hmm.'',
     ''Ah.'',
     ''Aha.'',
     ''Hmm.'',
     ''Gut.'',
     ''Ja.'',
     ''Oh.'',
     ''Klar.'']"

section \<open>Answers before parsing\<close>

definition greeting_words :: string where
  "greeting_words = pattern
    (''(^|[,;.?!-]|%s)'' @ ''(hallo|hi|hey|mahlzeit|'' @ ''((gute|guten|schoene|schoenen)(.+)''
     @ ''(tag|morgen|abend|nachmittag|vormittag|nacht)))'' @ ''(%s|[,;.?!-]|$)'')"

definition try_greeting :: "rx \<Rightarrow> nat \<Rightarrow> string \<Rightarrow> string \<Rightarrow> string" where
  "try_greeting r hour input output =
    (if 0 < length output then output
     else if regex_ifind r input greeting_words then
       (if hour < 5 then ''Immer noch wach...? Es ist '' @ show_nat hour @ '' Uhr nachts!''
        else if hour < 12 then ''Guten Morgen!''
        else if hour < 17 then ''Guten Tag!''
        else ''Guten Abend!'')
     else output)"

definition try_thanks :: "rx \<Rightarrow> shuffle \<Rightarrow> string \<Rightarrow> string \<Rightarrow> string" where
  "try_thanks r shuffle input output =
    (if 0 < length output then output
     else
       (let output1 = (if regex_ifind r input ''(danke)'' \<and> length input < 10
                       then first_of shuffle thanks_outputs else output)
        in if regex_ifind r input ''(bitte)'' \<and> length input < 10
           then first_of shuffle please_outputs else output1))"

definition pd_ready :: "predefined \<Rightarrow> bool" where
  "pd_ready p \<longleftrightarrow> is_configured p \<and> pd_tagger p \<and> pd_grammar p"

definition get_predefined_output :: "rx \<Rightarrow> nat \<Rightarrow> shuffle \<Rightarrow> predefined \<Rightarrow> string \<Rightarrow> string" where
  "get_predefined_output r hour shuffle p input =
    (if \<not> pd_ready p then [] else try_thanks r shuffle input (try_greeting r hour input []))"

section \<open>Answers without a fact\<close>

definition ask_words :: string where
  "ask_words = pattern
    ''((%sja%s)|(%snein%s)|(%swas%s)|(%swer%s)|isunknown|(%swie%s)|(%swo%s)|(%swann%s)|(%swen%s)|(%swem%s)|(%swelch))''"

definition yes_words :: string where
  "yes_words = pattern ''((%sja%s)|(%snein%s))''"

definition why_words :: string where
  "why_words = pattern ''((%swarum%s)|(%swieso%s)|(%swes))''"

definition question_outputs :: "rx \<Rightarrow> string \<Rightarrow> string list" where
  "question_outputs r input =
    (let padded = '' '' @ input @ '' '' in
     if regex_ifind r padded ask_words then ignorance_outputs
     else if regex_ifind r padded yes_words then yes_outputs
     else if regex_ifind r padded why_words then why_outputs
     else
       replicate 20 ''Nein.'' @ replicate 5 ''Nein!'' @ replicate 5 ''Nein.,.''
       @ (if regex_ifind r padded (pattern ''(%shast%s)'') then hast_outputs else [])
       @ (if regex_ifind r padded (pattern ''(%smagst%s)'') then [''Nein, ich mag das nicht.''] else [])
       @ denial_outputs
       @ (if regex_ifind r padded (pattern ''(%sviel%s)'')
          then [''Nicht gerade wenig.'', ''Nicht mehr und nicht weniger als andere.''] else [])
       @ (if regex_ifind r padded (pattern ''(%sfeig)'') then [''Nicht feige, nur vorsichtig.''] else []))"

definition try_random_question :: "rx \<Rightarrow> shuffle \<Rightarrow> string \<Rightarrow> string \<Rightarrow> string" where
  "try_random_question r shuffle input output =
    (if 0 < length output then output else first_of shuffle (question_outputs r input))"

definition try_random_statement :: "shuffle \<Rightarrow> string \<Rightarrow> string \<Rightarrow> string" where
  "try_random_statement shuffle input output =
    (if 0 < length output then output else first_of shuffle statement_outputs)"

definition get_random_output :: "rx \<Rightarrow> shuffle \<Rightarrow> predefined \<Rightarrow> sentence \<Rightarrow> string" where
  "get_random_output r shuffle p s =
    (if \<not> pd_ready p then []
     else
       (let output = (if sn_mode s = QUESTION then try_random_question r shuffle (sn_input s) [] else [])
        in if sn_mode s = STATEMENT then try_random_statement shuffle (sn_input s) output else output))"

section \<open>Lemmas\<close>

text \<open>Shuffling gives the same answers in another order.\<close>

definition shuffles :: "shuffle \<Rightarrow> bool" where
  "shuffles sh \<longleftrightarrow> (\<forall>xs. mset (sh xs) = mset xs)"

lemma first_of_mem: "shuffles sh \<Longrightarrow> xs \<noteq> [] \<Longrightarrow> first_of sh xs \<in> set xs"
proof -
  assume s: "shuffles sh" and ne: "xs \<noteq> []"
  have m: "mset (sh xs) = mset xs" using s by (simp add: shuffles_def)
  then have "sh xs \<noteq> []" using ne by auto
  then have "sh xs ! 0 \<in> set (sh xs)" by simp
  with mset_eq_setD [OF m] show ?thesis by (simp add: first_of_def)
qed

lemma tables_full:
  "[] \<notin> set thanks_outputs" "[] \<notin> set please_outputs" "[] \<notin> set ignorance_outputs"
  "[] \<notin> set yes_outputs" "[] \<notin> set why_outputs" "[] \<notin> set hast_outputs"
  "[] \<notin> set denial_outputs" "[] \<notin> set statement_outputs"
  by code_simp+

lemma tables_not_Nil:
  "thanks_outputs \<noteq> []" "please_outputs \<noteq> []" "ignorance_outputs \<noteq> []" "yes_outputs \<noteq> []"
  "why_outputs \<noteq> []" "denial_outputs \<noteq> []" "statement_outputs \<noteq> []"
  by code_simp+

lemma question_outputs_full: "question_outputs r input \<noteq> []" "[] \<notin> set (question_outputs r input)"
  using tables_full tables_not_Nil by (auto simp: question_outputs_def Let_def)

lemma random_output_not_Nil:
  assumes "shuffles sh" "pd_ready p" "sn_mode s = QUESTION \<or> sn_mode s = STATEMENT"
  shows "get_random_output r sh p s \<noteq> []"
proof -
  have "first_of sh (question_outputs r (sn_input s)) \<noteq> []" "first_of sh statement_outputs \<noteq> []"
    using first_of_mem [OF assms(1)] question_outputs_full [of r "sn_input s"] tables_not_Nil tables_full
    by metis+
  then show ?thesis
    using assms(2,3) by (auto simp: get_random_output_def try_random_question_def try_random_statement_def)
qed

section \<open>Properties\<close>

text \<open>C33. A configured object has an answer to every question and statement: whatever the shuffling
  does, it is one of the table that belongs to the sentence, and it is not empty; the other two modes
  get none.\<close>

theorem random_answer:
  assumes "shuffles sh" "pd_ready p"
  shows "case sn_mode s of
      QUESTION \<Rightarrow> get_random_output r sh p s \<in> set (question_outputs r (sn_input s)) - {[]}
    | STATEMENT \<Rightarrow> get_random_output r sh p s \<in> set statement_outputs - {[]}
    | _ \<Rightarrow> get_random_output r sh p s = []"
proof -
  have "first_of sh (question_outputs r (sn_input s)) \<in> set (question_outputs r (sn_input s)) - {[]}"
    "first_of sh statement_outputs \<in> set statement_outputs - {[]}"
    using first_of_mem [OF assms(1)] question_outputs_full [of r "sn_input s"] tables_not_Nil tables_full
    by fastforce+
  then show ?thesis
    using assms(2)
    by (cases "sn_mode s")
      (simp_all add: get_random_output_def try_random_question_def try_random_statement_def)
qed

theorem random_answer_witness:
  "get_random_output no_rx rev \<lparr>verbose = False, buffered = False, lang = ''de'', path = ''.'',
      pd_tagger = True, pd_grammar = True\<rparr> way_sentence \<in> set statement_outputs - {[]}"
proof -
  have "shuffles rev" by (simp add: shuffles_def)
  moreover have "sn_mode way_sentence = STATEMENT" by (simp add: way_sentence_def)
  moreover have "pd_ready \<lparr>verbose = False, buffered = False, lang = ''de'', path = ''.'',
      pd_tagger = True, pd_grammar = True\<rparr>" by (simp add: pd_ready_def is_configured_def)
  ultimately show ?thesis
    using random_answer [where sh = rev and s = way_sentence and r = no_rx] by fastforce
qed

text \<open>The answers to questions of the kind yes or no are never given: an engine that finds an
  alternative of a group when it is there finds one of the longer group of question words first.\<close>

theorem yes_answers_unused:
  assumes alternatives: "\<And>s. rx_search r True yes_words s \<noteq> None \<Longrightarrow> rx_search r True ask_words s \<noteq> None"
    and valid: "rx_valid r ask_words"
  shows "set (question_outputs r input) \<inter> set yes_outputs \<subseteq> {''Wieso nicht?''}"
proof -
  define others where "others =
    ignorance_outputs @ why_outputs @ hast_outputs @ denial_outputs @
    [''Nein.'', ''Nein!'', ''Nein.,.'', ''Nein, ich mag das nicht.'', ''Nicht gerade wenig.'',
     ''Nicht mehr und nicht weniger als andere.'', ''Nicht feige, nur vorsichtig.'']"
  have "list_all (\<lambda>y. y = ''Wieso nicht?'' \<or> y \<notin> set (
    ignorance_outputs @ why_outputs @ hast_outputs @ denial_outputs @
    [''Nein.'', ''Nein!'', ''Nein.,.'', ''Nein, ich mag das nicht.'', ''Nicht gerade wenig.'',
     ''Nicht mehr und nicht weniger als andere.'', ''Nicht feige, nur vorsichtig.''])) yes_outputs"
    by code_simp
  then have o: "set others \<inter> set yes_outputs \<subseteq> {''Wieso nicht?''}"
    unfolding others_def [symmetric] list_all_iff by blast
  have "regex_ifind r s yes_words \<Longrightarrow> regex_ifind r s ask_words" for s
    using alternatives [of s] valid by (auto simp: regex_ifind_def split: if_splits)
  then have "set (question_outputs r input) \<subseteq> set others"
    by (auto simp: question_outputs_def Let_def others_def)
  with o show ?thesis by blast
qed

definition word_rx :: rx where
  "word_rx =
    \<lparr>rx_valid = \<lambda>e. True,
     rx_search = \<lambda>i e s.
       if e = yes_words then (if list_ex (str_contains s) ['' ja '', '' nein ''] then Some [s] else None)
       else if e = ask_words then
         (if list_ex (str_contains s) ['' ja '', '' nein '', '' was '', '' wer ''] then Some [s] else None)
       else None,
     rx_subst = \<lambda>i e r s. s\<rparr>"

theorem yes_answers_unused_witness:
  "''Ja, klar.'' \<notin> set (question_outputs word_rx ''ja'') \<and> regex_ifind word_rx '' ja '' yes_words"
proof -
  have "rx_search word_rx True yes_words s \<noteq> None \<Longrightarrow> rx_search word_rx True ask_words s \<noteq> None" for s
    by (auto simp: word_rx_def split: if_splits)
  moreover have "rx_valid word_rx ask_words" by (simp add: word_rx_def)
  ultimately have "set (question_outputs word_rx ''ja'') \<inter> set yes_outputs \<subseteq> {''Wieso nicht?''}"
    by (rule yes_answers_unused)
  moreover have "''Ja, klar.'' \<in> set yes_outputs" "''Ja, klar.'' \<noteq> ''Wieso nicht?''"
    "regex_ifind word_rx '' ja '' yes_words" by code_simp+
  ultimately show ?thesis by blast
qed

end
