(* ===== verification/Phrase2012.thy ===== *)
theory Phrase2012
  imports Xml2012
begin

text \<open>
  \<^verbatim>\<open>hal2012-phrase2012.cpp\<close>: the phraser, which says a fact as a sentence. It collects the words of
  subject, verbs, object and adverbs in this order, replaces the words that stand for a verb or an
  article, writes nouns and the first word with a capital letter and joins the words.

  The pointers to the tagger and the grammar only matter by being set or not (\<open>ph_tagger\<close>,
  \<open>ph_grammar\<close>): the operations of the tagger that are called, \<^verbatim>\<open>get_verb\<close> and
  \<^verbatim>\<open>get_article\<close>, read no state. \<open>local\<close> tells whether the global pointer
  \<^verbatim>\<open>phrase_tagger_local\<close> is set. \<^verbatim>\<open>get_words\<close> may fill the caches of the parts of the fact; the
  fact is not returned, as that changes no word of it.
\<close>

section \<open>State\<close>

record phraser = freehal_base +
  ph_tagger :: bool
  ph_grammar :: bool

definition ph_set_tagger :: "bool \<Rightarrow> phraser \<Rightarrow> phraser" where
  "ph_set_tagger t h = h\<lparr>ph_tagger := t\<rparr>"

definition ph_set_grammar :: "bool \<Rightarrow> phraser \<Rightarrow> phraser" where
  "ph_set_grammar g h = h\<lparr>ph_grammar := g\<rparr>"

section \<open>Collecting the words\<close>

text \<open>The gender of the last word that has one.\<close>

definition last_genus :: "word list \<Rightarrow> string" where
  "last_genus raw =
    fold (\<lambda>w genus. case wtags w of
        None \<Rightarrow> genus
      | Some t \<Rightarrow> if 0 < length (snd t) then snd t else genus) raw []"

definition replace_virtual_word :: "bool \<Rightarrow> word list \<Rightarrow> string \<Rightarrow> word \<Rightarrow> word" where
  "replace_virtual_word local raw obj_name w =
    (if local then
       (let w1 = (if wtext w = ''is-a'' then new_word (get_verb ''be'' ''3s'') else w) in
        if wtext w1 = ''(a)'' then
          (let genus = last_genus raw
           in if genus \<noteq> [] then new_word (get_article (wtext w1) genus obj_name) else w1)
        else w1)
     else w)"

definition replace_virtual_words :: "bool \<Rightarrow> word list \<Rightarrow> word list \<Rightarrow> string \<Rightarrow> word list" where
  "replace_virtual_words local final raw obj_name =
    final @ map (replace_virtual_word local raw obj_name) raw"

definition add_part :: "bool \<Rightarrow> xml_obj \<Rightarrow> word list \<Rightarrow> word list" where
  "add_part local x ws =
    ws @ replace_virtual_words local [] (fst (get_words x)) (xname x)"

definition add_parts :: "bool \<Rightarrow> xml_obj list \<Rightarrow> word list \<Rightarrow> word list" where
  "add_parts local xs ws = fold (add_part local) xs ws"

definition arrange :: "phraser \<Rightarrow> bool \<Rightarrow> xml_fact \<Rightarrow> word list \<Rightarrow> word list \<times> bool" where
  "arrange h local xf ws =
    (let verbs = part_list ''verb'' (fact_obj xf);
         subject = part_list ''subject'' (fact_obj xf);
         object = part_list ''object'' (fact_obj xf);
         adverbs = part_list ''adverbs'' (fact_obj xf);
         local1 = (if ph_tagger h then True else local)
     in (add_parts local1 adverbs (add_parts local1 object
          (add_parts local1 verbs (add_parts local1 subject ws))), local1))"

section \<open>Joining the words\<close>

definition upper_noun :: "word \<Rightarrow> word" where
  "upper_noun w =
    (case wtags w of
       None \<Rightarrow> w
     | Some t \<Rightarrow> if fst t = ''n'' then set_word (ucfirst (wtext w)) w else w)"

definition upper_first :: "word list \<Rightarrow> word list" where
  "upper_first ws = (case ws of [] \<Rightarrow> [] | w # r \<Rightarrow> set_word (ucfirst (wtext w)) w # r)"

definition join_words :: "rx \<Rightarrow> word list \<Rightarrow> string" where
  "join_words r ws =
    (let ws1 = upper_first (map upper_noun ws);
         joined = join '' '' (map wtext ws1);
         joined1 = regex_replace r joined ''[ ]+([.?!;,])'' (CHR 0x5C # ''1'');
         joined2 = (if \<not> regex_find r joined1 ''[?!]'' then joined1 @ ''.'' else joined1)
     in regex_replace r joined2 ''[ _]+'' '' '')"

definition phrase :: "rx \<Rightarrow> phraser \<Rightarrow> bool \<Rightarrow> xml_fact \<Rightarrow> string \<times> bool" where
  "phrase r h local xf =
    (if \<not> is_configured h then ([], local)
     else if \<not> ph_tagger h then ([], local)
     else if \<not> ph_grammar h then ([], local)
     else (let (ws, local1) = arrange h local xf [] in (join_words r ws, local1)))"

section \<open>Lemmas\<close>

text \<open>What a part of a fact says: its words, with the two virtual words replaced.\<close>

definition said :: "xml_obj \<Rightarrow> word list" where
  "said x = map (replace_virtual_word True (fst (get_words x)) (xname x)) (fst (get_words x))"

definition said_fact :: "xml_obj \<Rightarrow> word list" where
  "said_fact x =
    concat (map (\<lambda>role. concat (map said (part_list role x))) [''subject'', ''verb'', ''object'', ''adverbs''])"

lemma add_parts_said: "add_parts True xs ws = ws @ concat (map said xs)"
  by (induction xs arbitrary: ws) (auto simp: add_parts_def add_part_def replace_virtual_words_def said_def)

lemma arrange_said: "ph_tagger h \<Longrightarrow> arrange h local xf ws = (ws @ said_fact (fact_obj xf), True)"
  by (simp add: arrange_def Let_def add_parts_said said_fact_def)

lemma upper_first_words: "map (lc \<circ> wtext) (upper_first (map upper_noun ws)) = map (lc \<circ> wtext) ws"
proof -
  have n: "lc (wtext (upper_noun w)) = lc (wtext w)" for w
    by (simp add: upper_noun_def set_word_def lc_ucfirst split: option.split)
  have f: "map (lc \<circ> wtext) (upper_first vs) = map (lc \<circ> wtext) vs" for vs
    by (cases vs) (simp_all add: upper_first_def set_word_def lc_ucfirst)
  show ?thesis unfolding f by (simp add: o_def n)
qed

lemma lc_join: "lc (join d ws) = join (lc d) (map lc ws)"
  by (induction d ws rule: join.induct) simp_all

lemma lc_space: "lc '' '' = '' ''"
  by code_simp

text \<open>The tags decide nothing but the gender: in a part without one the article stays as it is.\<close>

lemma said_article:
  "wtext (replace_virtual_word True raw n (Word ''(a)'' t)) =
    (if last_genus raw = [] then ''(a)'' else get_article ''(a)'' (last_genus raw) n)"
  by (simp add: replace_virtual_word_def Let_def new_word_def)

lemma get_verb_be: "get_verb ''be'' ''3s'' = ''ist''"
  by code_simp

lemma said_other:
  "wtext w \<noteq> ''is-a'' \<Longrightarrow> wtext w \<noteq> ''(a)'' \<Longrightarrow> replace_virtual_word True raw n w = w"
  by (simp add: replace_virtual_word_def Let_def)

lemma said_is_a: "wtext w = ''is-a'' \<Longrightarrow> wtext (replace_virtual_word True raw n w) = ''ist''"
  by (simp add: replace_virtual_word_def Let_def get_verb_be new_word_def)

text \<open>What blanks and underscores do not change.\<close>

definition ink :: "string \<Rightarrow> string" where
  "ink s = filter (\<lambda>c. c \<noteq> CHR '' '' \<and> c \<noteq> CHR ''_'') s"

lemma ink_append [simp]: "ink (s @ t) = ink s @ ink t"
  by (simp add: ink_def)

lemma tolower_blank: "tolower c = CHR '' '' \<longleftrightarrow> c = CHR '' ''" "tolower c = CHR ''_'' \<longleftrightarrow> c = CHR ''_''"
proof -
  have codes: "code (CHR '' '') = 32" "code (CHR ''_'') = 95" by (simp_all add: code_def)
  have "tolower c = d \<longleftrightarrow> c = d" if "code d = 32 \<or> code d = 95" for d
  proof (cases "is_upper c")
    case True
    then have "code (tolower c) = code c + 32" "65 \<le> code c" "code c \<le> 90"
      by (simp_all add: tolower_def is_upper_def code_char_of)
    with that show ?thesis by auto
  next
    case False
    then show ?thesis by (simp add: tolower_def)
  qed
  with codes show "tolower c = CHR '' '' \<longleftrightarrow> c = CHR '' ''" "tolower c = CHR ''_'' \<longleftrightarrow> c = CHR ''_''"
    by simp_all
qed

lemma ink_lc: "ink (lc s) = lc (ink s)"
  by (induction s) (simp_all add: ink_def lc_def tolower_blank)

lemma ink_join: "ink (join '' '' ws) = concat (map ink ws)"
  by (induction "'' ''" ws rule: join.induct) (simp_all add: ink_def)

lemma ink_upper: "lc (ink (join '' '' (map wtext (upper_first (map upper_noun ws))))) =
    concat (map (\<lambda>w. ink (lc (wtext w))) ws)"
proof -
  have "lc (concat us) = concat (map lc us)" for us :: "string list"
    by (induction us) (simp_all add: lc_def)
  then have "lc (ink (join '' '' vs)) = concat (map (\<lambda>v. ink (lc v)) vs)" for vs
    by (simp add: ink_join ink_lc o_def)
  from this [of "map wtext (upper_first (map upper_noun ws))"]
  have "lc (ink (join '' '' (map wtext (upper_first (map upper_noun ws))))) =
      concat (map ink (map (lc \<circ> wtext) (upper_first (map upper_noun ws))))"
    by (simp add: o_def)
  then show ?thesis unfolding upper_first_words by (simp add: o_def)
qed

section \<open>Properties\<close>

text \<open>C32. The phraser says exactly the words of subject, verbs, object and adverbs of the fact, in this
  order and as \<open>said_fact\<close> gives them: up to capital letters, blanks and underscores the output is
  these words followed by nothing or by one full stop, provided the two expressions that tidy the
  blanks touch nothing else.\<close>

theorem phrase_says_words:
  assumes "is_configured h" "ph_tagger h" "ph_grammar h"
    and punctuation: "\<And>s. ink (rx_subst r False ''[ ]+([.?!;,])'' (CHR 0x5C # ''1'') s) = ink s"
    and blanks: "\<And>s. ink (rx_subst r False ''[ _]+'' '' '' s) = ink s"
  shows "\<exists>stop \<in> {[], ''.''}. lc (ink (fst (phrase r h local xf))) =
    concat (map (\<lambda>w. ink (lc (wtext w))) (said_fact (fact_obj xf))) @ stop"
proof -
  have p: "ink (regex_replace r s ''[ ]+([.?!;,])'' (CHR 0x5C # ''1'')) = ink s"
    "ink (regex_replace r s ''[ _]+'' '' '') = ink s" for s
    by (simp_all add: regex_replace_def punctuation blanks)
  have d: "lc (ink ''.'') = ''.''" by code_simp
  show ?thesis
    using assms(1-3) ink_upper [of "said_fact (fact_obj xf)"]
    by (auto simp: phrase_def arrange_said join_words_def Let_def p d)
qed

text \<open>The expressions of \<^verbatim>\<open>join\<close>, written out for the witness.\<close>

fun squeeze :: "bool \<Rightarrow> string \<Rightarrow> string" where
  "squeeze in_blank [] = []"
| "squeeze in_blank (c # s) =
    (if c = CHR '' '' \<or> c = CHR ''_'' then (if in_blank then [] else '' '') @ squeeze True s
     else c # squeeze False s)"

fun before_stop :: "string \<Rightarrow> string" where
  "before_stop [] = []"
| "before_stop (c # s) =
    (if c = CHR '' '' \<and> dropWhile (\<lambda>c. c = CHR '' '') s \<noteq> []
        \<and> is_any_of ''.?!;,'' (hd (dropWhile (\<lambda>c. c = CHR '' '') s))
     then before_stop s else c # before_stop s)"

definition phrase_rx :: rx where
  "phrase_rx =
    \<lparr>rx_valid = \<lambda>e. True,
     rx_search = \<lambda>i e s. if list_ex (is_any_of ''?!'') s then Some [''!''] else None,
     rx_subst = \<lambda>i e r s. if e = ''[ _]+'' then squeeze False s
       else if e = ''[ ]+([.?!;,])'' then before_stop s else s\<rparr>"

lemma ink_squeeze: "ink (squeeze b s) = ink s"
  by (induction s arbitrary: b) (auto simp: ink_def)

lemma ink_before_stop: "ink (before_stop s) = ink s"
  by (induction s) (auto simp: ink_def)

definition phrase_example :: xml_fact where
  "phrase_example = new_fact\<lparr>fact_obj :=
    Xml LIST ''fact'' []
      [Xml LIST ''verb'' [] [from_text ''is-a''] False False [],
       Xml LIST ''object'' [] [from_text ''(a) tier''] True True
         [Word ''(a)'' None, Word ''tier'' (Some (''n'', ''n''))],
       Xml LIST ''subject'' [] [from_text ''(the) katze''] True True
         [Word ''(the)'' None, Word ''katze'' (Some (''n'', ''f''))]]
      False False []\<rparr>"

definition phrase_home :: phraser where
  "phrase_home = \<lparr>verbose = False, buffered = False, lang = ''de'', path = ''.'', ph_tagger = True, ph_grammar = True\<rparr>"

theorem phrase_says_words_witness:
  "lc (ink (fst (phrase phrase_rx phrase_home False phrase_example))) = ''(the)katzeisteintier.''
    \<and> fst (phrase phrase_rx phrase_home False phrase_example) = ''(the) Katze ist ein Tier.''"
proof -
  have "is_configured phrase_home" "ph_tagger phrase_home" "ph_grammar phrase_home" by code_simp+
  from phrase_says_words [OF this, of phrase_rx False phrase_example]
  have "\<exists>stop \<in> {[], ''.''}. lc (ink (fst (phrase phrase_rx phrase_home False phrase_example))) =
      concat (map (\<lambda>w. ink (lc (wtext w))) (said_fact (fact_obj phrase_example))) @ stop"
    by (simp add: phrase_rx_def ink_squeeze ink_before_stop)
  moreover have "fst (phrase phrase_rx phrase_home False phrase_example) = ''(the) Katze ist ein Tier.''"
    by code_simp
  moreover have "lc (ink ''(the) Katze ist ein Tier.'') = ''(the)katzeisteintier.''" by code_simp
  ultimately show ?thesis by simp
qed

text \<open>Which articles are said: the mark of the definite article is never replaced, and that of the
  indefinite one is replaced in subject and object when some word of the part has a gender, the last
  one deciding, and nowhere else.\<close>

theorem articles_said:
  "wtext (replace_virtual_word True raw n (Word ''(the)'' t)) = ''(the)''
    \<and> wtext (replace_virtual_word True raw n (Word ''(a)'' t)) =
      (if last_genus raw = [] \<or> (n \<noteq> ''subject'' \<and> n \<noteq> ''object'') then ''(a)''
       else if last_genus raw = ''f'' then ''eine''
       else if last_genus raw = ''m'' \<and> n = ''object'' then ''einen'' else ''ein'')"
  unfolding said_article by (simp add: said_other get_article_def)

end
