(* ===== verification/ExpandEnd.thy ===== *)
theory ExpandEnd
  imports Grammar "HOL-Library.Multiset_Order"
begin

text \<open>
  When the loop of \<^verbatim>\<open>grammar::expand\<close> ends. Each run of the loop replaces, in every rule, the first
  symbol with several alternatives and all symbols with one; the markers that are added change
  the key of a copied symbol but never its head. So when the heads of the \<^verbatim>\<open>r-\<close> symbols can be
  ranked, the ranks of the symbols left in a rule decrease as a multiset in every run, and the
  greatest of these multisets over all rules bounds the number of runs. A symbol that occurs twice
  in one of its own alternatives keeps the loop running for ever.
\<close>

section \<open>Ranks\<close>

definition key_head :: "string \<Rightarrow> string" where
  "key_head k = takeWhile (\<lambda>c. c \<noteq> CHR ''/'') k"

text \<open>Every symbol of a rule has a head, and an \<^verbatim>\<open>r-\<close> symbol ranks below the key of the rule.\<close>

definition rule_ranked :: "(string \<Rightarrow> nat) \<Rightarrow> string \<times> entities \<Rightarrow> bool" where
  "rule_ranked rk rule \<longleftrightarrow>
    list_all (\<lambda>e. head_of e \<noteq> [] \<and> (is_r e \<longrightarrow> rk (head_of e) < rk (key_head (fst rule)))) (snd rule)"

definition ranked :: "(string \<Rightarrow> nat) \<Rightarrow> grammar \<Rightarrow> bool" where
  "ranked rk g \<longleftrightarrow> list_all (rule_ranked rk) (gra g)"

definition rank_of :: "(string \<Rightarrow> nat) \<Rightarrow> entity \<Rightarrow> nat multiset" where
  "rank_of rk e = (if is_r e then {#rk (head_of e)#} else {#})"

definition ranks :: "(string \<Rightarrow> nat) \<Rightarrow> entities \<Rightarrow> nat multiset" where
  "ranks rk es = sum_list (map (rank_of rk) es)"

lemma ranks_simps [simp]:
  "ranks rk [] = {#}" "ranks rk (e # es) = rank_of rk e + ranks rk es"
  "ranks rk (xs @ ys) = ranks rk xs + ranks rk ys"
  by (simp_all add: ranks_def)

lemma key_head_to_key: "wf_entity e \<Longrightarrow> head_of e \<noteq> [] \<Longrightarrow> key_head (to_key e) = head_of e"
proof -
  assume "wf_entity e" "head_of e \<noteq> []"
  then have "\<forall>c \<in> set (head_of e). c \<noteq> CHR ''/''" using head_of_no_slash [of e] by auto
  then show ?thesis
    using \<open>head_of e \<noteq> []\<close>
    by (simp add: key_head_def to_key_head head_text_def order_text_def takeWhile_append)
qed

lemma init_part_kind:
  assumes "head_of e \<noteq> []"
  shows "head_of (init_part e p) = head_of e \<and> is_r (init_part e p) = is_r e"
  using assms
  by (cases rule: init_part_cases [of e p]; simp add: head_of_def is_r_def type_of_def)

lemma modified_kind:
  assumes "head_of e \<noteq> []"
  shows "head_of (modified e ms) = head_of e" and "is_r (modified e ms) = is_r e"
proof -
  have "head_of (foldl init_part e ps) = head_of e \<and> is_r (foldl init_part e ps) = is_r e" for ps
    using assms by (induction ps arbitrary: e) (simp_all add: init_part_kind)
  then show "head_of (modified e ms) = head_of e" "is_r (modified e ms) = is_r e"
    by (simp_all add: modified_def init_def)
qed

text \<open>What replaces a symbol ranks below it.\<close>

definition below :: "(string \<Rightarrow> nat) \<Rightarrow> nat \<Rightarrow> entities \<Rightarrow> bool" where
  "below rk n es \<longleftrightarrow> list_all (\<lambda>e. head_of e \<noteq> [] \<and> (is_r e \<longrightarrow> rk (head_of e) < n)) es"

lemma rule_ranked_below: "rule_ranked rk (k, v) = below rk (rk (key_head k)) v"
  by (simp add: rule_ranked_def below_def)

lemma below_simps [simp]:
  "below rk n []"
  "below rk n (e # es) \<longleftrightarrow>
    head_of e \<noteq> [] \<and> (is_r e \<longrightarrow> rk (head_of e) < n) \<and> below rk n es"
  "below rk n (xs @ ys) \<longleftrightarrow> below rk n xs \<and> below rk n ys"
  by (simp_all add: below_def)

lemma below_mono: "below rk m es \<Longrightarrow> m \<le> n \<Longrightarrow> below rk n es"
  by (auto simp: below_def list_all_iff)

lemma below_alternative:
  assumes "ranked rk g" "plain_symbol e" "head_of e \<noteq> []" "a \<in> set (alternatives g e)"
  shows "below rk (rk (head_of e)) a"
proof -
  obtain v where v: "(to_key e, v) \<in> set (gra g)" and a: "a = inserted e v"
    using assms(4) by (auto simp: alternatives_def set_mm_range)
  have "below rk (rk (key_head (to_key e))) v"
    using assms(1) v by (auto simp: ranked_def list_all_iff rule_ranked_below [symmetric])
  then have "below rk (rk (head_of e)) v"
    using assms(2,3) by (simp add: key_head_to_key plain_symbol_def)
  then show ?thesis by (auto simp: a inserted_def below_def list_all_iff modified_kind)
qed

lemma ranks_below: "below rk n es \<Longrightarrow> x \<in># ranks rk es \<Longrightarrow> x < n"
  by (induction es) (auto simp: rank_of_def split: if_splits)

lemma ranks_less: "below rk n es \<Longrightarrow> ranks rk es < {#n#}"
  by (rule ex_gt_imp_less_multiset) (auto dest: ranks_below)

section \<open>One run of the loop\<close>

lemma choice_below:
  assumes g: "ranked rk g" and e: "plain_symbol e" "head_of e \<noteq> []"
    and a: "a \<in> set (hd (choices g used [e]))"
  shows "ranks rk a \<le> rank_of rk e" and "\<not> used \<Longrightarrow> is_r e \<Longrightarrow> ranks rk a < rank_of rk e"
    and "is_r e \<longrightarrow> rk (head_of e) < n \<Longrightarrow> below rk n a"
proof -
  consider "a = [e]" "used \<or> \<not> is_r e" | "is_r e" "a = [] \<or> a \<in> set (alternatives g e)"
    using a by (auto simp: is_choice_def split: if_splits)
  then have "ranks rk a \<le> rank_of rk e \<and> (\<not> used \<longrightarrow> is_r e \<longrightarrow> ranks rk a < rank_of rk e)
      \<and> ((is_r e \<longrightarrow> rk (head_of e) < n) \<longrightarrow> below rk n a)"
  proof cases
    case 1
    then show ?thesis using e by auto
  next
    case 2
    then have b: "below rk (rk (head_of e)) a" using below_alternative [OF g e] by auto
    from ranks_less [OF b] have "ranks rk a < rank_of rk e" using 2 by (simp add: rank_of_def)
    moreover have "below rk n a" if "rk (head_of e) < n" using below_mono [OF b] that by simp
    ultimately show ?thesis using 2 by auto
  qed
  then show "ranks rk a \<le> rank_of rk e" "\<not> used \<Longrightarrow> is_r e \<Longrightarrow> ranks rk a < rank_of rk e"
    "is_r e \<longrightarrow> rk (head_of e) < n \<Longrightarrow> below rk n a"
    by blast+
qed

lemma product_below:
  assumes g: "ranked rk g"
  shows "list_all plain_symbol es \<Longrightarrow> below rk n es \<Longrightarrow> c \<in> set (product_lists (choices g used es)) \<Longrightarrow>
    below rk n (concat c) \<and> ranks rk (concat c) \<le> ranks rk es
    \<and> (\<not> used \<and> list_ex is_r es \<longrightarrow> ranks rk (concat c) < ranks rk es)"
proof (induction es arbitrary: used c)
  case Nil
  then show ?case by simp
next
  case (Cons e es)
  obtain a d where c: "c = a # d" and a: "a \<in> set (hd (choices g used [e]))"
    and d: "d \<in> set (product_lists (choices g (used \<or> is_choice g e) es))"
    using Cons.prems(3) unfolding choices_Cons [of g used e es] by auto
  have e: "plain_symbol e" "head_of e \<noteq> []" and p: "list_all plain_symbol es" "below rk n es"
    and n: "is_r e \<longrightarrow> rk (head_of e) < n"
    using Cons.prems(1,2) by simp_all
  note ih = Cons.IH [OF p d] and s = choice_below [OF g e a]
  have "ranks rk a + ranks rk (concat d) < rank_of rk e + ranks rk es" if "\<not> used" "is_r e"
    using ih s(2) [OF that] by (auto intro: add_less_le_mono)
  moreover have "ranks rk a + ranks rk (concat d) < rank_of rk e + ranks rk es"
    if "\<not> used" "\<not> is_r e" "list_ex is_r es"
    using ih s(1) that by (auto simp: is_choice_def intro: add_le_less_mono)
  moreover have "ranks rk a + ranks rk (concat d) \<le> rank_of rk e + ranks rk es"
    using ih s(1) by (auto intro: add_mono)
  ultimately show ?case using ih s(3) [OF n] by (auto simp: c)
qed

lemma expand_step_eq:
  assumes "expand_step ord g = (d, n, g')"
  shows "gra g' = expanded_rules g (iterate ord (gra g))"
    and "d = list_all (\<lambda>(k, v). choice_count g v \<le> 1) (iterate ord (gra g))"
proof -
  obtain new m c h where e: "expand_rules (iterate ord (gra g)) [] (0, True, g) = (new, m, c, h)"
    by (metis prod_cases4)
  show "gra g' = expanded_rules g (iterate ord (gra g))"
    "d = list_all (\<lambda>(k, v). choice_count g v \<le> 1) (iterate ord (gra g))"
    using assms expand_rules_eq(1,2) [OF e] by (auto simp: expand_step_def e)
qed

definition rules_below :: "(string \<Rightarrow> nat) \<Rightarrow> nat multiset \<Rightarrow> grammar \<Rightarrow> bool" where
  "rules_below rk most g \<longleftrightarrow> list_all (\<lambda>(k, v). ranks rk v \<le> most) (gra g)"

text \<open>One run keeps the ranking and lowers the greatest multiset of ranks, unless no symbol is left.\<close>

lemma ranks_no_r: "\<not> list_ex is_r es \<Longrightarrow> ranks rk es = {#}"
  by (induction es) (simp_all add: rank_of_def)

lemma expand_step_ranks:
  assumes ord: "good_order ord" and ok: "state_ok g" and rk: "ranked rk g"
    and s: "expand_step ord g = (d, n, g')" and r: "(k, v') \<in> set (gra g')"
  shows "rule_ranked rk (k, v')"
    and "\<exists>v. (k, v) \<in> set (gra g) \<and> ranks rk v' \<le> ranks rk v \<and> (ranks rk v \<noteq> {#} \<longrightarrow> ranks rk v' < ranks rk v)"
proof -
  obtain v c where v: "(k, v) \<in> set (gra g)" and c: "c \<in> set (product_lists (choices g False v))"
    and v': "v' = concat c"
    using r by (auto simp: expand_step_eq(1) [OF s] expanded_rules_def set_iterate [OF ord])
  have "list_all plain_symbol v" "below rk (rk (key_head k)) v"
    using ok rk v by (auto simp: state_ok_def rules_plain_def ranked_def list_all_iff rule_ranked_below [symmetric])
  note p = product_below [OF rk this c]
  then show "rule_ranked rk (k, v')" by (simp add: v' rule_ranked_below)
  show "\<exists>v. (k, v) \<in> set (gra g) \<and> ranks rk v' \<le> ranks rk v \<and> (ranks rk v \<noteq> {#} \<longrightarrow> ranks rk v' < ranks rk v)"
    using p v ranks_no_r [of v rk] by (auto simp: v' intro!: exI [of _ v])
qed

lemma rules_below_step:
  assumes "good_order ord" "state_ok g" "ranked rk g" and most: "rules_below rk most g"
    and s: "expand_step ord g = (False, n, g')"
  shows "ranked rk g' \<and> (\<exists>most' < most. rules_below rk most' g')"
proof -
  note e = expand_step_ranks [OF assms(1-3) s]
  have "ranked rk g'" using e(1) by (auto simp: ranked_def list_all_iff)
  moreover have "{#} < most"
  proof -
    from expand_step_eq(2) [OF s] obtain k v where v: "(k, v) \<in> set (gra g)" "2 \<le> choice_count g v"
      by (auto simp: list_all_iff set_iterate [OF assms(1)] not_le)
    then have "filter (is_choice g) v \<noteq> []" by (auto simp: choice_count_def)
    then obtain x where "x \<in> set v" "is_r x" by (auto simp: filter_empty_conv is_choice_def)
    then have "ranks rk v \<noteq> {#}" by (induction v) (auto simp: rank_of_def)
    moreover have "ranks rk v \<le> most" using most v(1) by (auto simp: rules_below_def list_all_iff)
    ultimately show ?thesis by (metis le_multiset_empty_left order_less_le_trans)
  qed
  moreover define M where "M = insert {#} ((\<lambda>(k, v). ranks rk v) ` set (gra g'))"
  have "finite M" "M \<noteq> {}" by (simp_all add: M_def)
  have "x < most" if "x \<in> M" for x
  proof (cases "x = {#}")
    case False
    with that obtain k v' where r: "(k, v') \<in> set (gra g')" and x: "x = ranks rk v'"
      by (auto simp: M_def)
    from e(2) [OF r] obtain v where v: "(k, v) \<in> set (gra g)"
      "x \<le> ranks rk v" "ranks rk v \<noteq> {#} \<longrightarrow> x < ranks rk v" by (auto simp: x)
    moreover have "ranks rk v \<le> most" using most v(1) by (auto simp: rules_below_def list_all_iff)
    ultimately show ?thesis using False by auto
  qed (use \<open>{#} < most\<close> in simp)
  then have "Max M < most" using \<open>finite M\<close> \<open>M \<noteq> {}\<close> by simp
  moreover have "rules_below rk (Max M) g'"
    using \<open>finite M\<close> by (force simp: rules_below_def list_all_iff M_def intro!: Max_ge)
  ultimately show ?thesis by blast
qed

lemma expand_loop_ends:
  assumes "good_order ord"
  shows "state_ok g \<Longrightarrow> ranked rk g \<Longrightarrow> rules_below rk most g \<Longrightarrow>
    \<exists>g'. expand_loop ord g = Some g' \<and> ranked rk g'"
proof (induction most arbitrary: g rule: less_induct)
  case (less most)
  obtain d n h where s: "expand_step ord g = (d, n, h)" by (metis prod_cases3)
  show ?case
  proof (cases d)
    case True
    have "ranked rk h"
      using expand_step_ranks(1) [OF assms less.prems(1,2) s] by (auto simp: ranked_def list_all_iff)
    with True s show ?thesis using expand_loop_done by simp
  next
    case False
    then have "expand_step ord g = (False, n, h)" using s by simp
    from rules_below_step [OF assms less.prems this] obtain most'
      where "ranked rk h" "most' < most" "rules_below rk most' h" by blast
    with less.IH expand_step_ok [OF assms less.prems(1) s] obtain g'
      where "expand_loop ord h = Some g' \<and> ranked rk g'" by blast
    then show ?thesis using s False by (subst expand_loop.simps) simp
  qed
qed

lemma expand_ends:
  assumes "good_order ord" "state_ok g" "ranked rk g"
  shows "\<exists>g'. expand ord g = Some g' \<and> ranked rk g'"
proof -
  let ?M = "insert {#} ((\<lambda>(k, v). ranks rk v) ` set (gra g))"
  have "rules_below rk (Max ?M) g"
    by (force simp: rules_below_def list_all_iff intro!: Max_ge)
  from expand_loop_ends [OF assms this] show ?thesis
    by (auto simp: expand_def ranked_def)
qed

section \<open>A symbol inside itself\<close>

text \<open>The symbols of a rule that stand for the key \<open>k\<close>, and a rule of \<open>k\<close> that has two of them.\<close>

definition calls :: "string \<Rightarrow> entities \<Rightarrow> nat" where
  "calls k es = length (filter (\<lambda>e. is_r e \<and> to_key e = k) es)"

definition twice_inside :: "string \<Rightarrow> grammar \<Rightarrow> bool" where
  "twice_inside k g \<longleftrightarrow>
    2 \<le> length (mm_range k (gra g)) \<and> list_ex (\<lambda>v. 2 \<le> calls k v) (mm_range k (gra g))"

lemma calls_simps [simp]:
  "calls k [] = 0" "calls k (e # es) = (if is_r e \<and> to_key e = k then 1 else 0) + calls k es"
  "calls k (xs @ ys) = calls k xs + calls k ys"
  by (simp_all add: calls_def)

lemma add_virt_is_r [simp]: "repl e \<noteq> [] \<Longrightarrow> is_r (add_virt e ws) = is_r e"
  by (simp add: is_r_def type_of_def add_virt_def)

lemma is_r_repl: "is_r e \<Longrightarrow> repl e \<noteq> []"
  by (auto simp: is_r_def type_of_def split: if_splits)

lemma calls_inserted:
  assumes "plain_symbol p" "to_key p = k" "list_all plain_symbol v"
  shows "calls k v \<le> calls k (inserted p v)"
  using assms(3)
proof (induction v)
  case Nil
  then show ?case by (simp add: inserted_def)
next
  case (Cons e v)
  have "is_r (modified e (get_marker p)) \<and> to_key (modified e (get_marker p)) = k"
    if "is_r e" "to_key e = k"
    using modified_marker [of e p] assms(1,2) Cons.prems that is_r_repl [OF that(1)]
    by (simp add: plain_symbol_def)
  with Cons show ?case by (auto simp: inserted_def)
qed

lemma twice_inside_choice: "twice_inside k g \<Longrightarrow> is_r e \<Longrightarrow> to_key e = k \<Longrightarrow> is_choice g e"
  by (auto simp: twice_inside_def is_choice_def alternatives_def)

lemma calls_choice_count: "twice_inside k g \<Longrightarrow> calls k es \<le> choice_count g es"
  by (induction es) (auto simp: choice_count_def twice_inside_choice)

lemma calls_product:
  assumes g: "rules_plain g" "twice_inside k g"
  shows "list_all plain_symbol es \<Longrightarrow>
    \<exists>c \<in> set (product_lists (choices g used es)). calls k es \<le> calls k (concat c)"
proof (induction es arbitrary: used)
  case Nil
  then show ?case by simp
next
  case (Cons e es)
  obtain v where v: "v \<in> set (mm_range k (gra g))" "2 \<le> calls k v"
    using g(2) by (auto simp: twice_inside_def list_ex_iff)
  have "\<exists>a \<in> set (hd (choices g used [e])). calls k [e] \<le> calls k a"
  proof (cases "is_r e \<and> to_key e = k \<and> \<not> used")
    case True
    then have "inserted e v \<in> set (alternatives g e)" using v(1) by (auto simp: alternatives_def)
    moreover have "list_all plain_symbol v"
      using g(1) v(1) by (auto simp: rules_plain_def set_mm_range)
    then have "2 \<le> calls k (inserted e v)"
      using calls_inserted [of e k v] True v(2) Cons.prems by auto
    ultimately show ?thesis using True twice_inside_choice [OF g(2), of e] by (auto intro!: bexI)
  next
    case False
    show ?thesis
    proof (cases "is_r e \<and> to_key e = k")
      case True
      with False show ?thesis using twice_inside_choice [OF g(2), of e] by simp
    next
      case no: False
      have "hd (choices g used [e]) \<noteq> []" by (auto simp: is_choice_def)
      with no show ?thesis by (auto simp: neq_Nil_conv)
    qed
  qed
  then obtain a where a: "a \<in> set (hd (choices g used [e]))" "calls k [e] \<le> calls k a" by blast
  obtain c where "c \<in> set (product_lists (choices g (used \<or> is_choice g e) es))"
    "calls k es \<le> calls k (concat c)" using Cons by fastforce
  with a have "a # c \<in> set (product_lists (hd (choices g used [e]) # choices g (used \<or> is_choice g e) es))"
    "calls k (e # es) \<le> calls k (concat (a # c))"
    by (auto simp del: choices.simps)
  then show ?case unfolding choices_Cons [of g used e es] by blast
qed

lemma mm_range_concat: "mm_range k (concat ms) = concat (map (mm_range k) ms)"
  by (induction ms) (simp_all add: mm_range_def)

lemma mm_range_iterate: "good_order ord \<Longrightarrow> mm_range k (iterate ord m) = mm_range k m"
proof -
  assume o: "good_order ord"
  have "mm_range k (concat (map (\<lambda>k'. map (Pair k') (f k')) ks)) = (if k \<in> set ks then f k else [])"
    if "distinct ks" for ks :: "string list" and f :: "string \<Rightarrow> 'a list"
    using that by (induction ks) (auto simp: mm_range_def filter_map o_def filter_empty_conv)
  moreover have "distinct (ord (map fst m))" "set (ord (map fst m)) = fst ` set m"
    using o by (simp_all add: good_order_def)
  moreover have "mm_range k m = []" if "k \<notin> fst ` set m"
    using that by (force simp: mm_range_def filter_empty_conv)
  ultimately show ?thesis by (simp add: iterate_def)
qed

lemma product_lists_not_Nil: "[] \<notin> set opts \<Longrightarrow> product_lists opts \<noteq> []"
proof (induction opts)
  case (Cons opt opts)
  then show ?case by (cases opt; cases "product_lists opts") auto
qed simp

lemma choices_not_Nil: "[] \<notin> set (choices g used es)"
  by (induction es arbitrary: used) (auto simp: is_choice_def)

lemma expanded_rules_range:
  "mm_range k (expanded_rules g rules) =
    concat (map (\<lambda>v. map concat (product_lists (choices g False v))) (mm_range k rules))"
  by (induction rules) (auto simp: expanded_rules_def mm_range_def filter_map o_def)

lemma length_concat_ge:
  "\<forall>x \<in> set xs. f x \<noteq> [] \<Longrightarrow> length xs \<le> length (concat (map f xs))"
proof (induction xs)
  case (Cons x xs)
  then show ?case by (cases "f x") auto
qed simp

lemma twice_inside_step:
  assumes ord: "good_order ord" and ok: "state_ok g" and t: "twice_inside k g"
    and s: "expand_step ord g = (d, n, g')"
  shows "\<not> d \<and> twice_inside k g'"
proof -
  obtain v where v: "v \<in> set (mm_range k (gra g))" "2 \<le> calls k v"
    using t by (auto simp: twice_inside_def list_ex_iff)
  have pl: "rules_plain g" "list_all plain_symbol v"
    using ok v(1) by (auto simp: state_ok_def rules_plain_def set_mm_range)
  have d: "\<not> d"
    using v calls_choice_count [OF t, of v]
    by (auto simp: expand_step_eq(2) [OF s] list_all_iff set_iterate [OF ord] set_mm_range not_le
        intro!: bexI [of _ "(k, v)"])
  have r: "mm_range k (gra g') =
    concat (map (\<lambda>v. map concat (product_lists (choices g False v))) (mm_range k (gra g)))"
    by (simp add: expand_step_eq(1) [OF s] expanded_rules_range mm_range_iterate [OF ord])
  have "length (mm_range k (gra g)) \<le> length (mm_range k (gra g'))"
    unfolding r by (rule length_concat_ge) (simp add: product_lists_not_Nil choices_not_Nil)
  moreover obtain c where "c \<in> set (product_lists (choices g False v))" "2 \<le> calls k (concat c)"
    using calls_product [OF pl(1) t pl(2), of False] v(2) by (meson order_trans)
  then have "list_ex (\<lambda>v. 2 \<le> calls k v) (mm_range k (gra g'))"
    using v(1) by (auto simp: r list_ex_iff intro!: bexI)
  ultimately show ?thesis using d t by (simp add: twice_inside_def)
qed

lemma expand_loop_never:
  "expand_loop ord g = Some g' \<Longrightarrow> good_order ord \<longrightarrow> state_ok g \<longrightarrow> \<not> twice_inside k g"
proof (erule expand_loop.raw_induct [rotated])
  fix loop ord g g'
  assume ih: "\<And>ord g g'. loop ord g = Some g' \<Longrightarrow>
      good_order ord \<longrightarrow> state_ok g \<longrightarrow> \<not> twice_inside k g"
    and r: "(case expand_step ord g of (done, n, g') \<Rightarrow> if done then Some g' else loop ord g') = Some g'"
  obtain d n h where s: "expand_step ord g = (d, n, h)" by (metis prod_cases3)
  show "good_order ord \<longrightarrow> state_ok g \<longrightarrow> \<not> twice_inside k g"
  proof (intro impI notI)
    assume a: "good_order ord" "state_ok g" "twice_inside k g"
    from twice_inside_step [OF a s] have d: "\<not> d" "twice_inside k h" by simp_all
    with r s have "loop ord h = Some g'" by simp
    from ih [OF this] a(1) d(2) expand_step_ok [OF a(1,2) s] show False by blast
  qed
qed

section \<open>Properties\<close>

text \<open>C8. Expanding a grammar that was read from a file ends, in whatever order the rules are
  visited, when the \<^verbatim>\<open>r-\<close> symbols can be ranked: every symbol of a rule has a head, and the
  head of an \<^verbatim>\<open>r-\<close> symbol ranks below that of the rule it stands in.\<close>

theorem expand_returns:
  assumes "good_order ord" and "read_grammar ord file grammar_new = Inr (r, g)" and "ranked rk g"
  shows "\<exists>g'. expand ord g = Some g' \<and> ranked rk g' \<and> table_ok g' \<and> rules_plain g'"
proof -
  have ok: "state_ok g" by (rule read_grammar_ok [OF assms(2) state_ok_new])
  from expand_ends [OF assms(1) ok assms(3)] obtain g'
    where g': "expand ord g = Some g'" "ranked rk g'" by blast
  with expand_ok [OF assms(1) ok g'(1)] show ?thesis by (simp add: state_ok_def)
qed

definition double_rules :: string where
  "double_rules = concat (map (\<lambda>l. l @ [newline])
    [''s-all:'', ''  r-a r-a'', ''r-a:'', ''  r-b r-b'', ''  d-z'', ''r-b:'', ''  d-x'', ''  d-y''])"

definition double_grammar :: grammar where
  "double_grammar =
    (case read_grammar remdups (Some double_rules) grammar_new of Inr (r, g) \<Rightarrow> g | Inl err \<Rightarrow> grammar_new)"

definition double_rank :: "string \<Rightarrow> nat" where
  "double_rank h = (if h = ''s-all'' then 2 else if h = ''r-a'' then 1 else 0)"

theorem expand_returns_witness:
  "\<not> fst (expand_step remdups double_grammar) \<and> (\<exists>g'. expand remdups double_grammar = Some g')"
proof -
  have "read_grammar remdups (Some double_rules) grammar_new = Inr (0, double_grammar)" by code_simp
  moreover have "ranked double_rank double_grammar" by code_simp
  moreover have "\<not> fst (expand_step remdups double_grammar)" by code_simp
  ultimately show ?thesis using expand_returns [OF good_order_remdups] by blast
qed

text \<open>C9. Expanding a grammar that was read from a file never returns when a symbol has a second
  alternative beside one in which it occurs twice itself.\<close>

theorem expand_runs_for_ever:
  assumes "good_order ord" and "read_grammar ord file grammar_new = Inr (r, g)"
    and "twice_inside k g"
  shows "expand ord g = None"
proof -
  have ok: "state_ok g" by (rule read_grammar_ok [OF assms(2) state_ok_new])
  with expand_loop_never [of ord g _ k] assms(1,3) have "expand_loop ord g = None"
    by (cases "expand_loop ord g") auto
  then show ?thesis by (simp add: expand_def)
qed

definition endless_rules :: string where
  "endless_rules = concat (map (\<lambda>l. l @ [newline]) [''r-a:'', ''  r-a d-and r-a'', ''  d-x''])"

definition endless_grammar :: grammar where
  "endless_grammar =
    (case read_grammar remdups (Some endless_rules) grammar_new of Inr (r, g) \<Rightarrow> g | Inl err \<Rightarrow> grammar_new)"

theorem expand_runs_for_ever_witness: "expand remdups endless_grammar = None"
proof -
  have "read_grammar remdups (Some endless_rules) grammar_new = Inr (0, endless_grammar)" by code_simp
  moreover have "twice_inside ''r-a'' endless_grammar" by code_simp
  ultimately show ?thesis using expand_runs_for_ever [OF good_order_remdups] by blast
qed

end
