(* ===== verification/Shell.thy ===== *)
theory Shell
  imports ParserRun Predefined2012 Phrase2012 FilterFacts ExpandEnd
begin

text \<open>
  \<^verbatim>\<open>grammar2012/shell.cpp\<close>: the program around the classes. \<^verbatim>\<open>init\<close> prepares the objects, \<^verbatim>\<open>new_sentence\<close>
  answers a sentence from the best fact of the database or from the predefined answers,
  \<^verbatim>\<open>get_answer\<close> answers a text and appends it to the history file, \<^verbatim>\<open>shell\<close> is the loop of the
  command line, and \<^verbatim>\<open>main\<close> chooses between a single answer, a graph and the loop.

  The record \<open>shell_env\<close> holds what the code does not determine: the expression engine, the orders of
  hashed containers, the hour, the random shuffles (numbered by their calls), the contents of files,
  and the operations of the tagger that ask the user. Console output other than the conversation, the
  call of graphviz and the parsing of the command line are not modelled. The tagger and the grammar
  are the same objects for all classes, as \<^verbatim>\<open>init\<close> makes them; a flag in each class tells that its
  pointer is set. A grammar that is expanded for ever is \<^const>\<open>None\<close>.
\<close>

section \<open>State\<close>

record shell_env =
  env_rx :: rx
  env_ord :: hash_order
  env_visit :: "xml_fact list \<Rightarrow> xml_fact list"
  env_verbs :: "string option"
  env_tog :: "string \<Rightarrow> tagger \<Rightarrow> rx_error + (nat \<times> string \<times> tagger)"
  env_pos :: pos_lookup
  env_stale :: stale
  env_words :: parser_files
  env_files :: "string \<Rightarrow> string option"
  env_hour :: nat
  env_shuffle :: "nat \<Rightarrow> shuffle"
  env_shuffle_facts :: "nat \<Rightarrow> xml_fact option list \<Rightarrow> xml_fact option list"

record shell =
  sh_tagger :: tagger
  sh_grammar :: grammar
  sh_parser :: parser
  sh_phraser :: phraser
  sh_local :: bool
  sh_database :: database
  sh_world :: world
  sh_predefined :: predefined
  sh_history :: "string option"

datatype shell_error =
  Parse_failed parser_error | Find_failed db_error | Tags_failed rx_error
| Grammar_failed grammar_error | Prepare_failed read_error

section \<open>Answering\<close>

text \<open>Printing the ranking queries every place of it.\<close>

definition show_ranks :: "'o ranking \<Rightarrow> 'o ranking" where
  "show_ranks rk = fold (\<lambda>i rk. snd (rank_get i (snd (rank_rank i rk)))) [0..<rank_size rk] rk"

definition rank_facts :: "xml_fact \<Rightarrow> xml_fact list \<Rightarrow> xml_fact ranking" where
  "rank_facts infact matches =
    fold (\<lambda>f rk. rank_insert f (fact_quotient filterlist_new infact f) rk) matches ranking_new"

text \<open>\<open>k\<close> numbers the sentences. The query changes the fact of the sentence.\<close>

definition answer_sentence :: "shell_env \<Rightarrow> nat \<Rightarrow> sentence \<Rightarrow> shell \<Rightarrow> shell_error + string \<times> sentence \<times> shell" where
  "answer_sentence env k s sh =
    (let random = get_random_output (env_rx env) (env_shuffle env (Suc k)) (sh_predefined sh) s in
     case sn_fact s of
       None \<Rightarrow> Inr (random, s, sh)
     | Some infact \<Rightarrow>
         (case find_by_fact (env_visit env) (env_ord env) (env_verbs env) (env_tog env) (env_pos env)
                 (sh_database sh) (wdisk (sh_world sh)) [] infact (sh_tagger sh) of
            Inl err \<Rightarrow> Inl (Find_failed err)
          | Inr (ret, matches, infact1, tg1) \<Rightarrow>
              (let s1 = s\<lparr>sn_fact := Some infact1\<rparr>; sh1 = sh\<lparr>sh_tagger := tg1\<rparr>;
                   best = fst (best_one (env_shuffle_facts env k) (show_ranks (rank_facts infact1 matches)))
               in case best of
                    None \<Rightarrow> Inr (random, s1, sh1)
                  | Some f \<Rightarrow>
                      (case prepare_tags (env_pos env) (fact_obj f) tg1 of
                         Inl err \<Rightarrow> Inl (Tags_failed err)
                       | Inr (o1, tg2) \<Rightarrow>
                           (let (phrased, local1) = phrase (env_rx env) (sh_phraser sh) (sh_local sh) (f\<lparr>fact_obj := o1\<rparr>)
                            in Inr (if length phrased = 0 then random else phrased, s1,
                                 sh\<lparr>sh_tagger := tg2, sh_local := local1\<rparr>))))))"

fun answer_sentences :: "shell_env \<Rightarrow> nat \<Rightarrow> sentence list \<Rightarrow> shell \<Rightarrow> shell_error + string list \<times> sentence list \<times> shell" where
  "answer_sentences env k [] sh = Inr ([], [], sh)"
| "answer_sentences env k (s # ss) sh =
    and_then (answer_sentence env k s sh) (\<lambda>(a, s1, sh1).
    and_then (answer_sentences env (Suc k) ss sh1) (\<lambda>(parts, ss1, sh2). Inr (a # parts, s1 # ss1, sh2)))"

definition history_entry :: "rx \<Rightarrow> string \<Rightarrow> string \<Rightarrow> string \<Rightarrow> string" where
  "history_entry r username input output =
    regex_replace r (username @ ''#'' @ input @ ''#'' @ output) (pattern ''[%r%n%s]+'') '' '' @ [newline]"

definition parse_text :: "shell_env \<Rightarrow> string \<Rightarrow> shell \<Rightarrow> shell_error + shell" where
  "parse_text env input sh =
    (case parser_parse (env_rx env) (env_ord env) (env_pos env) (env_stale env) (env_words env) input
            (sh_parser sh) (sh_tagger sh, sh_grammar sh) of
       Inl err \<Rightarrow> Inl (Parse_failed err)
     | Inr (p, tg, g) \<Rightarrow> Inr (sh\<lparr>sh_parser := p, sh_tagger := tg, sh_grammar := g\<rparr>))"

definition get_answer :: "shell_env \<Rightarrow> string \<Rightarrow> string \<Rightarrow> shell \<Rightarrow> shell_error + string \<times> shell" where
  "get_answer env username input sh =
    (let predefined = get_predefined_output (env_rx env) (env_hour env) (env_shuffle env 0) (sh_predefined sh) input in
     and_then
       (if predefined = [] then
          and_then (parse_text env input sh) (\<lambda>sh1.
          and_then (answer_sentences env 0 (pr_sentences (sh_parser sh1)) sh1) (\<lambda>(parts, ss, sh2).
            Inr (join '' '' parts, sh2\<lparr>sh_parser := (sh_parser sh2)\<lparr>pr_sentences := ss\<rparr>\<rparr>)))
        else Inr (predefined, sh))
       (\<lambda>(output, sh3).
          Inr (output, sh3\<lparr>sh_history :=
            map_option (\<lambda>h. h @ history_entry (env_rx env) username input output) (sh_history sh3)\<rparr>)))"

section \<open>Graphs\<close>

text \<open>The files that are written: one for each sentence, counted from 1. \<open>u\<close> is the counter of
  \<^verbatim>\<open>entity::print_graph\<close>.\<close>

fun graph_files :: "string \<Rightarrow> nat \<Rightarrow> sentence list \<Rightarrow> nat \<Rightarrow> (string \<times> string) list \<times> nat" where
  "graph_files output_prefix k [] u = ([], u)"
| "graph_files output_prefix k (s # ss) u =
    (let (graph, u1) = print_graph_all (sn_parsed s) u;
         (dots, u2) = graph_files output_prefix (Suc k) ss u1
     in ((output_prefix @ show_nat (Suc k) @ ''.dot'', graph) # dots, u2))"

definition get_graph :: "shell_env \<Rightarrow> string \<Rightarrow> string \<Rightarrow> nat \<Rightarrow> shell
    \<Rightarrow> shell_error + (string \<times> string) list \<times> nat \<times> shell" where
  "get_graph env input output_prefix u sh =
    and_then (parse_text env input sh) (\<lambda>sh1.
      let (dots, u1) = graph_files output_prefix 0 (pr_sentences (sh_parser sh1)) u in Inr (dots, u1, sh1))"

section \<open>The command line\<close>

definition add_spaces :: "string \<Rightarrow> string \<Rightarrow> nat \<Rightarrow> string" where
  "add_spaces name alt min_length =
    (let prompt = (if 0 < length name then name else alt) @ '': '' in
     prompt @ replicate (min_length - length prompt) CHR '' '')"

definition conversation_entry :: "string \<Rightarrow> string \<Rightarrow> string \<Rightarrow> string" where
  "conversation_entry username input output =
    (let min_length = 2 + max (length username) (length ''Freehal'') in
     add_spaces username ''You'' min_length @ input @ [newline]
     @ add_spaces ''Freehal'' [] min_length @ output @ [newline])"

definition leaves_shell :: "string \<Rightarrow> bool" where
  "leaves_shell input \<longleftrightarrow> length input = 0 \<or> input = ''q'' \<or> input = ''quit'' \<or> input = ''exit''"

text \<open>The loop, as it is compiled without \<^verbatim>\<open>READLINE\<close>. The build file sets \<^verbatim>\<open>READLINE\<close>: the lines are then
  read by \<^verbatim>\<open>readline\<close>, which prints the prompt itself and keeps a history of the lines, and a null pointer at the end of
  the input takes the place of the failed \<^verbatim>\<open>getline\<close>. The arguments are the lines that are read and the
  conversation so far; the result is what is shown.\<close>

fun shell_loop :: "(nat \<Rightarrow> shell_env) \<Rightarrow> nat \<Rightarrow> string \<Rightarrow> string \<Rightarrow> string list \<Rightarrow> string \<Rightarrow> shell
    \<Rightarrow> shell_error + string \<times> shell" where
  "shell_loop env k prompt username [] history sh = Inr ([newline], sh)"
| "shell_loop env k prompt username (input # lines) history sh =
    (if leaves_shell input then Inr ([newline], sh)
     else
       and_then (get_answer (env k) username input sh) (\<lambda>(output, sh1).
         let history1 = history @ conversation_entry username input output in
         and_then (shell_loop env (Suc k) prompt username lines history1 sh1) (\<lambda>(shown, sh2).
           Inr ([newline] @ history1 @ prompt @ shown, sh2))))"

definition shell_run :: "(nat \<Rightarrow> shell_env) \<Rightarrow> string \<Rightarrow> string \<Rightarrow> string list \<Rightarrow> shell \<Rightarrow> shell_error + string \<times> shell" where
  "shell_run env language username lines sh =
    (let prompt = [newline] @ ''freehal:'' @ language @ ''> '' in
     and_then (shell_loop env 0 prompt username lines [] sh) (\<lambda>(shown, sh1). Inr (prompt @ shown, sh1)))"

section \<open>Preparing the objects\<close>

definition language_file :: "shell_env \<Rightarrow> 'a freehal_base_scheme \<Rightarrow> string \<Rightarrow> string option" where
  "language_file env b name = env_files env (path_append (get_language_directory b) name)"

definition init_tagger :: "shell_env \<Rightarrow> string \<Rightarrow> string \<Rightarrow> bool \<Rightarrow> tagger \<Rightarrow> tagger" where
  "init_tagger env language p buf tg =
    (let tg1 = set_path p (set_lang language (set_buffered buf (set_verbose True tg)));
         tg2 = fold (\<lambda>name t. snd (read_pos_file (language_file env t name) t))
                 [''guessed.pos'', ''brain.pos'', ''memory.pos''] tg1
     in snd (read_regex_pos_file (language_file env tg2 ''regex.pos'') tg2))"

definition init_grammar :: "shell_env \<Rightarrow> string \<Rightarrow> string \<Rightarrow> bool \<Rightarrow> grammar \<Rightarrow> (grammar_error + grammar) option" where
  "init_grammar env language p buf g =
    (let g1 = set_path p (set_lang language g) in
     case read_grammar (env_ord env) (language_file env g1 ''grammar.txt'') g1 of
       Inl err \<Rightarrow> Some (Inl err)
     | Inr (ret, g2) \<Rightarrow> map_option Inr (expand (env_ord env) (set_buffered buf (set_verbose True g2))))"

definition shell_init :: "shell_env \<Rightarrow> string \<Rightarrow> string \<Rightarrow> bool \<Rightarrow> shell \<Rightarrow> (shell_error + shell) option" where
  "shell_init env language p buf sh =
    (case init_grammar env language p buf (sh_grammar sh) of
       None \<Rightarrow> None
     | Some (Inl err) \<Rightarrow> Some (Inl (Grammar_failed err))
     | Some (Inr g) \<Rightarrow> Some (Inr
         (sh\<lparr>sh_tagger := init_tagger env language p buf (sh_tagger sh),
             sh_grammar := g,
             sh_parser := set_buffered buf (set_verbose False (pr_set_grammar True (pr_set_tagger True
               (set_path p (set_lang language (sh_parser sh)))))),
             sh_phraser := set_buffered buf (set_verbose True (ph_set_grammar True (ph_set_tagger True
               (set_path p (set_lang language (sh_phraser sh)))))),
             sh_database := Disk.set_tagger True (db_set_path p (sh_world sh) (db_set_lang language (sh_world sh)
               (set_buffered buf (set_verbose True (sh_database sh))))),
             sh_predefined := set_buffered buf (set_verbose True (pd_set_grammar True (pd_set_tagger True
               (set_path p (set_lang language (sh_predefined sh))))))\<rparr>)))"

section \<open>The main program\<close>

text \<open>The options that are left when the command line was read; a name that was not given is
  \<^const>\<open>None\<close>.\<close>

record options =
  op_language :: string
  op_path :: string
  op_buffered :: bool
  op_user :: string
  op_input :: "string option"
  op_input_file :: "string option"
  op_output_file :: "string option"
  op_graph_file :: "string option"

definition read_file :: "shell_env \<Rightarrow> string \<Rightarrow> string" where
  "read_file env p = (case env_files env p of None \<Rightarrow> [] | Some contents \<Rightarrow> contents)"

definition main_input :: "shell_env \<Rightarrow> options \<Rightarrow> string" where
  "main_input env ops =
    (case op_input ops of
       Some input \<Rightarrow> input
     | None \<Rightarrow> (case op_input_file ops of Some p \<Rightarrow> read_file env p | None \<Rightarrow> []))"

text \<open>What the main program leaves behind: the files it wrote, what the conversation printed and the
  objects. \<open>src\<close> is the directory of the language.\<close>

definition main_single :: "shell_env \<Rightarrow> options \<Rightarrow> string \<Rightarrow> shell \<Rightarrow> shell_error + (string \<times> string) list \<times> string \<times> shell" where
  "main_single env ops input sh =
    and_then
      (case op_output_file ops of
         None \<Rightarrow> Inr ([], sh)
       | Some p \<Rightarrow> and_then (get_answer env (op_user ops) input sh) (\<lambda>(output, sh1). Inr ([(p, output)], sh1)))
      (\<lambda>(answers, sh2).
         and_then
           (case op_graph_file ops of
              None \<Rightarrow> Inr ([], sh2)
            | Some p \<Rightarrow> and_then (get_graph env input p 1 sh2) (\<lambda>(dots, u, sh3). Inr (dots, sh3)))
           (\<lambda>(dots, sh4). Inr (answers @ dots, [], sh4)))"

definition main_shell :: "(nat \<Rightarrow> shell_env) \<Rightarrow> options \<Rightarrow> (string \<Rightarrow> source_file option) \<Rightarrow> string list \<Rightarrow> shell
    \<Rightarrow> shell_error + (string \<times> string) list \<times> string \<times> shell" where
  "main_shell env ops src lines sh =
    (let p = get_language_directory (sh_database sh) in
     case prepare (env_ord (env 0)) p (src p) (sh_database sh, sh_world sh) of
       Inl err \<Rightarrow> Inl (Prepare_failed err)
     | Inr (b, w) \<Rightarrow>
         and_then (shell_run env (op_language ops) (op_user ops) lines (sh\<lparr>sh_database := b, sh_world := w\<rparr>))
           (\<lambda>(shown, sh1). Inr ([], shown, sh1)))"

definition main_run :: "(nat \<Rightarrow> shell_env) \<Rightarrow> options \<Rightarrow> (string \<Rightarrow> source_file option) \<Rightarrow> string list \<Rightarrow> shell
    \<Rightarrow> (shell_error + (string \<times> string) list \<times> string \<times> shell) option" where
  "main_run env ops src lines sh =
    (let input = main_input (env 0) ops;
         ready = shell_init (env 0) (op_language ops) (op_path ops) (op_buffered ops) sh
     in if 0 < length input then
          map_option (\<lambda>x. and_then x (main_single (env 0) ops input)) ready
        else if op_output_file ops \<noteq> None \<or> op_graph_file ops \<noteq> None then Some (Inr ([], [], sh))
        else map_option (\<lambda>x. and_then x (main_shell env ops src lines)) ready)"

section \<open>Lemmas: the best fact\<close>

lemma show_ranks_queried: "queried m rk \<Longrightarrow> queried m (show_ranks rk)"
proof -
  assume q: "queried m rk"
  have "queried m (fold (\<lambda>i rk. snd (rank_get i (snd (rank_rank i rk)))) is rk)"
    if "\<forall>i \<in> set is. i < length m" "queried m rk" for "is" rk
    using that by (induction "is" arbitrary: rk) (simp_all add: queried_rank queried_get)
  then show ?thesis using q by (simp add: show_ranks_def rank_size_def queried_def)
qed

lemma rank_facts_all: "rank_facts x fs = rank_all (map (\<lambda>f. (f, fact_quotient filterlist_new x f)) fs)"
  by (simp add: rank_facts_def rank_all_def fold_map comp_def)

definition best_match :: "xml_fact \<Rightarrow> xml_fact list \<Rightarrow> xml_fact \<Rightarrow> bool" where
  "best_match x fs f \<longleftrightarrow> f \<in> set fs \<and>
    (\<exists>r. fact_quotient filterlist_new x f = Some r \<and> 0 < r
      \<and> (\<forall>f' \<in> set fs. \<forall>r'. fact_quotient filterlist_new x f' = Some r' \<longrightarrow> r' \<le> r))"

lemma best_fact:
  assumes shuffle: "\<And>vs. set (shuffle vs) = set vs"
  shows "case fst (best_one shuffle (show_ranks (rank_facts x fs))) of
      None \<Rightarrow> \<forall>f \<in> set fs. \<not> d_pos (fact_quotient filterlist_new x f)
    | Some f \<Rightarrow> best_match x fs f"
proof -
  let ?q = "fact_quotient filterlist_new x"
  let ?vs = "map (\<lambda>f. (f, ?q f)) fs"
  let ?m = "rank_map (rank_all ?vs)"
  have m: "set ?m = {(r, f). f \<in> set fs \<and> ?q f = Some r \<and> 0 < r}" unfolding set_rank_all by auto
  have u: "unqueried (rank_all ?vs)" by (rule rank_all_unqueried)
  show ?thesis
  proof (cases "?m = []")
    case True
    have none: "\<not> d_pos (?q f)" if "f \<in> set fs" for f
    proof
      assume "d_pos (?q f)"
      then obtain r where "?q f = Some r" "0 < r" by (cases "?q f") (auto simp: d_pos_def)
      then have "(r, f) \<in> set ?m" using that m by simp
      then show False using True by simp
    qed
    have "rank_map (show_ranks (rank_all ?vs)) = []" using True by (simp add: show_ranks_def rank_size_def)
    then have "fst (best_one shuffle (show_ranks (rank_all ?vs))) = None"
      using rank_best_empty [of "show_ranks (rank_all ?vs)" shuffle] shuffle [of "[]"]
      by (simp add: best_one_def case_prod_beta)
    then show ?thesis using none by (simp add: rank_facts_all)
  next
    case False
    then have "queried ?m (show_ranks (rank_all ?vs))"
      using u by (intro show_ranks_queried) (simp add: queried_def unqueried_def)
    from rank_best_top [OF this _ shuffle] u
    have top: "set (fst (rank_best shuffle (show_ranks (rank_all ?vs))))
        = {Some v |v. \<exists>r. (r, v) \<in> set ?m \<and> (\<forall>(r', v') \<in> set ?m. r' \<le> r)}" (is "set ?b = ?S")
      by (simp add: unqueried_def)
    have "(last (map fst ?m), snd (last ?m)) \<in> set ?m" using False by (simp add: last_map)
    moreover have "\<forall>(r', v') \<in> set ?m. r' \<le> last (map fst ?m)"
      using sorted_last_max [of ?m] u False by (fastforce simp: unqueried_def last_map last_conv_nth)
    ultimately have "Some (snd (last ?m)) \<in> ?S" by blast
    then have "?b \<noteq> []" unfolding top [symmetric] by auto
    then have "hd ?b \<in> ?S" unfolding top [symmetric] by simp
    then obtain f r where f: "hd ?b = Some f" "(r, f) \<in> set ?m" "\<forall>(r', v') \<in> set ?m. r' \<le> r" by auto
    have "r' \<le> r" if "f' \<in> set fs" "?q f' = Some r'" for f' r'
    proof (cases "0 < r'")
      case True
      then have "(r', f') \<in> set ?m" using that m by simp
      then show ?thesis using f(3) by auto
    next
      case False
      then show ?thesis using f(2) m by auto
    qed
    moreover have "f \<in> set fs" "?q f = Some r" "0 < r" using f(2) m by auto
    ultimately have "best_match x fs f" unfolding best_match_def by blast
    moreover have "fst (best_one shuffle (show_ranks (rank_all ?vs))) = Some f"
      using \<open>?b \<noteq> []\<close> f(1) by (simp add: best_one_def case_prod_beta)
    ultimately show ?thesis by (simp add: rank_facts_all)
  qed
qed

section \<open>Lemmas: the conversation\<close>

text \<open>The loop without its screens: every input with its answer. \<open>screens\<close> is what is shown.\<close>

fun answers_of :: "(nat \<Rightarrow> shell_env) \<Rightarrow> nat \<Rightarrow> string \<Rightarrow> string list \<Rightarrow> shell
    \<Rightarrow> shell_error + (string \<times> string) list \<times> shell" where
  "answers_of env k username [] sh = Inr ([], sh)"
| "answers_of env k username (input # lines) sh =
    (if leaves_shell input then Inr ([], sh)
     else
       and_then (get_answer (env k) username input sh) (\<lambda>(answer, sh1).
       and_then (answers_of env (Suc k) username lines sh1) (\<lambda>(rest, sh2). Inr ((input, answer) # rest, sh2))))"

fun screens :: "string \<Rightarrow> string \<Rightarrow> string \<Rightarrow> (string \<times> string) list \<Rightarrow> string" where
  "screens prompt username history [] = [newline]"
| "screens prompt username history ((input, answer) # rest) =
    (let history1 = history @ conversation_entry username input answer
     in [newline] @ history1 @ prompt @ screens prompt username history1 rest)"

lemma shell_loop_answers:
  "shell_loop env k prompt username lines history sh =
    and_then (answers_of env k username lines sh) (\<lambda>(rest, sh'). Inr (screens prompt username history rest, sh'))"
proof (induction lines arbitrary: k history sh)
  case (Cons input lines)
  show ?case
  proof (cases "leaves_shell input \<or> (\<exists>err. get_answer (env k) username input sh = Inl err)")
    case True
    then show ?thesis by (auto simp: and_then_def)
  next
    case False
    then obtain answer sh1 where g: "\<not> leaves_shell input" "get_answer (env k) username input sh = Inr (answer, sh1)"
      by (cases "get_answer (env k) username input sh") auto
    then show ?thesis
      using Cons.IH [of "Suc k" "history @ conversation_entry username input answer" sh1]
      by (cases "answers_of env (Suc k) username lines sh1") (auto simp: and_then_def Let_def)
  qed
qed (simp add: and_then_def)

text \<open>What every answer keeps.\<close>

definition shell_ready :: "shell \<Rightarrow> bool" where
  "shell_ready sh \<longleftrightarrow> pr_ready (sh_parser sh) \<and> pd_ready (sh_predefined sh)"

lemma answer_sentence_keeps:
  assumes "answer_sentence env k s sh = Inr (a, s', sh')"
  shows "sh_parser sh' = sh_parser sh \<and> sh_predefined sh' = sh_predefined sh \<and> sn_mode s' = sn_mode s
    \<and> (a = get_random_output (env_rx env) (env_shuffle env (Suc k)) (sh_predefined sh) s \<or> a \<noteq> [])"
  using assms by (auto simp: answer_sentence_def Let_def split: option.splits sum.splits prod.splits if_splits)

lemma answer_sentences_keep:
  assumes "answer_sentences env k ss sh = Inr (as, ss', sh')"
    and "\<And>j. shuffles (env_shuffle env j)" "pd_ready (sh_predefined sh)"
    and "\<forall>s \<in> set ss. sn_mode s = QUESTION \<or> sn_mode s = STATEMENT"
  shows "sh_parser sh' = sh_parser sh \<and> sh_predefined sh' = sh_predefined sh
    \<and> length as = length ss \<and> [] \<notin> set as"
  using assms(1,3,4)
proof (induction ss arbitrary: k sh as ss' sh')
  case (Cons s ss)
  then obtain a s1 sh1 as1 ss1 where a: "answer_sentence env k s sh = Inr (a, s1, sh1)"
    and r: "answer_sentences env (Suc k) ss sh1 = Inr (as1, ss1, sh')" "as = a # as1"
    by (auto simp: and_then_Inr)
  note keep = answer_sentence_keeps [OF a]
  have "get_random_output (env_rx env) (env_shuffle env (Suc k)) (sh_predefined sh) s \<noteq> []"
    using random_output_not_Nil [OF assms(2)] Cons.prems(2,3) by simp
  then have "a \<noteq> []" using keep by auto
  moreover have "pd_ready (sh_predefined sh1)" using keep Cons.prems(2) by simp
  ultimately show ?case using Cons.IH [OF r(1)] Cons.prems(3) keep r(2) by simp
qed simp

lemma join_not_Nil: "xs \<noteq> [] \<Longrightarrow> [] \<notin> set xs \<Longrightarrow> join sep xs \<noteq> []"
  by (cases xs rule: remdups_adj.cases) auto

lemma parser_parse_ready:
  assumes "parser_parse r ord gp stale fs input p st = Inr (p', st')"
  shows "pr_ready p' = pr_ready p"
proof (cases "pr_ready p")
  case True
  obtain tg g where st: "st = (tg, g)" by (cases st)
  from parser_parse_steps [OF assms [unfolded st] True]
  obtain c x y where p': "p' = p\<lparr>pr_raw := input, pr_clean := c, pr_simplified := x, pr_extended := x, pr_sentences := y\<rparr>"
    by metis
  show ?thesis by (simp add: p' pr_ready_def is_configured_def)
next
  case False
  then have "p' = p" using assms by (auto simp: parser_parse_def pr_ready_def split: prod.splits if_splits)
  then show ?thesis by simp
qed

lemma pr_ready_sentences [simp]: "pr_ready (p\<lparr>pr_sentences := ss\<rparr>) = pr_ready p"
  by (simp add: pr_ready_def is_configured_def)

lemma sentence_texts_not_Nil: "sentence_texts c \<noteq> []"
  by (simp add: sentence_texts_def)

lemma get_answer_full:
  assumes "get_answer env username input sh = Inr (answer, sh')"
    and "shell_ready sh" "\<And>j. shuffles (env_shuffle env j)"
  shows "answer \<noteq> [] \<and> shell_ready sh'"
proof (cases "get_predefined_output (env_rx env) (env_hour env) (env_shuffle env 0) (sh_predefined sh) input = []")
  case False
  then show ?thesis using assms(1,2) by (auto simp: get_answer_def and_then_def shell_ready_def Let_def)
next
  case True
  then obtain sh1 as ss sh2 where p: "parse_text env input sh = Inr sh1"
    and a: "answer_sentences env 0 (pr_sentences (sh_parser sh1)) sh1 = Inr (as, ss, sh2)"
    and o: "answer = join '' '' as"
    and sh': "sh_parser sh' = (sh_parser sh2)\<lparr>pr_sentences := ss\<rparr>" "sh_predefined sh' = sh_predefined sh2"
    using assms(1) by (auto simp: get_answer_def and_then_Inr Let_def)
  obtain q tg g where q: "parser_parse (env_rx env) (env_ord env) (env_pos env) (env_stale env) (env_words env) input
      (sh_parser sh) (sh_tagger sh, sh_grammar sh) = Inr (q, tg, g)"
    "sh1 = sh\<lparr>sh_parser := q, sh_tagger := tg, sh_grammar := g\<rparr>"
    using p by (auto simp: parse_text_def split: sum.splits)
  have ready: "pr_ready (sh_parser sh)" "pd_ready (sh_predefined sh)" using assms(2) by (simp_all add: shell_ready_def)
  note ss = parser_parse_sentences [OF q(1) ready(1)]
  have k: "sh_parser sh2 = q \<and> sh_predefined sh2 = sh_predefined sh \<and> length as = length (pr_sentences q) \<and> [] \<notin> set as"
    using answer_sentences_keep [OF a assms(3)] ss ready(2) by (simp add: q(2))
  then have "as \<noteq> []" using ss sentence_texts_not_Nil by (metis length_0_conv)
  moreover have "shell_ready sh'"
    using k ready parser_parse_ready [OF q(1)] by (simp add: shell_ready_def sh')
  ultimately show ?thesis using k join_not_Nil by (simp add: o)
qed

lemma answers_of_full:
  assumes "answers_of env k username lines sh = Inr (cs, sh')" "shell_ready sh" "\<And>k j. shuffles (env_shuffle (env k) j)"
  shows "map fst cs = takeWhile (\<lambda>l. \<not> leaves_shell l) lines \<and> [] \<notin> snd ` set cs"
  using assms(1,2)
proof (induction lines arbitrary: k sh cs)
  case (Cons input lines)
  show ?case
  proof (cases "leaves_shell input")
    case False
    then obtain answer sh1 rest where g: "get_answer (env k) username input sh = Inr (answer, sh1)"
      and r: "answers_of env (Suc k) username lines sh1 = Inr (rest, sh')" "cs = (input, answer) # rest"
      using Cons.prems(1) by (auto simp: and_then_Inr)
    with get_answer_full [OF g Cons.prems(2) assms(3)] Cons.IH [OF r(1)] False show ?thesis by auto
  qed (use Cons.prems in simp)
qed simp

text \<open>Where a conversation stops when an exception is thrown: every line before was answered, and the exception
  was thrown by the line that follows, which had no predefined answer.\<close>

definition stopped_by :: "(nat \<Rightarrow> shell_env) \<Rightarrow> string \<Rightarrow> string list \<Rightarrow> shell \<Rightarrow> shell_error \<Rightarrow> bool" where
  "stopped_by env username lines sh err \<longleftrightarrow>
    (\<exists>answered input rest sh1.
       takeWhile (\<lambda>l. \<not> leaves_shell l) lines = map fst answered @ input # rest
       \<and> [] \<notin> snd ` set answered
       \<and> answers_of env 0 username (map fst answered) sh = Inr (answered, sh1)
       \<and> get_predefined_output (env_rx (env (length answered))) (env_hour (env (length answered)))
           (env_shuffle (env (length answered)) 0) (sh_predefined sh1) input = []
       \<and> get_answer (env (length answered)) username input sh1 = Inl err)"

lemma get_answer_fails:
  assumes "get_answer env username input sh = Inl err"
  shows "get_predefined_output (env_rx env) (env_hour env) (env_shuffle env 0) (sh_predefined sh) input = []"
  using assms by (auto simp: get_answer_def and_then_Inl Let_def split: if_splits)

lemma answers_of_stops:
  assumes "answers_of env k username lines sh = Inl err" "shell_ready sh" "\<And>k j. shuffles (env_shuffle (env k) j)"
  shows "\<exists>answered input rest sh1.
    takeWhile (\<lambda>l. \<not> leaves_shell l) lines = map fst answered @ input # rest \<and> [] \<notin> snd ` set answered
    \<and> answers_of env k username (map fst answered) sh = Inr (answered, sh1)
    \<and> get_answer (env (k + length answered)) username input sh1 = Inl err"
  using assms(1,2)
proof (induction lines arbitrary: k sh)
  case (Cons input lines)
  then have stays: "\<not> leaves_shell input" by (auto split: if_splits)
  show ?case
  proof (cases "get_answer (env k) username input sh")
    case (Inl e)
    then have "get_answer (env (k + length ([] :: (string \<times> string) list))) username input sh = Inl err"
      using Cons.prems(1) stays by (simp add: and_then_def)
    then show ?thesis using stays by (intro exI [of _ "[] :: (string \<times> string) list"]) simp
  next
    case (Inr x)
    then obtain answer sh1 where g: "get_answer (env k) username input sh = Inr (answer, sh1)" by (cases x) auto
    note full = get_answer_full [OF g Cons.prems(2) assms(3)]
    have "answers_of env (Suc k) username lines sh1 = Inl err"
      using Cons.prems(1) stays g by (auto simp: and_then_Inl)
    from Cons.IH [OF this] full obtain answered input' rest sh2 where
      "takeWhile (\<lambda>l. \<not> leaves_shell l) lines = map fst answered @ input' # rest" "[] \<notin> snd ` set answered"
      "answers_of env (Suc k) username (map fst answered) sh1 = Inr (answered, sh2)"
      "get_answer (env (Suc k + length answered)) username input' sh2 = Inl err"
      by blast
    then show ?thesis
      using stays g full by (intro exI [of _ "(input, answer) # answered"]) (auto simp: and_then_def)
  qed
qed simp

lemma stopped_byI:
  assumes "answers_of env 0 username lines sh = Inl err" "shell_ready sh" "\<And>k j. shuffles (env_shuffle (env k) j)"
  shows "stopped_by env username lines sh err"
  using answers_of_stops [OF assms] get_answer_fails unfolding stopped_by_def by force

lemma init_ready:
  assumes "shell_init env language p buf sh0 = Some (Inr sh)" "language \<noteq> []" "p \<noteq> []"
  shows "shell_ready sh"
proof -
  show ?thesis
    using assms
    by (auto simp: shell_init_def shell_ready_def pr_ready_def pd_ready_def is_configured_def set_path_def set_lang_def
        set_verbose_def set_buffered_def pr_set_tagger_def pr_set_grammar_def pd_set_tagger_def pd_set_grammar_def
        split: option.splits sum.splits)
qed

section \<open>Properties\<close>

text \<open>C2. The answer to a sentence with a fact is what the phraser says of a fact that the database
  found and that has the highest positive score against the changed fact of the sentence; only when
  no fact has a positive score, or the phraser says nothing, is it a predefined answer.\<close>

theorem answer_from_best_fact:
  assumes "sn_fact s = Some infact"
    and "find_by_fact (env_visit env) (env_ord env) (env_verbs env) (env_tog env) (env_pos env)
      (sh_database sh) (wdisk (sh_world sh)) [] infact (sh_tagger sh) = Inr (ret, matches, infact1, tg1)"
    and "\<And>vs. set (env_shuffle_facts env k vs) = set vs"
    and "answer_sentence env k s sh = Inr (a, s', sh')"
  shows "if \<exists>f \<in> set matches. d_pos (fact_quotient filterlist_new infact1 f)
    then \<exists>f o1 tg2 said.
      best_match infact1 matches f \<and> prepare_tags (env_pos env) (fact_obj f) tg1 = Inr (o1, tg2)
      \<and> said = fst (phrase (env_rx env) (sh_phraser sh) (sh_local sh) (f\<lparr>fact_obj := o1\<rparr>))
      \<and> a = (if said = [] then get_random_output (env_rx env) (env_shuffle env (Suc k)) (sh_predefined sh) s else said)
    else a = get_random_output (env_rx env) (env_shuffle env (Suc k)) (sh_predefined sh) s"
proof (cases "fst (best_one (env_shuffle_facts env k) (show_ranks (rank_facts infact1 matches)))")
  case None
  then have "\<forall>f \<in> set matches. \<not> d_pos (fact_quotient filterlist_new infact1 f)"
    using best_fact [where x = infact1 and fs = matches, OF assms(3)] by simp
  then show ?thesis using assms(1,2,4) None by (auto simp: answer_sentence_def Let_def)
next
  case (Some f)
  then have f: "best_match infact1 matches f"
    using best_fact [where x = infact1 and fs = matches, OF assms(3)] by simp
  then have "\<exists>f \<in> set matches. d_pos (fact_quotient filterlist_new infact1 f)"
    by (force simp: best_match_def d_pos_def)
  moreover obtain o1 tg2 where t: "prepare_tags (env_pos env) (fact_obj f) tg1 = Inr (o1, tg2)"
    using assms(1,2,4) Some by (auto simp: answer_sentence_def Let_def split: sum.splits)
  moreover have "a = (let said = fst (phrase (env_rx env) (sh_phraser sh) (sh_local sh) (f\<lparr>fact_obj := o1\<rparr>))
      in if said = [] then get_random_output (env_rx env) (env_shuffle env (Suc k)) (sh_predefined sh) s else said)"
    using assms(1,2,4) Some t by (auto simp: answer_sentence_def Let_def split: prod.splits)
  ultimately show ?thesis using f by (auto simp: Let_def)
qed

text \<open>A fact on the disk, the same fact as a question, and a tagger for its words.\<close>

definition cat_sees :: xml_fact where
  "cat_sees = simple_fact [(''verb'', ''sees''), (''subject'', ''Cat'')]"

definition cat_disk :: disk where
  "cat_disk =
    (case read_xml_fact_file stored_db ''a.xml'' (printed [fact_obj cat_sees]) diskdb_new of
       Inr (k, d) \<Rightarrow> fst (to_disk remdups stored_db [] ([], d)) | Inl err \<Rightarrow> [])"

definition cat_pos :: pos_lookup where
  "cat_pos w g = Inr (if w = ''Cat'' then (''n'', ''f'') else (''v'', []), g)"

definition keep_person :: "string \<Rightarrow> tagger \<Rightarrow> rx_error + (nat \<times> string \<times> tagger)" where
  "keep_person w g = Inr (1, w, g)"

text \<open>An engine that only knows a greeting.\<close>

definition hello_rx :: rx where
  "hello_rx = \<lparr>rx_valid = \<lambda>e. True, rx_search = \<lambda>i e s. if e = greeting_words then Some [s] else None,
    rx_subst = \<lambda>i e r s. s\<rparr>"

definition cat_env :: shell_env where
  "cat_env = \<lparr>env_rx = hello_rx, env_ord = remdups, env_visit = id, env_verbs = None,
    env_tog = keep_person, env_pos = cat_pos, env_stale = no_stale, env_words = no_files,
    env_files = \<lambda>p. if p = ''./lang_de/grammar.txt'' then Some way_rules else None, env_hour = 8,
    env_shuffle = \<lambda>k. rev, env_shuffle_facts = \<lambda>k. rev\<rparr>"

definition cat_phraser :: phraser where
  "cat_phraser = \<lparr>verbose = True, buffered = False, lang = ''de'', path = ''.'', ph_tagger = True, ph_grammar = True\<rparr>"

definition cat_shell :: shell where
  "cat_shell =
    \<lparr>sh_tagger = plain_tagger, sh_grammar = grammar_new, sh_parser = way_parser, sh_phraser = cat_phraser,
     sh_local = False, sh_database = stored_db, sh_world = \<lparr>wdisk = cat_disk, wcache = []\<rparr>,
     sh_predefined = \<lparr>verbose = True, buffered = False, lang = ''de'', path = ''.'', pd_tagger = True, pd_grammar = True\<rparr>,
     sh_history = None\<rparr>"

definition cat_sentence :: sentence where
  "cat_sentence = way_sentence\<lparr>sn_fact := Some cat_sees\<rparr>"

definition cat_query :: "db_error + (nat \<times> xml_fact list \<times> xml_fact \<times> tagger)" where
  "cat_query = find_by_fact id remdups None keep_person cat_pos stored_db cat_disk [] cat_sees plain_tagger"

definition cat_found :: xml_fact where
  "cat_found = (case cat_query of Inr (ret, f # fs, x, g) \<Rightarrow> f | _ \<Rightarrow> new_fact)"

definition cat_asked :: xml_fact where
  "cat_asked = (case cat_query of Inr (ret, fs, x, g) \<Rightarrow> x | _ \<Rightarrow> new_fact)"

definition cat_said :: "xml_obj \<times> tagger" where
  "cat_said = (case prepare_tags cat_pos (fact_obj cat_found) plain_tagger of Inr r \<Rightarrow> r | Inl err \<Rightarrow> (new_xml TEXT, plain_tagger))"

lemma cat_query_eq: "cat_query = Inr (0, [cat_found], cat_asked, plain_tagger)"
  by code_simp

lemma cat_score: "d_pos (fact_quotient filterlist_new cat_asked cat_found)"
  by code_simp

lemma cat_tagged: "prepare_tags cat_pos (fact_obj cat_found) plain_tagger = Inr cat_said"
  by code_simp

lemma cat_phrase: "fst (phrase hello_rx cat_phraser False (cat_found\<lparr>fact_obj := fst cat_said\<rparr>)) = ''Cat sees.''"
  by code_simp

lemmas cat_simps = cat_env_def cat_shell_def cat_sentence_def cat_query_eq [unfolded cat_query_def]

lemma cat_best:
  "fst (best_one rev (show_ranks (rank_facts cat_asked [cat_found]))) = Some cat_found"
  using best_fact [where shuffle = rev and x = cat_asked and fs = "[cat_found]"] cat_score
  by (auto simp: best_match_def split: option.splits)

theorem answer_from_best_fact_witness:
  "\<exists>s' sh'. answer_sentence cat_env 0 cat_sentence cat_shell = Inr (''Cat sees.'', s', sh')"
proof -
  obtain a s' sh' where a: "answer_sentence cat_env 0 cat_sentence cat_shell = Inr (a, s', sh')"
    by (simp add: answer_sentence_def cat_simps cat_best cat_tagged Let_def case_prod_beta)
  obtain o1 tg2 where said: "cat_said = (o1, tg2)" by (cases cat_said)
  have "a = ''Cat sees.''"
    using answer_from_best_fact [OF _ _ _ a, where infact = cat_sees and ret = 0 and matches = "[cat_found]"
        and ?infact1.0 = cat_asked and ?tg1.0 = plain_tagger] cat_score cat_tagged [unfolded said] cat_phrase [unfolded said]
    by (auto simp: cat_simps best_match_def)
  then show ?thesis using a by blast
qed

text \<open>C1. The program started with a language and a path, and with neither an input nor a file for an answer or a
  graph: if it runs for ever, then in expanding the grammar, which happens for some grammars. If an exception is thrown, it comes
  from reading the grammar, from preparing the database, or from one line that has no predefined answer, and every
  line before that one was answered. Otherwise every line up to the first that ends the program is answered. No answer
  is empty, and what is printed is the growing conversation after every answer.\<close>

theorem every_line_is_answered:
  assumes "main_input (env 0) ops = []" "op_output_file ops = None" "op_graph_file ops = None"
    and "op_language ops \<noteq> []" "op_path ops \<noteq> []" "\<And>k j. shuffles (env_shuffle (env k) j)"
  shows "case main_run env ops src lines sh0 of
      None \<Rightarrow> init_grammar (env 0) (op_language ops) (op_path ops) (op_buffered ops) (sh_grammar sh0) = None
    | Some (Inl err) \<Rightarrow>
        (\<exists>e. err = Grammar_failed e
          \<and> init_grammar (env 0) (op_language ops) (op_path ops) (op_buffered ops) (sh_grammar sh0) = Some (Inl e))
        \<or> (\<exists>sh. shell_init (env 0) (op_language ops) (op_path ops) (op_buffered ops) sh0 = Some (Inr sh)
          \<and> (case prepare (env_ord (env 0)) (get_language_directory (sh_database sh))
                 (src (get_language_directory (sh_database sh))) (sh_database sh, sh_world sh) of
               Inl e \<Rightarrow> err = Prepare_failed e
             | Inr (b, w) \<Rightarrow> stopped_by env (op_user ops) lines (sh\<lparr>sh_database := b, sh_world := w\<rparr>) err))
    | Some (Inr (written, shown, sh')) \<Rightarrow>
        written = [] \<and> (\<exists>conversation.
          map fst conversation = takeWhile (\<lambda>l. \<not> leaves_shell l) lines
          \<and> [] \<notin> snd ` set conversation
          \<and> shown = [newline] @ ''freehal:'' @ op_language ops @ ''> ''
              @ screens ([newline] @ ''freehal:'' @ op_language ops @ ''> '') (op_user ops) [] conversation)"
proof -
  let ?init = "shell_init (env 0) (op_language ops) (op_path ops) (op_buffered ops) sh0"
  have run: "main_run env ops src lines sh0 = map_option (\<lambda>x. and_then x (main_shell env ops src lines)) ?init"
    using assms(1-3) by (simp add: main_run_def Let_def)
  show ?thesis
  proof (cases "\<exists>sh. ?init = Some (Inr sh)")
    case False
    then show ?thesis
      by (auto simp: run shell_init_def and_then_def split: option.splits sum.splits)
  next
    case True
    then obtain sh where i: "?init = Some (Inr sh)" by blast
    let ?p = "get_language_directory (sh_database sh)"
    have ready: "shell_ready (sh\<lparr>sh_database := b, sh_world := w\<rparr>)" for b w
      using init_ready [OF i assms(4,5)] by (simp add: shell_ready_def)
    show ?thesis
    proof (cases "prepare (env_ord (env 0)) ?p (src ?p) (sh_database sh, sh_world sh)")
      case (Inl e)
      then show ?thesis using i by (simp add: run main_shell_def and_then_def Let_def)
    next
      case (Inr x)
      then obtain b w where p: "prepare (env_ord (env 0)) ?p (src ?p) (sh_database sh, sh_world sh) = Inr (b, w)"
        by (cases x) auto
      let ?sh = "sh\<lparr>sh_database := b, sh_world := w\<rparr>"
      show ?thesis
      proof (cases "answers_of env 0 (op_user ops) lines ?sh")
        case (Inl err)
        then have "main_run env ops src lines sh0 = Some (Inl err)"
          using i p by (simp add: run main_shell_def shell_run_def shell_loop_answers and_then_def Let_def)
        then show ?thesis using i p stopped_byI [OF Inl ready assms(6)] by simp
      next
        case (Inr y)
        then obtain cs sh1 where c: "answers_of env 0 (op_user ops) lines ?sh = Inr (cs, sh1)" by (cases y) auto
        then show ?thesis
          using i p answers_of_full [OF c ready assms(6)]
          by (auto simp: run main_shell_def shell_run_def shell_loop_answers and_then_def Let_def)
      qed
    qed
  qed
qed

definition cat_options :: options where
  "cat_options = \<lparr>op_language = ''de'', op_path = ''.'', op_buffered = False, op_user = [], op_input = None,
     op_input_file = None, op_output_file = None, op_graph_file = None\<rparr>"

text \<open>The objects as they are made.\<close>

definition start_shell :: shell where
  "start_shell =
    \<lparr>sh_tagger = tagger_new, sh_grammar = grammar_new,
     sh_parser = way_parser\<lparr>lang := [], path := [], pr_tagger := False, pr_grammar := False\<rparr>,
     sh_phraser = \<lparr>verbose = True, buffered = False, lang = [], path = [], ph_tagger = False, ph_grammar = False\<rparr>,
     sh_local = False, sh_database = database_new, sh_world = \<lparr>wdisk = [], wcache = []\<rparr>,
     sh_predefined = \<lparr>verbose = True, buffered = False, lang = [], path = [], pd_tagger = False, pd_grammar = False\<rparr>,
     sh_history = None\<rparr>"

definition start_grammar :: grammar where
  "start_grammar =
    (case read_grammar remdups (Some way_rules) (set_path ''.'' (set_lang ''de'' grammar_new)) of
       Inr (ret, g) \<Rightarrow> g | Inl err \<Rightarrow> grammar_new)"

lemma start_read: "read_grammar remdups (Some way_rules) (set_path ''.'' (set_lang ''de'' grammar_new)) = Inr (0, start_grammar)"
  by code_simp

lemma start_expanded: "\<exists>g. expand remdups (set_buffered False (set_verbose True start_grammar)) = Some g"
proof -
  let ?g = "set_buffered False (set_verbose True start_grammar)"
  have "fst (expand_step remdups ?g)" by code_simp
  then obtain n g where "expand_step remdups ?g = (True, n, g)" by (cases "expand_step remdups ?g") auto
  then show ?thesis by (simp add: expand_def expand_loop_done)
qed

lemma start_grammar_file: "language_file cat_env (set_path ''.'' (set_lang ''de'' grammar_new)) ''grammar.txt'' = Some way_rules"
  by (simp add: language_file_def cat_env_def get_language_directory_def path_append_def set_path_def set_lang_def
      grammar_new_def)

lemma start_init: "\<exists>sh. shell_init cat_env ''de'' ''.'' False start_shell = Some (Inr sh)"
proof -
  have "init_grammar cat_env ''de'' ''.'' False grammar_new
      = map_option Inr (expand remdups (set_buffered False (set_verbose True start_grammar)))"
    using start_read start_grammar_file by (simp add: init_grammar_def Let_def cat_env_def)
  then show ?thesis using start_expanded by (auto simp: shell_init_def start_shell_def)
qed

lemma hello_answered:
  "pd_ready pd \<Longrightarrow> get_predefined_output hello_rx 8 rev pd ''hallo'' = ''Guten Morgen!''"
  by (simp add: get_predefined_output_def try_greeting_def try_thanks_def regex_ifind_def hello_rx_def)

theorem every_line_is_answered_witness:
  "\<exists>shown sh' answer. main_run (\<lambda>k. cat_env) cat_options (\<lambda>p. None) [''hallo'', ''q''] start_shell = Some (Inr ([], shown, sh'))
    \<and> answer \<noteq> []
    \<and> shown = [newline] @ ''freehal:de> '' @ screens ([newline] @ ''freehal:de> '') [] [] [(''hallo'', answer)]"
proof -
  obtain sh where i: "shell_init cat_env ''de'' ''.'' False start_shell = Some (Inr sh)" using start_init by blast
  then have "pd_ready (sh_predefined sh)" using init_ready [OF i] by (simp add: shell_ready_def)
  then have g: "\<exists>sh'. get_answer cat_env [] ''hallo'' (sh\<lparr>sh_database := b, sh_world := w\<rparr>) = Inr (''Guten Morgen!'', sh')" for b w
    by (simp add: get_answer_def and_then_def cat_env_def hello_answered Let_def)
  obtain b w where "prepare remdups (get_language_directory (sh_database sh)) None (sh_database sh, sh_world sh) = Inr (b, w)"
    by (cases "db_configured (sh_database sh)") (simp_all add: prepare_def prepare_node.simps [of _ _ None])
  moreover obtain sh1 where "get_answer cat_env [] ''hallo'' (sh\<lparr>sh_database := b, sh_world := w\<rparr>) = Inr (''Guten Morgen!'', sh1)"
    using g by blast
  moreover have "env_ord cat_env = remdups" by (simp add: cat_env_def)
  ultimately obtain shown sh' where m: "main_run (\<lambda>k. cat_env) cat_options (\<lambda>p. None) [''hallo'', ''q''] start_shell = Some (Inr ([], shown, sh'))"
    using i
    by (simp add: main_run_def main_input_def main_shell_def shell_run_def and_then_def leaves_shell_def Let_def
        cat_options_def)
  have "shuffles (env_shuffle cat_env j)" for j by (simp add: shuffles_def cat_env_def)
  then have "\<exists>answer. answer \<noteq> [] \<and> shown = [newline] @ ''freehal:de> '' @ screens ([newline] @ ''freehal:de> '') [] [] [(''hallo'', answer)]"
    using every_line_is_answered [where env = "\<lambda>k. cat_env" and ops = cat_options and src = "\<lambda>p. None"
        and lines = "[''hallo'', ''q'']" and ?sh0.0 = start_shell] m
    by (auto simp: main_input_def cat_options_def leaves_shell_def simp del: screens.simps) metis
  then show ?thesis using m by blast
qed

end
