(* ===== verification/HalXml.thy ===== *)
theory HalXml
  imports XmlReader Complex_Main
begin

text \<open>
  \<^verbatim>\<open>hal2012-xml.cpp\<close>: the XML of the older program. A \<^verbatim>\<open>RECORD\<close> of the C interface becomes a
  tree, the tree is printed, a file of printed facts is read back, and every fact is handed to the store
  as the arguments of \<^verbatim>\<open>add_fact\<close> and \<^verbatim>\<open>add_clause\<close>.

  The store is chosen when the program runs (\<^verbatim>\<open>is_engine\<close>), so its two operations are parameters.
  \<^verbatim>\<open>halxml_ordertags\<close> has the same body as in \<^verbatim>\<open>hal2012-xml2012.cpp\<close> and is shared with \<open>XmlReader\<close>.
  A tree has the mode \<^verbatim>\<open>LIST\<close> or \<^verbatim>\<open>TEXT\<close>; \<^verbatim>\<open>ANY\<close> is never made. Doubles and floats are rational
  numbers. Console output, the file \<^verbatim>\<open>_input_key\<close> and the transactions of the store are left out, and so
  is freeing.
\<close>

section \<open>Trees\<close>

datatype xml_object = Hal_text string | Hal_list string "xml_object list"

fun get_name :: "xml_object \<Rightarrow> string" where
  "get_name (Hal_text t) = []"
| "get_name (Hal_list n content) = n"

fun hal_print_at :: "nat \<Rightarrow> nat \<Rightarrow> xml_object \<Rightarrow> string" where
  "hal_print_at level0 second0 (Hal_text t) = t"
| "hal_print_at level0 second0 (Hal_list n content) =
    (let level = (if n = ''clause'' then Suc level0 else level0);
         second = (if n = ''clause'' then 0 else second0);
         eol = (if second = 0 then [newline] else [])
     in ''<'' @ n @ ''>'' @ eol
        @ concat (map (\<lambda>c. (if second = 0 then indent (Suc level) else []) @ hal_print_at level (Suc second) c @ eol)
            content)
        @ (if second = 0 then indent level else []) @ ''</'' @ n @ ''>'')"

definition hal_print_xml :: "xml_object \<Rightarrow> string" where
  "hal_print_xml x = hal_print_at 0 0 x @ [newline]"

fun hal_print_str :: "xml_object \<Rightarrow> string" where
  "hal_print_str (Hal_text t) = t"
| "hal_print_str (Hal_list n content) =
    (let delem = (if n = ''and'' then '' and '' else if n = ''or'' then '' or '' else [])
     in join delem (map hal_print_str content))"

definition hal_part :: "string \<Rightarrow> xml_object list \<Rightarrow> xml_object list" where
  "hal_part tag content = filter (\<lambda>x. get_name x = tag) content"

definition print_part :: "string \<Rightarrow> xml_object list \<Rightarrow> string" where
  "print_part tag content = join '' '' (map hal_print_str (hal_part tag content))"

section \<open>Reading\<close>

text \<open>The vector and the index are the lines from the index on; the loops return how far the index moved.
  \<open>advance\<close> adds what the index moved before. A loop leaves the index on the name of the closing tag.\<close>

definition advance :: "nat \<Rightarrow> read_error + ('a \<times> nat) \<Rightarrow> read_error + ('a \<times> nat)" where
  "advance k res = (case res of Inl err \<Rightarrow> Inl err | Inr (x, i) \<Rightarrow> Inr (x, k + i))"

function hal_readtree :: "string \<Rightarrow> xml_object list \<Rightarrow> string list \<Rightarrow> read_error + (xml_object list \<times> nat)" where
  "hal_readtree tag tree [] = Inr (tree, 0)"
| "hal_readtree tag tree (l # r) =
    (if l = ''>'' then
       (case r of
          [] \<Rightarrow> Inl Out_of_range
        | n # r' \<Rightarrow> if n = tag then Inr (tree, 1) else advance 2 (hal_readtree tag tree r'))
     else if l = ''<'' then
       (case r of
          [] \<Rightarrow> Inl Out_of_range
        | n # r' \<Rightarrow>
            (case hal_readtree n [] r' of
               Inl err \<Rightarrow> Inl err
             | Inr (sub, i) \<Rightarrow>
                 advance (i + 3) (hal_readtree tag (tree @ [Hal_list n sub]) (drop (Suc i) r'))))
     else advance 1 (hal_readtree tag (if l \<noteq> [] then tree @ [Hal_text (trim l)] else tree) r))"
  by pat_completeness auto
termination by (relation "measure (\<lambda>(tag, tree, ls). length ls)") auto

function hal_readfact :: "xml_object list \<Rightarrow> string list \<Rightarrow> read_error + (xml_object list \<times> nat)" where
  "hal_readfact tree [] = Inr (tree, 0)"
| "hal_readfact tree (l # r) =
    (if l = ''>'' then
       (case r of
          [] \<Rightarrow> Inl Out_of_range
        | n # r' \<Rightarrow> if n = ''fact'' then Inr (tree, 1) else advance 2 (hal_readfact tree r'))
     else if l = ''<'' then
       (case r of
          [] \<Rightarrow> Inl Out_of_range
        | n # r' \<Rightarrow>
            (case hal_readtree n [] r' of
               Inl err \<Rightarrow> Inl err
             | Inr (sub, i) \<Rightarrow> advance (i + 3) (hal_readfact (tree @ [Hal_list n sub]) (drop (Suc i) r'))))
     else advance 1 (hal_readfact tree r))"
  by pat_completeness auto
termination by (relation "measure (\<lambda>(tree, ls). length ls)") auto

declare hal_readtree.simps(2) [simp del] hal_readfact.simps(2) [simp del]

section \<open>Numbers in texts\<close>

text \<open>\<^verbatim>\<open>%f\<close>: six digits after the point, halves to the even neighbour.\<close>

definition millionths :: "rat \<Rightarrow> nat" where
  "millionths q =
    (let x = q * 1000000; n = nat \<lfloor>x\<rfloor>; rest = x - of_nat n
     in if rest < 1 / 2 \<or> rest = 1 / 2 \<and> even n then n else Suc n)"

definition six_digits :: "nat \<Rightarrow> string" where
  "six_digits n = map (\<lambda>k. char_of (48 + n div 10 ^ k mod 10)) [5, 4, 3, 2, 1, 0]"

definition show_float :: "rat \<Rightarrow> string" where
  "show_float q =
    (let n = millionths \<bar>q\<bar>
     in (if q < 0 then ''-'' else []) @ show_nat (n div 1000000) @ ''.'' @ six_digits n)"

text \<open>A float is read from a text: white space, a sign, digits with a point among them, an exponent.
  \<^const>\<open>None\<close> is a text without a number. The spellings of \<^verbatim>\<open>scanf\<close> that a stream does not know (infinity,
  hexadecimal) are left out.\<close>

definition read_sign :: "string \<Rightarrow> bool \<times> string" where
  "read_sign s =
    (case s of [] \<Rightarrow> (False, [])
     | c # t \<Rightarrow> if c = CHR ''-'' then (True, t) else if c = CHR ''+'' then (False, t) else (False, s))"

definition read_float :: "string \<Rightarrow> rat option" where
  "read_float s =
    (let (neg, u) = read_sign (dropWhile is_space s);
         ds = takeWhile is_digit u; u1 = dropWhile is_digit u;
         u2 = (case u1 of c # t \<Rightarrow> if c = CHR ''.'' then t else [] | [] \<Rightarrow> []);
         fs = takeWhile is_digit u2;
         u3 = (if u1 \<noteq> [] \<and> hd u1 = CHR ''.'' then dropWhile is_digit u2 else u1);
         m = of_nat (digits_val (ds @ fs)) / 10 ^ length fs;
         v = (if neg then - m else m)
     in if ds @ fs = [] then None
        else if u3 \<noteq> [] \<and> (hd u3 = CHR ''e'' \<or> hd u3 = CHR ''E'') then
          (let (eneg, u4) = read_sign (tl u3); es = takeWhile is_digit u4; e = digits_val es
           in if es = [] then None else Some (if eneg then v / 10 ^ e else v * 10 ^ e))
        else Some v)"

text \<open>\<^verbatim>\<open>scanf\<close> with a number of \<^verbatim>\<open>%d\<close>: it stops at the first that has no digit. A result that becomes a
  \<^verbatim>\<open>short\<close> wraps at 16 bits.\<close>

fun scan_ints :: "nat \<Rightarrow> string \<Rightarrow> int list" where
  "scan_ints 0 s = []"
| "scan_ints (Suc n) s =
    (let (neg, u) = read_sign (dropWhile is_space s); ds = takeWhile is_digit u; v = int (digits_val ds)
     in if ds = [] then [] else (if neg then - v else v) # scan_ints n (dropWhile is_digit u))"

section \<open>Records\<close>

text \<open>\<open>r_clauses\<close> are the pointers before the first null pointer of the array.\<close>

datatype hal_record = Hal_record
  (r_verb: string) (r_subjects: string) (r_objects: string) (r_adverbs: string) (r_extra: string)
  (r_questionword: string) (r_filename: string) (r_line: string) (r_clauses: "hal_record list") (r_num_clauses: int) (r_truth: rat)
  (r_want: int) (r_must: int) (r_can: int) (r_may: int) (r_should: int)

definition max_clauses :: nat where
  "max_clauses = 10"

definition field_tree :: "string \<Rightarrow> string \<Rightarrow> xml_object" where
  "field_tree n t = Hal_list n [Hal_text (trim t)]"

definition truth_text :: "hal_record \<Rightarrow> string" where
  "truth_text r = take 8 (show_float (r_truth r))"

definition flags_text :: "hal_record \<Rightarrow> string" where
  "flags_text r = take 8 (concat (map show_int [r_want r, r_must r, r_can r, r_may r, r_should r]))"

definition record_parts :: "hal_record \<Rightarrow> xml_object list" where
  "record_parts r =
    [field_tree ''subject'' (r_subjects r), field_tree ''object'' (r_objects r), field_tree ''verb'' (r_verb r),
     field_tree ''adverbs'' (r_adverbs r), field_tree ''extra'' (r_extra r),
     field_tree ''questionword'' (r_questionword r), field_tree ''truth'' (truth_text r),
     field_tree ''flags'' (flags_text r)]"

definition ends_clauses :: "hal_record \<Rightarrow> bool" where
  "ends_clauses c \<longleftrightarrow>
    (r_subjects c = [] \<and> r_objects c = [] \<and> r_verb c = []
     \<and> \<not> (r_want c \<noteq> 0 \<or> r_must c \<noteq> 0 \<or> r_can c \<noteq> 0 \<or> r_may c \<noteq> 0 \<or> r_should c \<noteq> 0))
    \<or> (r_questionword c \<noteq> [] \<and> hd (r_questionword c) = CHR '')'')"

definition written_clauses :: "hal_record \<Rightarrow> hal_record list" where
  "written_clauses r =
    takeWhile (\<lambda>c. \<not> ends_clauses c) (take (min (nat (r_num_clauses r)) (max_clauses - 1)) (r_clauses r))"

text \<open>A clause is made by the same function with another level, which keeps its own clauses out.\<close>

definition record_to_fact :: "hal_record \<Rightarrow> xml_object list" where
  "record_to_fact r = record_parts r @ map (\<lambda>c. Hal_list ''clause'' (record_parts c)) (written_clauses r)"

definition record_to_xml :: "hal_record \<Rightarrow> string" where
  "record_to_xml r = hal_print_xml (Hal_list ''fact'' (record_to_fact r))"

section \<open>Handing facts to the store\<close>

record fact_args =
  fa_subject :: string
  fa_object :: string
  fa_verb :: string
  fa_adverbs :: string
  fa_extra :: string
  fa_questionword :: string
  fa_filename :: string
  fa_line :: string
  fa_truth :: "rat option"
  fa_flags :: "int list"

definition read_flags :: "string \<Rightarrow> int list" where
  "read_flags t = (let is = (if length t = 5 then scan_ints 5 t else []) in map as_short is @ replicate (5 - length is) 0)"

text \<open>The truth of a fact is read by a stream, which gives 0 where there is no number; that of a clause
  stays uninitialised there.\<close>

definition part_args :: "xml_object list \<Rightarrow> string \<Rightarrow> string \<Rightarrow> rat option \<Rightarrow> fact_args" where
  "part_args x filename line truth =
    \<lparr>fa_subject = print_part ''subject'' x, fa_object = print_part ''object'' x, fa_verb = print_part ''verb'' x,
     fa_adverbs = print_part ''adverbs'' x, fa_extra = print_part ''extra'' x,
     fa_questionword = print_part ''questionword'' x, fa_filename = filename, fa_line = line,
     fa_truth = truth, fa_flags = read_flags (print_part ''flags'' x)\<rparr>"

definition fact_truth :: "xml_object list \<Rightarrow> rat option" where
  "fact_truth x = Some (case read_float (print_part ''truth'' x) of None \<Rightarrow> 0 | Some v \<Rightarrow> v)"

definition clause_truth :: "xml_object list \<Rightarrow> rat option" where
  "clause_truth x = read_float (print_part ''truth'' x)"

fun content_of :: "xml_object \<Rightarrow> xml_object list" where
  "content_of (Hal_text t) = []"
| "content_of (Hal_list n content) = content"

text \<open>\<open>add_fact\<close> returns the key of the stored fact, or \<^const>\<open>None\<close>.\<close>

definition add_xml_fact ::
  "(fact_args \<Rightarrow> 'd \<Rightarrow> int option \<times> 'd) \<Rightarrow> (int \<Rightarrow> fact_args \<Rightarrow> 'd \<Rightarrow> 'd) \<Rightarrow>
    string \<Rightarrow> string \<Rightarrow> xml_object list \<Rightarrow> 'd \<Rightarrow> 'd"
where
  "add_xml_fact add_fact add_clause filename line x d =
    (let (key, d1) = add_fact (part_args x filename line (fact_truth x)) d in
     case key of
       None \<Rightarrow> d1
     | Some pk \<Rightarrow>
         fold (\<lambda>c. add_clause pk (part_args (content_of c) filename line (clause_truth (content_of c))))
           (hal_part ''clause'' x) d1)"

definition hal_use_xml_fact ::
  "(fact_args \<Rightarrow> 'd \<Rightarrow> int option \<times> 'd) \<Rightarrow> (int \<Rightarrow> fact_args \<Rightarrow> 'd \<Rightarrow> 'd) \<Rightarrow>
    string \<Rightarrow> nat \<Rightarrow> xml_object list \<Rightarrow> 'd \<Rightarrow> 'd"
where
  "hal_use_xml_fact add_fact add_clause filename k x d =
    add_xml_fact add_fact add_clause filename (show_nat (k + 1)) x d"

function hal_readfacts_loop :: "(nat \<Rightarrow> xml_object list \<Rightarrow> 'd \<Rightarrow> 'd) \<Rightarrow> string list \<Rightarrow> nat \<Rightarrow> 'd \<Rightarrow> read_error + 'd" where
  "hal_readfacts_loop use_fact [] k d = Inr d"
| "hal_readfacts_loop use_fact (l # r) k d =
    (if l = ''<'' then
       (case r of
          [] \<Rightarrow> Inl Out_of_range
        | n # r' \<Rightarrow>
            if n = ''fact'' then
              (case hal_readfact [] r' of
                 Inl err \<Rightarrow> Inl err
               | Inr (x, i) \<Rightarrow> hal_readfacts_loop use_fact (drop (Suc i) r') (k + 1) (use_fact k x d))
            else hal_readfacts_loop use_fact r' k d)
     else hal_readfacts_loop use_fact r k d)"
  by pat_completeness auto
termination by (relation "measure (\<lambda>(use_fact, ls, k, d). length ls)") auto

text \<open>The first loop, which counts the facts, is that of \<^const>\<open>count_facts\<close>.\<close>

definition hal_readfacts :: "(nat \<Rightarrow> xml_object list \<Rightarrow> 'd \<Rightarrow> 'd) \<Rightarrow> string \<Rightarrow> 'd \<Rightarrow> read_error + 'd" where
  "hal_readfacts use_fact prestr d =
    (let lines = split_lines prestr in
     case count_facts lines of
       Inl err \<Rightarrow> Inl err
     | Inr _ \<Rightarrow> hal_readfacts_loop use_fact lines 0 d)"

text \<open>\<open>instr\<close> is the content of the file, empty when it cannot be opened. The number is the returned one.\<close>

definition add_xml_fact_file ::
  "(fact_args \<Rightarrow> 'd \<Rightarrow> int option \<times> 'd) \<Rightarrow> (int \<Rightarrow> fact_args \<Rightarrow> 'd \<Rightarrow> 'd) \<Rightarrow>
    string \<Rightarrow> string \<Rightarrow> 'd \<Rightarrow> read_error + (nat \<times> 'd)"
where
  "add_xml_fact_file add_fact add_clause filename instr d =
    (if length instr = 0 then Inr (1, d)
     else
       (case hal_readfacts (hal_use_xml_fact add_fact add_clause filename) (ordertags instr []) d of
          Inl err \<Rightarrow> Inl err
        | Inr d' \<Rightarrow> Inr (0, d')))"

definition add_record_by_xml ::
  "(fact_args \<Rightarrow> 'd \<Rightarrow> int option \<times> 'd) \<Rightarrow> (int \<Rightarrow> fact_args \<Rightarrow> 'd \<Rightarrow> 'd) \<Rightarrow>
    hal_record \<Rightarrow> 'd \<Rightarrow> 'd"
where
  "add_record_by_xml add_fact add_clause r d =
    add_xml_fact add_fact add_clause (r_filename r) (r_line r) (record_to_fact r) d"

section \<open>Reading what was printed\<close>

text \<open>Trees whose lists hold one text or lists only, with names and texts that the lexer keeps.\<close>

definition keeps_text :: "string \<Rightarrow> bool" where
  "keeps_text t \<longleftrightarrow> t = [] \<or> plain_text t"

fun clean_tree :: "xml_object \<Rightarrow> bool" where
  "clean_tree (Hal_text t) = False"
| "clean_tree (Hal_list n content) =
    (clean_name n
     \<and> (case content of [Hal_text t] \<Rightarrow> keeps_text t \<and> n \<noteq> ''clause'' | _ \<Rightarrow> list_all clean_tree content))"

text \<open>What the reader makes of such a tree: an empty text is left out.\<close>

fun read_as :: "xml_object \<Rightarrow> xml_object" where
  "read_as (Hal_text t) = Hal_text t"
| "read_as (Hal_list n content) = Hal_list n (map read_as (filter (\<lambda>c. c \<noteq> Hal_text []) content))"

fun hal_lines :: "bool \<Rightarrow> nat \<Rightarrow> xml_object \<Rightarrow> string list" where
  "hal_lines blank second0 (Hal_text t) = (if t = [] then [] else [t])"
| "hal_lines blank second0 (Hal_list n content) =
    (let second = (if n = ''clause'' then 0 else second0) in
     (if blank then [[]] else []) @ [''<'', n]
     @ concat (map (hal_lines (second = 0) (Suc second)) content)
     @ (if second = 0 then [[]] else []) @ [''>'', n])"

definition is_leaf :: "xml_object \<Rightarrow> bool" where
  "is_leaf x \<longleftrightarrow> (\<exists>n t. x = Hal_list n [Hal_text t])"

lemma clean_tree_cases [case_names leaf node]:
  assumes "clean_tree x"
  obtains n t where "x = Hal_list n [Hal_text t]" "clean_name n" "keeps_text t" "n \<noteq> ''clause''"
  | n content where "x = Hal_list n content" "clean_name n" "list_all clean_tree content" "\<not> is_leaf x"
proof (cases x)
  case (Hal_list n content)
  then consider t where "content = [Hal_text t]" | "list_all clean_tree content" "\<nexists>t. content = [Hal_text t]"
    using assms by (cases content rule: remdups_adj.cases) (auto split: xml_object.splits)
  then show ?thesis
    using that Hal_list assms by cases (auto simp: is_leaf_def)
qed (use assms in simp)

lemma order_leaf:
  assumes "clean_name n" "keeps_text t" "p \<noteq> CHR ''<''"
  shows "order_chars p sp (''<'' @ n @ ''>'' @ t @ ''</'' @ n @ ''>'' @ rest) =
    unlines ((if p \<noteq> CHR ''>'' then [[]] else []) @ [''<'', n] @ (if t = [] then [] else [t]) @ [''>'', n])
      @ order_chars (CHR ''>'') False rest"
proof (cases "t = []")
  case True
  then show ?thesis using order_open [OF assms(1,3)] order_close [OF assms(1), of "CHR ''>''"] by simp
next
  case False
  then show ?thesis using order_text [OF assms(1) _ assms(3)] assms(2) by (simp add: keeps_text_def)
qed

lemma order_hal:
  "clean_tree x \<Longrightarrow> p \<noteq> CHR ''<'' \<Longrightarrow> (is_leaf x \<Longrightarrow> sec \<noteq> 0) \<Longrightarrow>
    order_chars p sp (hal_print_at lv sec x @ rest) =
      unlines (hal_lines (p \<noteq> CHR ''>'') sec x) @ order_chars (CHR ''>'') False rest"
proof (induction x arbitrary: lv sec p sp rest)
  case (Hal_text t)
  then show ?case by simp
next
  case (Hal_list name content)
  define lv' where "lv' = (if name = ''clause'' then Suc lv else lv)"
  define sec' where "sec' = (if name = ''clause'' then 0 else sec)"
  from Hal_list.prems(1) show ?case
  proof (cases rule: clean_tree_cases)
    case (leaf n t)
    then have "sec \<noteq> 0" using Hal_list.prems(3) by (simp add: is_leaf_def)
    then show ?thesis
      using leaf order_leaf [OF leaf(2,3) Hal_list.prems(2), of sp rest] by (simp add: Let_def)
  next
    case (node n kids)
    then have name: "clean_name name" and kids: "list_all clean_tree content" by simp_all
    have IH: "order_chars q u (hal_print_at l (Suc k) c @ r) =
        unlines (hal_lines (q \<noteq> CHR ''>'') (Suc k) c) @ order_chars (CHR ''>'') False r"
      if "c \<in> set content" "q \<noteq> CHR ''<''" for c q u l k r
      using Hal_list.IH that kids by (simp add: list_all_iff)
    show ?thesis
    proof (cases "sec' = 0")
      case sec: True
      have step: "order_chars q True (concat (map (\<lambda>c. indent (Suc l) @ hal_print_at l (Suc 0) c @ [newline]) cs) @ r)
          = unlines (concat (map (hal_lines True (Suc 0)) cs)) @ order_chars (if cs = [] then q else newline) True r"
        if "set cs \<subseteq> set content" for cs q l r
        using that
      proof (induction cs arbitrary: q)
        case (Cons c cs)
        then show ?case using order_indent [of True q "Suc l"] IH [of c "CHR '' ''"] by simp
      qed simp
      have print: "hal_print_at lv sec (Hal_list name content) =
          ''<'' @ name @ ''>'' @ [newline]
          @ concat (map (\<lambda>c. indent (Suc lv') @ hal_print_at lv' (Suc 0) c @ [newline]) content)
          @ indent lv' @ ''</'' @ name @ ''>''"
        using sec by (simp add: Let_def lv'_def sec'_def)
      have "order_chars (CHR ''>'') False (newline #
            concat (map (\<lambda>c. indent (Suc lv') @ hal_print_at lv' (Suc 0) c @ [newline]) content)
            @ indent lv' @ ''</'' @ name @ ''>'' @ rest)
          = unlines (concat (map (hal_lines True (Suc 0)) content)) @ [newline] @ unlines [''>'', name]
            @ order_chars (CHR ''>'') False rest"
        using step [of content newline lv'] order_indent [of True newline lv']
          order_close [OF name, of newline] order_close [OF name, of "CHR '' ''"] by simp
      then show ?thesis
        unfolding print using order_open [OF name Hal_list.prems(2)] sec by (simp add: sec'_def)
    next
      case sec: False
      have step: "order_chars (CHR ''>'') False (concat (map (hal_print_at l (Suc k)) cs) @ r)
          = unlines (concat (map (hal_lines False (Suc k)) cs)) @ order_chars (CHR ''>'') False r"
        if "set cs \<subseteq> set content" for cs l k r
        using that
      proof (induction cs)
        case (Cons c cs)
        then show ?case using IH [of c "CHR ''>''"] by simp
      qed simp
      have print: "hal_print_at lv sec (Hal_list name content) =
          ''<'' @ name @ ''>'' @ concat (map (hal_print_at lv' (Suc sec')) content) @ ''</'' @ name @ ''>''"
        using sec by (simp add: Let_def lv'_def sec'_def)
      show ?thesis
        unfolding print
        using order_open [OF name Hal_list.prems(2)] step [of content lv' sec'] order_close [OF name, of "CHR ''>''"]
          sec by (simp add: sec'_def)
    qed
  qed
qed

lemma hal_readtree_simps [simp]:
  "hal_readtree tag tree (''>'' # n # r) = (if n = tag then Inr (tree, 1) else advance 2 (hal_readtree tag tree r))"
  "hal_readtree tag tree ([] # r) = advance 1 (hal_readtree tag tree r)"
  by (simp_all add: hal_readtree.simps(2))

lemma hal_readtree_sub:
  "hal_readtree tag tree (''<'' # n # r) =
    (case hal_readtree n [] r of
       Inl err \<Rightarrow> Inl err
     | Inr (sub, i) \<Rightarrow> advance (i + 3) (hal_readtree tag (tree @ [Hal_list n sub]) (drop (Suc i) r)))"
  by (simp add: hal_readtree.simps(2))

lemma hal_readtree_text:
  assumes "plain_text t"
  shows "hal_readtree tag tree (t # r) = advance 1 (hal_readtree tag (tree @ [Hal_text t]) r)"
proof -
  have "t \<noteq> ''>''" "t \<noteq> ''<''" "t \<noteq> []" "trim t = t"
    using plain_line plain_text_ends [OF assms] assms by (auto simp: plain_text_def trim_text_def trim_def)
  then show ?thesis by (simp add: hal_readtree.simps(2))
qed

lemma advance_advance [simp]: "advance j (advance k res) = advance (j + k) res"
  by (simp add: advance_def add.assoc split: sum.split)

lemma advance_Inr [simp]: "advance k (Inr (x, i)) = Inr (x, k + i)"
  by (simp add: advance_def)

lemma advance_0 [simp]: "advance 0 res = res"
  by (simp add: advance_def split: sum.split)

text \<open>The lines between the tags of a tree, and what its closing tag makes of them.\<close>

definition body_lines :: "nat \<Rightarrow> string \<Rightarrow> xml_object list \<Rightarrow> string list" where
  "body_lines second0 n content =
    (let second = (if n = ''clause'' then 0 else second0) in
     concat (map (hal_lines (second = 0) (Suc second)) content) @ (if second = 0 then [[]] else []))"

lemma hal_lines_body:
  "hal_lines b sec (Hal_list n content) = (if b then [[]] else []) @ [''<'', n] @ body_lines sec n content @ [''>'', n]"
  by (simp add: body_lines_def Let_def)

lemma read_body:
  assumes "\<And>c tag tree r. c \<in> set content \<Longrightarrow>
      hal_readtree tag tree (hal_lines b k c @ r) = advance (length (hal_lines b k c)) (hal_readtree tag (tree @ [read_as c]) r)"
  shows "hal_readtree tag tree (concat (map (hal_lines b k) content) @ r) =
    advance (length (concat (map (hal_lines b k) content))) (hal_readtree tag (tree @ map read_as content) r)"
  using assms
proof (induction content arbitrary: tree)
  case (Cons c content)
  have "hal_readtree tag t (concat (map (hal_lines b k) content) @ r) =
    advance (length (concat (map (hal_lines b k) content))) (hal_readtree tag (t @ map read_as content) r)" for t
    using Cons by simp
  then show ?case using Cons.prems [of c] by simp
qed simp

lemma clean_not_empty: "list_all clean_tree content \<Longrightarrow> filter (\<lambda>c. c \<noteq> Hal_text []) content = content"
  by (induction content) auto

lemma read_lines:
  "clean_tree x \<Longrightarrow>
    hal_readtree tag tree (hal_lines b sec x @ r) =
      advance (length (hal_lines b sec x)) (hal_readtree tag (tree @ [read_as x]) r)
  \<and> (\<forall>n content. x = Hal_list n content \<longrightarrow>
      hal_readtree n [] (body_lines sec n content @ [''>'', n] @ r) =
        Inr (map read_as (filter (\<lambda>c. c \<noteq> Hal_text []) content), length (body_lines sec n content) + 1))"
proof (induction x arbitrary: tag tree b sec r)
  case (Hal_text t)
  then show ?case by simp
next
  case (Hal_list name content)
  define sec' where "sec' = (if name = ''clause'' then 0 else sec)"
  have inner: "hal_readtree name [] (body_lines sec name content @ [''>'', name] @ q) =
      Inr (map read_as (filter (\<lambda>c. c \<noteq> Hal_text []) content), length (body_lines sec name content) + 1)" for q
    using Hal_list.prems
  proof (cases rule: clean_tree_cases)
    case (leaf n t)
    then show ?thesis
      using hal_readtree_text [of t] by (cases "t = []") (auto simp: body_lines_def keeps_text_def)
  next
    case (node n kids)
    then have kids: "list_all clean_tree content" by simp
    have "hal_readtree tg tr (hal_lines b' k c @ q') = advance (length (hal_lines b' k c)) (hal_readtree tg (tr @ [read_as c]) q')"
      if "c \<in> set content" for tg tr b' k c q'
      using Hal_list.IH [OF that] kids that by (simp add: list_all_iff)
    then show ?thesis
      using read_body [of content] clean_not_empty [OF kids] by (simp add: body_lines_def Let_def)
  qed
  have "hal_readtree tag tree (hal_lines b sec (Hal_list name content) @ r) =
      advance (length (hal_lines b sec (Hal_list name content))) (hal_readtree tag (tree @ [read_as (Hal_list name content)]) r)"
    unfolding hal_lines_body using inner [of r] by (simp add: hal_readtree_sub eval_nat_numeral)
  then show ?case using inner by simp
qed

lemma hal_readfact_simps [simp]:
  "hal_readfact tree (''>'' # n # r) = (if n = ''fact'' then Inr (tree, 1) else advance 2 (hal_readfact tree r))"
  "hal_readfact tree ([] # r) = advance 1 (hal_readfact tree r)"
  by (simp_all add: hal_readfact.simps(2))

lemma hal_readfact_sub:
  "hal_readfact tree (''<'' # n # r) =
    (case hal_readtree n [] r of
       Inl err \<Rightarrow> Inl err
     | Inr (sub, i) \<Rightarrow> advance (i + 3) (hal_readfact (tree @ [Hal_list n sub]) (drop (Suc i) r)))"
  by (simp add: hal_readfact.simps(2))

lemma readfact_lines:
  assumes "clean_tree x"
  shows "hal_readfact tree (hal_lines b sec x @ r) = advance (length (hal_lines b sec x)) (hal_readfact (tree @ [read_as x]) r)"
proof -
  obtain n content where x: "x = Hal_list n content" using assms by (cases x) auto
  then have "hal_readtree n [] (body_lines sec n content @ [''>'', n] @ r) =
      Inr (map read_as (filter (\<lambda>c. c \<noteq> Hal_text []) content), length (body_lines sec n content) + 1)"
    using read_lines [OF assms] by blast
  then show ?thesis unfolding x hal_lines_body by (simp add: hal_readfact_sub eval_nat_numeral)
qed

lemma readfact_kids:
  "list_all clean_tree cs \<Longrightarrow>
    hal_readfact tree (concat (map (hal_lines b k) cs) @ r) =
      advance (length (concat (map (hal_lines b k) cs))) (hal_readfact (tree @ map read_as cs) r)"
proof (induction cs arbitrary: tree)
  case (Cons c cs)
  then show ?case using readfact_lines [of c tree b k] by simp
qed simp

definition clean_fact :: "xml_object list \<Rightarrow> bool" where
  "clean_fact content \<longleftrightarrow> list_all clean_tree content"

lemma clean_node:
  assumes "clean_name n" "list_all clean_tree content"
  shows "clean_tree (Hal_list n content) \<and> \<not> is_leaf (Hal_list n content)"
proof (cases content)
  case (Cons c cs)
  then show ?thesis using assms by (cases c) (simp_all add: is_leaf_def)
qed (use assms in \<open>simp add: is_leaf_def\<close>)

lemma clean_fact_tree: "clean_fact content \<Longrightarrow> clean_tree (Hal_list ''fact'' content) \<and> \<not> is_leaf (Hal_list ''fact'' content)"
proof (rule clean_node)
  show "clean_name ''fact''" by code_simp
qed (simp add: clean_fact_def)

lemma readfacts_lines:
  assumes "clean_fact content"
  shows "hal_readfacts_loop use_fact (hal_lines True 0 (Hal_list ''fact'' content) @ r) k d =
    hal_readfacts_loop use_fact r (k + 1) (use_fact k (map read_as content) d)"
proof -
  have "hal_readfact [] (concat (map (hal_lines True (Suc 0)) content) @ [] # ''>'' # ''fact'' # r) =
      Inr (map read_as content, length (concat (map (hal_lines True (Suc 0)) content)) + 2)"
    using readfact_kids [of content "[]" True "Suc 0" "[] # ''>'' # ''fact'' # r"] assms by (simp add: clean_fact_def)
  then show ?thesis by simp
qed

lemma readfacts_file:
  "list_all clean_fact xs \<Longrightarrow>
    hal_readfacts_loop use_fact (concat (map (\<lambda>x. hal_lines True 0 (Hal_list ''fact'' x)) xs)) k d =
      Inr (fold (\<lambda>(j, x). use_fact j (map read_as x)) (enumerate k xs) d)"
proof (induction xs arbitrary: k d)
  case (Cons x xs)
  then show ?case using readfacts_lines [of x use_fact] by simp
qed simp

lemma order_hal_file:
  "list_all clean_fact xs \<Longrightarrow> p \<noteq> CHR ''<'' \<Longrightarrow> p \<noteq> CHR ''>'' \<Longrightarrow>
    order_chars p sp (concat (map (\<lambda>x. hal_print_xml (Hal_list ''fact'' x)) xs)) =
      unlines (concat (map (\<lambda>x. hal_lines True 0 (Hal_list ''fact'' x)) xs))"
proof (induction xs arbitrary: p sp)
  case (Cons x xs)
  let ?rest = "concat (map (\<lambda>x. hal_print_xml (Hal_list ''fact'' x)) xs)"
  have "order_chars p sp (hal_print_at 0 0 (Hal_list ''fact'' x) @ newline # ?rest)
      = unlines (hal_lines True 0 (Hal_list ''fact'' x)) @ order_chars newline True ?rest"
    using order_hal [of "Hal_list ''fact'' x" p 0 sp 0] clean_fact_tree [of x] Cons.prems by simp
  moreover have "order_chars newline True ?rest = unlines (concat (map (\<lambda>x. hal_lines True 0 (Hal_list ''fact'' x)) xs))"
    using Cons.prems(1) by (intro Cons.IH) simp_all
  ultimately show ?case by (simp add: hal_print_xml_def [of "Hal_list ''fact'' x"])
qed simp

lemma hal_lines_newline: "clean_tree x \<Longrightarrow> l \<in> set (hal_lines b sec x) \<Longrightarrow> newline \<notin> set l"
proof (induction x arbitrary: b sec)
  case (Hal_list n content)
  have n: "newline \<notin> set n" using Hal_list.prems(1) plain_line(3) clean_name_plain by simp
  from Hal_list.prems(1) show ?case
  proof (cases rule: clean_tree_cases)
    case (leaf m t)
    then show ?thesis
      using Hal_list.prems(2) n plain_line(3) plain_text_ends(1) by (auto simp: keeps_text_def Let_def split: if_splits)
  next
    case (node m kids)
    then show ?thesis
      using Hal_list.prems(2) Hal_list.IH n by (auto simp: Let_def list_all_iff split: if_splits)
  qed
qed simp

lemma readfacts_printed:
  assumes "list_all clean_fact xs"
  shows "hal_readfacts use_fact (ordertags (concat (map (\<lambda>x. hal_print_xml (Hal_list ''fact'' x)) xs)) []) d =
    Inr (fold (\<lambda>(j, x). use_fact j (map read_as x)) (enumerate 0 xs) d)"
proof -
  let ?ls = "concat (map (\<lambda>x. hal_lines True 0 (Hal_list ''fact'' x)) xs)"
  have "\<forall>l \<in> set ?ls. newline \<notin> set l"
  proof
    fix l
    assume "l \<in> set ?ls"
    then obtain x where x: "x \<in> set xs" "l \<in> set (hal_lines True 0 (Hal_list ''fact'' x))"
      by (auto simp del: hal_lines.simps)
    then have "clean_fact x" using assms by (simp add: list_all_iff)
    then show "newline \<notin> set l" using hal_lines_newline clean_fact_tree x(2) by blast
  qed
  then have lines: "split_lines (ordertags (concat (map (\<lambda>x. hal_print_xml (Hal_list ''fact'' x)) xs)) []) = ?ls"
    using order_hal_file [OF assms, of "CHR 0x00" False] split_lines_unlines [of ?ls]
    by (simp add: ordertags_def unlines_def)
  have "count_facts ?ls \<noteq> Inl err" for err
  proof
    assume "count_facts ?ls = Inl err"
    then have e: "?ls \<noteq> []" "last ?ls = ''<''" using count_facts_error by blast+
    then have "xs \<noteq> []" by auto
    then have "last ?ls = ''fact''" by (cases xs rule: rev_cases) (simp_all add: Let_def)
    then show False using e(2) by simp
  qed
  then show ?thesis
    using lines readfacts_file [OF assms, of use_fact 0 d] by (simp add: hal_readfacts_def Let_def split: sum.split)
qed

section \<open>Numbers that were written are read\<close>

lemma digits_val_append: "digits_val (xs @ ys) = digits_val xs * 10 ^ length ys + digits_val ys"
proof -
  let ?step = "\<lambda>n c. 10 * n + (code c - 48)"
  have "foldl ?step a zs = a * 10 ^ length zs + foldl ?step 0 zs" for a zs
  proof (induction zs rule: rev_induct)
    case (snoc z zs)
    have "foldl ?step a (zs @ [z]) = 10 * (a * 10 ^ length zs + foldl ?step 0 zs) + (code z - 48)"
      using snoc.IH by simp
    then show ?case by (simp add: add_mult_distrib2 mult.left_commute)
  qed simp
  from this [of "digits_val xs" ys] show ?thesis by (simp only: digits_val_def foldl_append)
qed

lemma is_digit_char: "n < 10 \<Longrightarrow> is_digit (char_of (48 + n)) \<and> code (char_of (48 + n)) = 48 + n"
  by (simp add: is_digit_def code_char_of)

lemma six_digits_digits: "c \<in> set (six_digits n) \<Longrightarrow> is_digit c"
  by (auto simp: six_digits_def is_digit_char)

lemma length_six_digits [simp]: "length (six_digits n) = 6"
  by (simp add: six_digits_def)

lemma digits_val_six_digits: "digits_val (six_digits n) = n mod 1000000"
proof -
  have m: "n mod (b * 10) = b * (n div b mod 10) + n mod b" for b by (rule mod_mult2_eq)
  have "code (char_of (48 + k mod 10)) = 48 + k mod 10" for k using is_digit_char [of "k mod 10"] by simp
  then show ?thesis
    using m [of 1] m [of 10] m [of 100] m [of 1000] m [of 10000] m [of 100000]
    by (simp add: six_digits_def digits_val_def)
qed

lemma takeWhile_digits: "\<forall>c \<in> set ds. is_digit c \<Longrightarrow> rest = [] \<or> \<not> is_digit (hd rest) \<Longrightarrow>
    takeWhile is_digit (ds @ rest) = ds \<and> dropWhile is_digit (ds @ rest) = rest"
  by (induction ds) (cases rest; auto)+

lemma read_sign_digits:
  "ds \<noteq> [] \<Longrightarrow> \<forall>c \<in> set ds. is_digit c \<Longrightarrow> read_sign (dropWhile is_space (ds @ rest)) = (False, ds @ rest)"
  using is_digit_not by (cases ds) (auto simp: read_sign_def)

definition small_truth :: "rat \<Rightarrow> bool" where
  "small_truth q \<longleftrightarrow> 0 \<le> q \<and> millionths q < 10000000"

lemma show_float_small:
  assumes "small_truth q"
  shows "take 8 (show_float q) = show_nat (millionths q div 1000000) @ ''.'' @ six_digits (millionths q)"
proof -
  have "millionths q div 1000000 < 10" using assms by (simp add: small_truth_def less_mult_imp_div_less)
  then have "length (show_nat (millionths q div 1000000)) = 1" by (subst show_nat.simps) simp
  then show ?thesis using assms by (simp add: show_float_def small_truth_def Let_def)
qed

lemma read_show_float:
  assumes "small_truth q"
  shows "read_float (take 8 (show_float q)) = Some (of_nat (millionths q) / 1000000)"
proof -
  let ?n = "millionths q"
  let ?ds = "show_nat (?n div 1000000)" and ?fs = "six_digits ?n"
  have ds: "?ds \<noteq> []" "\<forall>c \<in> set ?ds. is_digit c" using show_nat_digits by auto
  have dot: "\<not> is_digit (CHR ''.'')" by code_simp
  then have t: "takeWhile is_digit (?ds @ ''.'' @ ?fs) = ?ds" "dropWhile is_digit (?ds @ ''.'' @ ?fs) = ''.'' @ ?fs"
    using takeWhile_digits [OF ds(2), of "''.'' @ ?fs"] by simp_all
  have f: "takeWhile is_digit ?fs = ?fs" "dropWhile is_digit ?fs = []"
    using takeWhile_digits [of ?fs "[]"] six_digits_digits by auto
  have "digits_val (?ds @ ?fs) = ?n" by (simp add: digits_val_append digits_val_show_nat digits_val_six_digits)
  then show ?thesis
    using ds dot read_sign_digits [OF ds, of "''.'' @ ?fs"]
    by (simp add: show_float_small [OF assms] read_float_def Let_def f t [simplified])
qed

text \<open>Five digits are one number for the first \<^verbatim>\<open>%d\<close>.\<close>

lemma scan_ints_digits:
  assumes "ds \<noteq> []" "\<forall>c \<in> set ds. is_digit c"
  shows "scan_ints (Suc n) ds = [int (digits_val ds)]"
proof -
  have "scan_ints k [] = []" for k by (cases k) (simp_all add: read_sign_def)
  note nil = this
  have t: "takeWhile is_digit ds = ds" "dropWhile is_digit ds = []"
    using assms(2) takeWhile_digits [of ds "[]"] by simp_all
  then show ?thesis
    using assms(1) read_sign_digits [OF assms, of "[]"] by (simp add: Let_def nil t)
qed

section \<open>Records\<close>

definition clean_record :: "hal_record \<Rightarrow> bool" where
  "clean_record r \<longleftrightarrow>
    (\<forall>t \<in> {r_subjects r, r_objects r, r_verb r, r_adverbs r, r_extra r, r_questionword r}. keeps_text t)
    \<and> small_truth (r_truth r)
    \<and> (\<forall>i \<in> {r_want r, r_must r, r_can r, r_may r, r_should r}. 0 \<le> i \<and> i < 10)"

text \<open>The arguments that the store should get for a record: its fields, the truth to six digits, and the
  flags as \<^verbatim>\<open>scanf\<close> reads them.\<close>

definition record_args :: "string \<Rightarrow> string \<Rightarrow> hal_record \<Rightarrow> fact_args" where
  "record_args filename line r =
    \<lparr>fa_subject = r_subjects r, fa_object = r_objects r, fa_verb = r_verb r, fa_adverbs = r_adverbs r,
     fa_extra = r_extra r, fa_questionword = r_questionword r, fa_filename = filename, fa_line = line,
     fa_truth = Some (of_nat (millionths (r_truth r)) / 1000000),
     fa_flags = [as_short (10000 * r_want r + 1000 * r_must r + 100 * r_can r + 10 * r_may r + r_should r), 0, 0, 0, 0]\<rparr>"

definition store_record ::
  "(fact_args \<Rightarrow> 'd \<Rightarrow> int option \<times> 'd) \<Rightarrow> (int \<Rightarrow> fact_args \<Rightarrow> 'd \<Rightarrow> 'd) \<Rightarrow>
    string \<Rightarrow> string \<Rightarrow> hal_record \<Rightarrow> 'd \<Rightarrow> 'd"
where
  "store_record add_fact add_clause filename line r d =
    (let (key, d1) = add_fact (record_args filename line r) d in
     case key of
       None \<Rightarrow> d1
     | Some pk \<Rightarrow> fold (\<lambda>c. add_clause pk (record_args filename line c)) (written_clauses r) d1)"

lemma keeps_text_trim: "keeps_text t \<Longrightarrow> trim t = t"
  by (auto simp: keeps_text_def plain_text_def trim_text_def trim_def)

definition number_char :: "char \<Rightarrow> bool" where
  "number_char c \<longleftrightarrow> is_digit c \<or> c = CHR ''.'' \<or> c = CHR ''-''"

lemma number_char_plain: "number_char c \<Longrightarrow> \<not> is_space c \<and> plain_char c \<and> \<not> is_blank c"
  by (auto simp: number_char_def is_digit_def is_space_def plain_char_def is_blank_def newline_def code_def)

lemma number_plain_text:
  assumes "\<forall>c \<in> set t. number_char c"
  shows "keeps_text t"
proof -
  have "single_spaces s" if "\<forall>c \<in> set s. \<not> is_blank c" for s
    using that by (induction s rule: single_spaces.induct) auto
  moreover have "trim_text t = t" if "t \<noteq> []"
    using assms number_char_plain that unfolding trim_text_def by (intro trim_if_id) auto
  ultimately show ?thesis
    using assms number_char_plain by (auto simp: keeps_text_def plain_text_def list_all_iff)
qed

lemma show_int_chars: "c \<in> set (show_int i) \<Longrightarrow> number_char c"
  by (auto simp: show_int_def number_char_def dest: show_nat_digits split: if_splits)

lemma truth_text_chars: "c \<in> set (truth_text r) \<Longrightarrow> number_char c"
  by (auto simp: truth_text_def show_float_def Let_def number_char_def
      dest!: in_set_takeD dest: show_nat_digits six_digits_digits split: if_splits)

lemma flags_text_chars: "c \<in> set (flags_text r) \<Longrightarrow> number_char c"
  by (auto simp: flags_text_def dest!: in_set_takeD dest: show_int_chars)

lemma clean_field: "clean_name n \<Longrightarrow> n \<noteq> ''clause'' \<Longrightarrow> keeps_text t \<Longrightarrow> clean_tree (field_tree n t)"
  by (simp add: field_tree_def keeps_text_trim)

lemma field_names:
  "clean_name ''subject''" "clean_name ''object''" "clean_name ''verb''" "clean_name ''adverbs''" "clean_name ''extra''"
  "clean_name ''questionword''" "clean_name ''truth''" "clean_name ''flags''" "clean_name ''clause''"
  by code_simp+

lemma clean_parts:
  assumes "clean_record r"
  shows "list_all clean_tree (record_parts r)"
  using assms number_plain_text truth_text_chars flags_text_chars
  by (simp add: record_parts_def clean_record_def clean_field field_names)

lemma clean_record_fact:
  assumes "clean_record r" "\<forall>c \<in> set (written_clauses r). clean_record c"
  shows "clean_fact (record_to_fact r)"
proof -
  have "clean_tree (Hal_list ''clause'' (record_parts c))" if "c \<in> set (written_clauses r)" for c
    using clean_node [OF field_names(9) clean_parts] assms(2) that by blast
  then show ?thesis using clean_parts [OF assms(1)] by (auto simp: clean_fact_def record_to_fact_def list_all_iff simp del: clean_tree.simps)
qed

text \<open>A record is handed over as it is or as it was read; \<open>f\<close> is the identity or \<^const>\<open>read_as\<close>.\<close>

definition keeps_fields :: "(xml_object \<Rightarrow> xml_object) \<Rightarrow> bool" where
  "keeps_fields f \<longleftrightarrow> (\<forall>n t. get_name (f (field_tree n t)) = n \<and> hal_print_str (f (field_tree n t)) = trim t)
    \<and> (\<forall>c. list_all clean_tree c \<longrightarrow> f (Hal_list ''clause'' c) = Hal_list ''clause'' (map f c))"

lemma keeps_fields: "keeps_fields id" "keeps_fields read_as"
  by (auto simp: keeps_fields_def field_tree_def clean_not_empty)

lemma print_parts:
  assumes "\<forall>x \<in> set cs. get_name x = ''clause''" "keeps_fields f"
  shows "print_part ''subject'' (map f (record_parts r) @ cs) = trim (r_subjects r)"
    "print_part ''object'' (map f (record_parts r) @ cs) = trim (r_objects r)"
    "print_part ''verb'' (map f (record_parts r) @ cs) = trim (r_verb r)"
    "print_part ''adverbs'' (map f (record_parts r) @ cs) = trim (r_adverbs r)"
    "print_part ''extra'' (map f (record_parts r) @ cs) = trim (r_extra r)"
    "print_part ''questionword'' (map f (record_parts r) @ cs) = trim (r_questionword r)"
    "print_part ''truth'' (map f (record_parts r) @ cs) = trim (truth_text r)"
    "print_part ''flags'' (map f (record_parts r) @ cs) = trim (flags_text r)"
    "hal_part ''clause'' (map f (record_parts r) @ cs) = cs"
  using assms by (simp_all add: print_part_def hal_part_def record_parts_def keeps_fields_def)

lemma show_digit: "0 \<le> i \<Longrightarrow> i < 10 \<Longrightarrow> show_int i = [char_of (48 + nat i)]"
  by (subst show_int_def, subst show_nat.simps) simp

lemma flags_read:
  assumes "clean_record r"
  shows "read_flags (flags_text r) =
    [as_short (10000 * r_want r + 1000 * r_must r + 100 * r_can r + 10 * r_may r + r_should r), 0, 0, 0, 0]"
proof -
  let ?is = "[r_want r, r_must r, r_can r, r_may r, r_should r]"
  have b: "\<forall>i \<in> set ?is. 0 \<le> i \<and> i < 10" using assms by (simp add: clean_record_def)
  then have t: "flags_text r = map (\<lambda>i. char_of (48 + nat i)) ?is" by (simp add: flags_text_def show_digit)
  have d: "is_digit (char_of (48 + nat i)) \<and> code (char_of (48 + nat i)) = 48 + nat i" if "i \<in> set ?is" for i
    using is_digit_char [of "nat i"] b that by auto
  then have "scan_ints 5 (flags_text r) = [int (digits_val (flags_text r))]"
    using scan_ints_digits [of "flags_text r" 4] t by (simp add: eval_nat_numeral)
  moreover have "int (digits_val (flags_text r)) = 10000 * r_want r + 1000 * r_must r + 100 * r_can r + 10 * r_may r + r_should r"
    using d b by (simp add: t digits_val_def)
  moreover have "length (flags_text r) = 5" by (simp add: t)
  ultimately show ?thesis by (simp add: read_flags_def eval_nat_numeral)
qed

lemma record_args_read:
  assumes "clean_record r" "\<forall>x \<in> set cs. get_name x = ''clause''" "keeps_fields f"
  shows "part_args (map f (record_parts r) @ cs) filename line (fact_truth (map f (record_parts r) @ cs)) =
      record_args filename line r"
    "clause_truth (map f (record_parts r) @ cs) = fact_truth (map f (record_parts r) @ cs)"
proof -
  have t: "trim (truth_text r) = truth_text r" "trim (flags_text r) = flags_text r"
    using number_plain_text truth_text_chars flags_text_chars keeps_text_trim by blast+
  have "read_float (truth_text r) = Some (of_nat (millionths (r_truth r)) / 1000000)"
    using read_show_float assms(1) by (simp add: truth_text_def clean_record_def)
  then show "part_args (map f (record_parts r) @ cs) filename line (fact_truth (map f (record_parts r) @ cs)) =
      record_args filename line r"
    "clause_truth (map f (record_parts r) @ cs) = fact_truth (map f (record_parts r) @ cs)"
    using assms(1) keeps_text_trim
    by (simp_all add: part_args_def record_args_def fact_truth_def clause_truth_def print_parts [OF assms(2,3)] t
        flags_read [OF assms(1)] clean_record_def)
qed

lemma clauses_read:
  assumes "\<forall>c \<in> set cs. clean_record c" "keeps_fields f"
  shows "fold (\<lambda>c. add_clause pk (part_args (content_of c) filename line (clause_truth (content_of c))))
      (map (\<lambda>c. f (Hal_list ''clause'' (record_parts c))) cs) d =
    fold (\<lambda>c. add_clause pk (record_args filename line c)) cs d"
  using assms
proof (induction cs arbitrary: d)
  case (Cons c cs)
  have "f (Hal_list ''clause'' (record_parts c)) = Hal_list ''clause'' (map f (record_parts c))"
    using clean_parts Cons.prems by (simp add: keeps_fields_def)
  then show ?case
    using Cons record_args_read(1) [of c "[]" f filename line] record_args_read(2) [of c "[]" f] by simp
qed simp

lemma add_read_record:
  assumes "clean_record r" "\<forall>c \<in> set (written_clauses r). clean_record c" "keeps_fields f"
  shows "add_xml_fact add_fact add_clause filename line (map f (record_to_fact r)) d =
    store_record add_fact add_clause filename line r d"
proof -
  let ?cs = "map (\<lambda>c. f (Hal_list ''clause'' (record_parts c))) (written_clauses r)"
  have n: "\<forall>x \<in> set ?cs. get_name x = ''clause''"
    using assms clean_parts by (auto simp: keeps_fields_def)
  have "map f (record_to_fact r) = map f (record_parts r) @ ?cs" by (simp add: record_to_fact_def)
  then show ?thesis
    unfolding add_xml_fact_def store_record_def
    by (simp only: record_args_read(1) [OF assms(1) n assms(3)] print_parts(9) [OF n assms(3)] clauses_read [OF assms(2,3)])
qed

section \<open>Properties\<close>

text \<open>C38. A file of printed records gives the store exactly what the records say: for each record, in order,
  one fact with its texts, its truth to six digits and the number of the fact as its line, and if the store
  takes it, its clauses up to the first empty one, nine at most. The five flags do not come back one by one:
  together they are the number of the first.\<close>

theorem records_round_trip:
  assumes "\<forall>r \<in> set rs. clean_record r \<and> (\<forall>c \<in> set (written_clauses r). clean_record c)"
  shows "add_xml_fact_file add_fact add_clause filename (concat (map record_to_xml rs)) d =
    Inr (if rs = [] then 1 else 0,
      fold (\<lambda>(k, r). store_record add_fact add_clause filename (show_nat (k + 1)) r) (enumerate 0 rs) d)"
proof (cases "rs = []")
  case False
  let ?text = "concat (map record_to_xml rs)"
  have texts: "?text = concat (map (\<lambda>x. hal_print_xml (Hal_list ''fact'' x)) (map record_to_fact rs))"
    by (simp add: record_to_xml_def [abs_def] comp_def)
  have "list_all clean_fact (map record_to_fact rs)"
    using assms clean_record_fact by (auto simp: list_all_iff)
  note read = readfacts_printed [OF this, of "hal_use_xml_fact add_fact add_clause filename" d]
  have "fold (\<lambda>(j, x). hal_use_xml_fact add_fact add_clause filename j (map read_as x)) (enumerate k (map record_to_fact qs)) d =
      fold (\<lambda>(k, r). store_record add_fact add_clause filename (show_nat (k + 1)) r) (enumerate k qs) d"
    if "set qs \<subseteq> set rs" for qs k d
    using that
  proof (induction qs arbitrary: k d)
    case (Cons r qs)
    have "clean_record r" "\<forall>c \<in> set (written_clauses r). clean_record c" using Cons.prems assms by auto
    with Cons show ?case by (simp add: hal_use_xml_fact_def add_read_record [OF _ _ keeps_fields(2)])
  qed simp
  from this [of rs 0] read have "hal_readfacts (hal_use_xml_fact add_fact add_clause filename) (ordertags ?text []) d =
      Inr (fold (\<lambda>(k, r). store_record add_fact add_clause filename (show_nat (k + 1)) r) (enumerate 0 rs) d)"
    unfolding texts by simp
  moreover have "?text \<noteq> []" using False by (cases rs) (simp_all add: record_to_xml_def hal_print_xml_def)
  ultimately show ?thesis using False by (simp add: add_xml_fact_file_def)
qed (simp add: add_xml_fact_file_def)

text \<open>Storing a record directly is storing its fields under its own file and line, as it would be by a file.\<close>

theorem record_stored_directly:
  assumes "clean_record r" "\<forall>c \<in> set (written_clauses r). clean_record c"
  shows "add_record_by_xml add_fact add_clause r d = store_record add_fact add_clause (r_filename r) (r_line r) r d"
  using add_read_record [OF assms keeps_fields(1)] by (simp add: add_record_by_xml_def)

text \<open>A record with a clause, and a store that writes down what it gets.\<close>

definition clause_example :: hal_record where
  "clause_example = Hal_record ''have'' ''the cat'' ''fur'' [] [] ''because'' [] [] [] 0 1 0 0 0 0 0"

definition record_example :: hal_record where
  "record_example = Hal_record ''is-a'' ''the big cat'' ''animal'' [] [] [] ''f'' ''9'' [clause_example, clause_example] 1 (1/2) 0 1 0 0 1"

lemma example_truths: "millionths 1 = 1000000" "millionths (1 / 2) = 500000" "small_truth 1" "small_truth (1 / 2)"
  by (simp_all add: small_truth_def millionths_def Let_def)

lemma example_texts:
  "keeps_text ''the big cat''" "keeps_text ''animal''" "keeps_text ''is-a''" "keeps_text ''the cat''" "keeps_text ''fur''"
  "keeps_text ''have''" "keeps_text ''because''" "keeps_text []"
  by code_simp+

lemma record_example_clean: "clean_record record_example" "clean_record clause_example"
  "written_clauses record_example = [clause_example]"
  by (simp_all add: clean_record_def record_example_def clause_example_def example_truths example_texts
      written_clauses_def ends_clauses_def max_clauses_def)

lemma record_example_args:
  "record_args ''a.xml'' ''1'' record_example =
    \<lparr>fa_subject = ''the big cat'', fa_object = ''animal'', fa_verb = ''is-a'', fa_adverbs = [], fa_extra = [],
     fa_questionword = [], fa_filename = ''a.xml'', fa_line = ''1'', fa_truth = Some (1 / 2), fa_flags = [1001, 0, 0, 0, 0]\<rparr>"
  by (simp add: record_args_def record_example_def example_truths as_short_def)

theorem records_round_trip_witness:
  "\<exists>c. add_xml_fact_file (\<lambda>a d. (Some 7, d @ [a])) (\<lambda>k a d. d @ [a]) ''a.xml'' (concat (map record_to_xml [record_example])) [] =
    Inr (0, [\<lparr>fa_subject = ''the big cat'', fa_object = ''animal'', fa_verb = ''is-a'', fa_adverbs = [], fa_extra = [],
     fa_questionword = [], fa_filename = ''a.xml'', fa_line = ''1'', fa_truth = Some (1 / 2), fa_flags = [1001, 0, 0, 0, 0]\<rparr>, c])
   \<and> fa_verb c = ''have''"
proof -
  have "show_nat 1 = ''1''" by code_simp
  then show ?thesis
    using records_round_trip [of "[record_example]" "\<lambda>a d. (Some 7, d @ [a])" "\<lambda>k a d. d @ [a]" "''a.xml''" "[]"]
    by (simp add: record_example_clean store_record_def record_example_args)
      (simp add: record_args_def clause_example_def)
qed

theorem record_stored_directly_witness:
  "length (add_record_by_xml (\<lambda>a d. (Some 7, d @ [a])) (\<lambda>k a d. d @ [a]) record_example []) = 2"
  using record_stored_directly [of record_example "\<lambda>a d. (Some 7, d @ [a])" "\<lambda>k a d. d @ [a]" "[]"]
  by (simp add: record_example_clean store_record_def)

end
