(* ===== verification/Server.thy ===== *)
theory Server
  imports Util2012
begin

text \<open>
  \<^verbatim>\<open>hal2012-server.cpp\<close>: the server starts a process for every client. Three threads of a connection
  copy lines: \<^verbatim>\<open>stream_process_to_network\<close> from the process to the client, granting and releasing
  the lock of the database on the way, \<^verbatim>\<open>stream_network_to_process\<close> from the client to the process,
  and \<^verbatim>\<open>stream_process_to_std\<close> to the console.

  The threads run interleaved, so the first two are the rules of a step relation. A step of a thread
  reads or writes the variable \<^verbatim>\<open>lock_db\<close>, which all connections share, at most once: the loop that
  waits for the lock and the statement that takes it are two steps. \<^verbatim>\<open>boost::bind\<close> copies the
  arguments, so every thread has an own \<^verbatim>\<open>do_exit\<close> and an own, always empty, \<^verbatim>\<open>lock_request\<close>.

  What a process writes is a parameter, \<open>proc\<close>. For a lock with another name than \<^verbatim>\<open>DB\<close> the function
  \<^verbatim>\<open>is_locked\<close> returns no value; what the caller sees is the parameter \<open>other\<close>. Starting the process,
  sockets, sleeping and the clock are not modelled, and neither is the deletion of a connection that
  has ended.
\<close>

section \<open>State\<close>

text \<open>Where \<^verbatim>\<open>stream_process_to_network\<close> stands: before a line is read, in the loop that waits for a lock,
  between that loop and taking the lock, or behind its end.\<close>

datatype thread_phase = Reading | Testing string | Taking string | Ended

datatype writer = From_lock | From_network

record connection =
  process_lines :: "string list"
  thread_phase :: thread_phase
  network_lines :: "string list"
  network_ended :: bool
  is_open :: bool
  to_network :: "string list"
  to_process :: "(writer \<times> string) list"

record server =
  lock_db :: bool
  connections :: "connection list"

definition new_connection :: "string list \<Rightarrow> string list \<Rightarrow> connection" where
  "new_connection ls ns =
    \<lparr>process_lines = ls, thread_phase = Reading, network_lines = ns, network_ended = False, is_open = True,
     to_network = [], to_process = []\<rparr>"

section \<open>The lock\<close>

definition names_db :: "string \<Rightarrow> bool" where
  "names_db lock_request \<longleftrightarrow> str_contains (c_str lock_request) ''LOCK:DB''"

definition is_locked :: "(string \<Rightarrow> bool) \<Rightarrow> bool \<Rightarrow> string \<Rightarrow> bool" where
  "is_locked other lock lock_request = (if names_db lock_request then lock else other lock_request)"

definition set_locked :: "bool \<Rightarrow> string \<Rightarrow> bool \<Rightarrow> bool" where
  "set_locked lock lock_request l = (if names_db lock_request then l else lock)"

section \<open>The threads of a connection\<close>

definition write_network :: "string \<Rightarrow> connection \<Rightarrow> connection" where
  "write_network line c =
    (if \<not> is_open c then c\<lparr>thread_phase := Ended\<rparr> else c\<lparr>thread_phase := Reading, to_network := to_network c @ [line]\<rparr>)"

definition write_process :: "writer \<Rightarrow> string \<Rightarrow> connection \<Rightarrow> connection" where
  "write_process w line c = c\<lparr>to_process := to_process c @ [(w, line)]\<rparr>"

definition process_to_network :: "(string \<Rightarrow> bool) \<Rightarrow> bool \<times> connection \<Rightarrow> bool \<times> connection" where
  "process_to_network other st =
    (let (lock, c) = st in
     case thread_phase c of
       Ended \<Rightarrow> st
     | Reading \<Rightarrow>
         if \<not> is_open c then (lock, c\<lparr>thread_phase := Ended\<rparr>)
         else
           (case process_lines c of
              [] \<Rightarrow> (lock, c\<lparr>thread_phase := Ended\<rparr>)
            | line # rest \<Rightarrow>
                (let c1 = c\<lparr>process_lines := rest\<rparr> in
                 if starts_with line ''LOCK:'' then (lock, c1\<lparr>thread_phase := Testing line\<rparr>)
                 else if starts_with line ''UNLOCK:'' then
                   (set_locked lock line False, write_network line (write_process From_lock line c1))
                 else (lock, write_network line c1)))
     | Testing lock_request \<Rightarrow>
         if is_locked other lock lock_request then st else (lock, c\<lparr>thread_phase := Taking lock_request\<rparr>)
     | Taking lock_request \<Rightarrow>
         (set_locked lock lock_request True,
          write_network lock_request (write_process From_lock lock_request c)))"

definition network_to_process :: "connection \<Rightarrow> connection" where
  "network_to_process c =
    (if network_ended c then c
     else if \<not> is_open c then c\<lparr>network_ended := True\<rparr>
     else
       (case network_lines c of
          [] \<Rightarrow> c\<lparr>network_ended := True\<rparr>
        | line # rest \<Rightarrow>
            (let c1 = c\<lparr>network_lines := rest\<rparr> in
             if \<not> str_contains (c_str line) ''HOLD:'' \<and> 0 < length line
             then write_process From_network line (c1\<lparr>network_ended := starts_with line ''EXIT:''\<rparr>)
             else c1)))"

section \<open>Interleaving\<close>

inductive server_step :: "(string \<Rightarrow> bool) \<Rightarrow> (string list \<Rightarrow> bool) \<Rightarrow> server \<Rightarrow> server \<Rightarrow> bool"
  for other proc
where
  Process: "i < length (connections s) \<Longrightarrow>
    process_to_network other (lock_db s, connections s ! i) = (lock, c) \<Longrightarrow>
    server_step other proc s (s\<lparr>lock_db := lock, connections := (connections s)[i := c]\<rparr>)"
| Network: "i < length (connections s) \<Longrightarrow>
    server_step other proc s (s\<lparr>connections := (connections s)[i := network_to_process (connections s ! i)]\<rparr>)"
| Close: "i < length (connections s) \<Longrightarrow>
    server_step other proc s (s\<lparr>connections := (connections s)[i := (connections s ! i)\<lparr>is_open := False\<rparr>]\<rparr>)"
| Accept: "proc ls \<Longrightarrow>
    server_step other proc s (s\<lparr>connections := connections s @ [new_connection ls ns]\<rparr>)"

definition server_start :: server where
  "server_start = \<lparr>lock_db = False, connections = []\<rparr>"

section \<open>The console\<close>

text \<open>\<open>now\<close> is the printed time. A line that is repeated is printed every 50 times, and once with its
  count when another line follows.\<close>

definition console_line :: "nat \<Rightarrow> string \<Rightarrow> string \<Rightarrow> string" where
  "console_line num now txt = ''#'' @ show_nat num @ '' '' @ now @ ''  '' @ txt @ [newline]"

definition times_text :: "string \<Rightarrow> nat \<Rightarrow> string" where
  "times_text oldline n = oldline @ '' ('' @ show_nat n @ '' times)''"

fun process_to_std :: "nat \<Rightarrow> string \<Rightarrow> string list \<Rightarrow> string \<Rightarrow> nat \<Rightarrow> string" where
  "process_to_std num now [] oldline n = []"
| "process_to_std num now (line # lines) oldline n =
    (if line = oldline then
       (if Suc n mod 50 = 0 then console_line num now (times_text oldline (Suc n)) else [])
       @ process_to_std num now lines oldline (Suc n)
     else
       (if 0 < n then console_line num now (times_text oldline n) else [])
       @ console_line num now line @ process_to_std num now lines line 0)"

text \<open>What is written to the debugger when it reports a signal or a backtrace.\<close>

definition debugger_input :: "bool \<Rightarrow> string \<Rightarrow> string list" where
  "debugger_input gdb line =
    (if gdb then (if str_contains (c_str line) ''Program received signal'' then [''bt''] else [])
       @ (if str_contains (c_str line) ''Backtrace:'' then [''bt''] else [])
     else [])"

section \<open>Asking the client for a value\<close>

text \<open>\<open>result\<close> is the pointer to the parts of the last line; \<^const>\<open>None\<close> is its uninitialised value, and a
  value that does not fit into the buffer of 1000 bytes is \<^const>\<open>None\<close>, too.\<close>

fun wait_for_value :: "string \<Rightarrow> string list \<Rightarrow> string list option \<Rightarrow> string list option" where
  "wait_for_value s1 [] result = result"
| "wait_for_value s1 (line # lines) result =
    (if length line \<noteq> 0 then
       (let parts = split (is_any_of '':'') line in
        if hd parts = ''HERE_IS_'' @ s1 \<and> 2 \<le> length parts then Some parts
        else wait_for_value s1 lines (Some parts))
     else wait_for_value s1 lines result)"

definition get_value_from_socket :: "string \<Rightarrow> string list \<Rightarrow> string option" where
  "get_value_from_socket s1 lines =
    (case wait_for_value s1 lines None of
       None \<Rightarrow> None
     | Some result \<Rightarrow>
         (let value = join '':'' (map c_str (tl result)) in if length value < 1000 then Some value else None))"

section \<open>Parameters of the program\<close>

record server_options =
  so_language :: string
  so_sql :: string
  so_interpreter :: string
  so_valgrind :: bool
  so_valgrind_tool :: string
  so_gdb :: bool

definition switched_off :: "string \<Rightarrow> bool" where
  "switched_off value \<longleftrightarrow> value = ''false'' \<or> value = ''off'' \<or> value = ''0''"

definition server_option :: "string \<Rightarrow> string \<Rightarrow> server_options \<Rightarrow> server_options" where
  "server_option key value o0 =
    (let o1 = (if key = ''--language'' then o0\<lparr>so_language := value\<rparr> else o0);
         o2 = (if key = ''--sql'' then o1\<lparr>so_sql := value\<rparr> else o1);
         o3 = (if key = ''--interpreter'' then o2\<lparr>so_interpreter := value\<rparr> else o2);
         o4 = (if key = ''--valgrind'' then
                 (let v = (if switched_off value then o3\<lparr>so_valgrind := False\<rparr> else o3) in
                  if value \<noteq> ''true'' \<and> value \<noteq> ''on'' \<and> 1 < length value
                  then v\<lparr>so_valgrind := True, so_valgrind_tool := value\<rparr>
                  else v\<lparr>so_valgrind := True, so_valgrind_tool := []\<rparr>)
               else o3)
     in if key = ''--gdb'' then o4\<lparr>so_gdb := \<not> switched_off value\<rparr> else o4)"

text \<open>A key without a value throws \<^verbatim>\<open>out_of_range\<close>.\<close>

fun server_params :: "string list \<Rightarrow> server_options \<Rightarrow> server_options option" where
  "server_params [] o0 = Some o0"
| "server_params [key] o0 = None"
| "server_params (key # value # rest) o0 = server_params rest (server_option key value o0)"

section \<open>Lemmas: the lock\<close>

definition takes_db :: "string \<Rightarrow> bool" where
  "takes_db line \<longleftrightarrow> starts_with line ''LOCK:'' \<and> names_db line"

definition frees_db :: "string \<Rightarrow> bool" where
  "frees_db line \<longleftrightarrow> starts_with line ''UNLOCK:'' \<and> names_db line"

text \<open>Which connection has the lock: what it was told last about it.\<close>

definition has_lock :: "connection \<Rightarrow> bool" where
  "has_lock c = fold (\<lambda>(w, line) h. if w = From_lock \<and> takes_db line then True
     else if w = From_lock \<and> frees_db line then False else h) (to_process c) False"

lemma not_takes_and_frees: "starts_with line ''LOCK:'' \<Longrightarrow> \<not> starts_with line ''UNLOCK:''"
  by (auto simp: starts_with_def prefix_def)

lemma has_lock_sel [simp]:
  "has_lock (c\<lparr>process_lines := a\<rparr>) = has_lock c" "has_lock (c\<lparr>thread_phase := ph\<rparr>) = has_lock c"
  "has_lock (c\<lparr>is_open := b\<rparr>) = has_lock c" "has_lock (c\<lparr>network_lines := n\<rparr>) = has_lock c"
  "has_lock (c\<lparr>network_ended := b\<rparr>) = has_lock c" "has_lock (c\<lparr>to_network := n\<rparr>) = has_lock c"
  by (simp_all add: has_lock_def)

lemma has_lock_written [simp]:
  "has_lock (write_process w line c) =
    (if w = From_lock \<and> takes_db line then True else if w = From_lock \<and> frees_db line then False else has_lock c)"
  by (simp add: has_lock_def write_process_def)

lemma has_lock_network [simp]: "has_lock (write_network line c) = has_lock c"
  by (simp add: write_network_def)

lemma new_connection_sel [simp]:
  "\<not> has_lock (new_connection ls ns)" "thread_phase (new_connection ls ns) = Reading"
  "process_lines (new_connection ls ns) = ls"
  by (simp_all add: has_lock_def new_connection_def)

lemma written_sel [simp]:
  "thread_phase (write_network line c) = (if is_open c then Reading else Ended)"
  "process_lines (write_network line c) = process_lines c"
  "process_lines (write_process w line c) = process_lines c"
  "is_open (write_process w line c) = is_open c" "thread_phase (write_process w line c) = thread_phase c"
  by (simp_all add: write_network_def write_process_def)

lemma network_keeps [simp]:
  "has_lock (network_to_process c) = has_lock c" "thread_phase (network_to_process c) = thread_phase c"
  "process_lines (network_to_process c) = process_lines c"
  by (auto simp: network_to_process_def Let_def split: list.splits)

text \<open>A process that keeps the rules: it asks for the lock and releases it in turn.\<close>

fun polite :: "bool \<Rightarrow> string list \<Rightarrow> bool" where
  "polite h [] = True"
| "polite h (line # lines) =
    (if takes_db line then \<not> h \<and> polite True lines
     else if frees_db line then h \<and> polite False lines
     else polite h lines)"

definition polite_connection :: "connection \<Rightarrow> bool" where
  "polite_connection c =
    (case thread_phase c of
       Reading \<Rightarrow> polite (has_lock c) (process_lines c)
     | Ended \<Rightarrow> True
     | Testing line \<Rightarrow> starts_with line ''LOCK:'' \<and> polite (has_lock c) (line # process_lines c)
     | Taking line \<Rightarrow> starts_with line ''LOCK:'' \<and> polite (has_lock c) (line # process_lines c))"

lemma frees_not_takes: "frees_db line \<Longrightarrow> \<not> takes_db line"
  by (auto simp: frees_db_def takes_db_def dest: not_takes_and_frees)

lemma starts_frees: "starts_with line ''LOCK:'' \<Longrightarrow> \<not> frees_db line"
  by (auto simp: frees_db_def dest: not_takes_and_frees)

lemma polite_step:
  "polite_connection c \<Longrightarrow> process_to_network other (lock, c) = (lock', c') \<Longrightarrow> polite_connection c'"
  by (auto simp: polite_connection_def process_to_network_def Let_def takes_db_def frees_db_def not_takes_and_frees
      split: thread_phase.splits list.splits if_splits)

text \<open>What a step of the thread does to the lock.\<close>

lemma process_lock:
  assumes "process_to_network other (lock, c) = (lock', c')" "polite_connection c"
  shows "(lock' = lock \<and> has_lock c' = has_lock c)
    \<or> (\<exists>line. thread_phase c = Taking line \<and> names_db line \<and> lock' \<and> has_lock c' \<and> \<not> has_lock c)
    \<or> (\<not> lock' \<and> \<not> has_lock c' \<and> has_lock c)"
  using assms
  by (auto simp: polite_connection_def process_to_network_def Let_def takes_db_def frees_db_def set_locked_def
      dest: not_takes_and_frees split: thread_phase.splits list.splits if_splits)

text \<open>Runs without a race. The restriction is on the order of the steps only: when a connection has left the
  loop that waits for the lock of the database, the next step of the server is the one in which it takes the lock.
  That the lock is free at that moment is not assumed; it follows from the test of the loop.\<close>

definition undisturbed_step :: "(string \<Rightarrow> bool) \<Rightarrow> server \<Rightarrow> server \<Rightarrow> bool" where
  "undisturbed_step other s s' \<longleftrightarrow> server_step other (polite False) s s'
    \<and> (\<forall>i < length (connections s). \<forall>line. thread_phase (connections s ! i) = Taking line \<and> names_db line \<longrightarrow>
         thread_phase (connections s' ! i) \<noteq> Taking line)"

definition calm :: "server \<Rightarrow> bool" where
  "calm s \<longleftrightarrow> (\<forall>c \<in> set (connections s). \<forall>line. thread_phase c = Taking line \<and> names_db line \<longrightarrow> \<not> lock_db s)"

lemma process_passes_test:
  assumes "process_to_network other (lock, c) = (lock', c')" "thread_phase c' = Taking line" "names_db line"
  shows "\<not> lock \<and> \<not> lock'"
  using assms
  by (auto simp: process_to_network_def Let_def is_locked_def write_network_def write_process_def
      split: thread_phase.splits list.splits if_splits)

lemma undisturbed_calm:
  assumes "undisturbed_step other s s'"
  shows "calm s'"
proof -
  let ?cs = "connections s"
  have st: "server_step other (polite False) s s'" using assms by (simp add: undisturbed_step_def)
  have left: "\<not> (thread_phase (?cs ! i) = Taking line \<and> names_db line \<and> thread_phase (connections s' ! i) = Taking line)"
      if "i < length ?cs" for i line
    using assms that unfolding undisturbed_step_def by blast
  from st show ?thesis
  proof cases
    case (Process k lock c)
    have "\<not> lock" if "j < length ?cs" "thread_phase (?cs[k := c] ! j) = Taking line" "names_db line" for j line
    proof (cases "j = k")
      case True
      then show ?thesis using that Process(2) process_passes_test [OF Process(3), of line] by auto
    next
      case False
      then show ?thesis using that left [of j line] Process(1) by auto
    qed
    then show ?thesis unfolding Process(1) calm_def by (auto simp: in_set_conv_nth)
  next
    case (Network k)
    have "\<not> (thread_phase (connections s' ! j) = Taking line \<and> names_db line)" if "j < length ?cs" for j line
      using left [OF that, of line] Network by (cases "j = k") auto
    then show ?thesis using Network by (fastforce simp: calm_def in_set_conv_nth)
  next
    case (Close k)
    have "\<not> (thread_phase (connections s' ! j) = Taking line \<and> names_db line)" if "j < length ?cs" for j line
      using left [OF that, of line] Close by (cases "j = k") auto
    then show ?thesis using Close by (fastforce simp: calm_def in_set_conv_nth)
  next
    case (Accept ls ns)
    have "\<not> (thread_phase (connections s' ! j) = Taking line \<and> names_db line)" if "j < length ?cs" for j line
      using left [OF that, of line] Accept that by (auto simp: nth_append)
    then show ?thesis using Accept by (fastforce simp: calm_def in_set_conv_nth nth_append less_Suc_eq)
  qed
qed

definition lock_invariant :: "server \<Rightarrow> bool" where
  "lock_invariant s \<longleftrightarrow> calm s \<and> (\<forall>c \<in> set (connections s). polite_connection c)
    \<and> (lock_db s \<longleftrightarrow> (\<exists>c \<in> set (connections s). has_lock c))
    \<and> (\<forall>i < length (connections s). \<forall>j < length (connections s).
         has_lock (connections s ! i) \<and> has_lock (connections s ! j) \<longrightarrow> i = j)"

inductive_cases server_stepE: "server_step other proc s s'"

lemma has_lock_same:
  "i < length cs \<Longrightarrow> has_lock c = has_lock (cs ! i) \<Longrightarrow> has_lock (cs[i := c] ! j) = has_lock (cs ! j)"
  by (cases "i = j") simp_all

lemma ex_has_lock_same:
  "i < length cs \<Longrightarrow> has_lock c = has_lock (cs ! i) \<Longrightarrow>
    (\<exists>d \<in> set (cs[i := c]). has_lock d) = (\<exists>d \<in> set cs. has_lock d)"
  using has_lock_same [of i cs c] by (metis in_set_conv_nth length_list_update)

lemma lock_invariant_same:
  assumes "lock_invariant s" "calm (s\<lparr>connections := (connections s)[i := c]\<rparr>)" "i < length (connections s)"
    and "has_lock c = has_lock (connections s ! i)" "polite_connection c"
  shows "lock_invariant (s\<lparr>connections := (connections s)[i := c]\<rparr>)"
  using assms
  by (auto simp: lock_invariant_def has_lock_same ex_has_lock_same dest: set_update_subset_insert [THEN subsetD])

lemma polite_connection_sel [simp]:
  "polite_connection (c\<lparr>is_open := b\<rparr>) = polite_connection c"
  "polite_connection (network_to_process c) = polite_connection c"
  by (simp_all add: polite_connection_def split: thread_phase.split)

lemma lock_invariant_step:
  assumes inv: "lock_invariant s" and step: "undisturbed_step other s s'"
  shows "lock_invariant s'"
proof -
  have calm': "calm s'" and st: "server_step other (polite False) s s'" using step undisturbed_calm by (auto simp: undisturbed_step_def)
  from st show ?thesis
  proof cases
    case (Process i lock c)
    let ?cs = "connections s"
    have p: "polite_connection (?cs ! i)" using inv Process(2) by (simp add: lock_invariant_def)
    note p' = polite_step [OF p Process(3)]
    from process_lock [OF Process(3) p] show ?thesis
    proof (elim disjE exE conjE)
      assume "lock = lock_db s" "has_lock c = has_lock (?cs ! i)"
      then show ?thesis
        using lock_invariant_same [OF inv, of i c] calm' Process(1,2) p' by simp
    next
      fix line assume a: "thread_phase (?cs ! i) = Taking line" "names_db line" "lock" "has_lock c"
      then have "\<not> lock_db s" using inv Process(2) by (auto simp: lock_invariant_def calm_def)
      then have none: "\<forall>j < length ?cs. \<not> has_lock (?cs ! j)" using inv by (auto simp: lock_invariant_def)
      have "has_lock (?cs[i := c] ! j) \<longleftrightarrow> j = i" if "j < length ?cs" for j
        using none a(4) that by (cases "i = j") auto
      moreover have "c \<in> set (?cs[i := c])" using Process(2) by (simp add: set_update_memI)
      ultimately show ?thesis
        using inv calm' a(3,4) p' Process(1)
        by (auto simp: lock_invariant_def dest: set_update_subset_insert [THEN subsetD])
    next
      assume a: "\<not> lock" "\<not> has_lock c" "has_lock (?cs ! i)"
      then have only: "\<forall>j < length ?cs. has_lock (?cs ! j) \<longrightarrow> j = i" using inv Process(2) by (auto simp: lock_invariant_def)
      have none: "\<not> has_lock (?cs[i := c] ! j)" if "j < length ?cs" for j
        using only a(2) that by (cases "i = j") auto
      then have "\<forall>d \<in> set (?cs[i := c]). \<not> has_lock d" by (metis in_set_conv_nth length_list_update)
      then show ?thesis
        using inv calm' a(1) p' Process(1) none
        by (auto simp: lock_invariant_def dest: set_update_subset_insert [THEN subsetD])
    qed
  next
    case (Network i)
    then show ?thesis using lock_invariant_same [OF inv] calm' inv by (auto simp: lock_invariant_def)
  next
    case (Close i)
    then show ?thesis using lock_invariant_same [OF inv] calm' inv by (auto simp: lock_invariant_def)
  next
    case (Accept ls ns)
    then have "polite_connection (new_connection ls ns)"
      by (simp add: polite_connection_def)
    then show ?thesis
      using inv calm' unfolding Accept(1) lock_invariant_def by (auto simp: nth_append less_Suc_eq)
  qed
qed

lemma lock_invariant_run: "(undisturbed_step other)\<^sup>*\<^sup>* server_start s \<Longrightarrow> lock_invariant s"
proof (induction rule: rtranclp_induct)
  case base
  show ?case by (simp add: lock_invariant_def server_start_def calm_def)
qed (rule lock_invariant_step)

text \<open>The lock is lost: its holder has ended, the others have not got it and are not about to take it, and the
  connections that waited for it still do. Every step of ordinary processes keeps this, in whatever order.\<close>

definition waits_db :: "server \<Rightarrow> nat \<Rightarrow> string \<Rightarrow> bool" where
  "waits_db s i line \<longleftrightarrow> i < length (connections s) \<and> thread_phase (connections s ! i) = Testing line \<and> names_db line"

definition unable :: "connection \<Rightarrow> bool" where
  "unable c \<longleftrightarrow> \<not> has_lock c \<and> polite_connection c \<and> (\<forall>line. names_db line \<longrightarrow> thread_phase c \<noteq> Taking line)"

definition lost :: "server \<Rightarrow> nat \<Rightarrow> server \<Rightarrow> bool" where
  "lost s h s' \<longleftrightarrow> lock_db s' \<and> thread_phase (connections s' ! h) = Ended \<and> h < length (connections s')
    \<and> (\<forall>j < length (connections s'). j \<noteq> h \<longrightarrow> unable (connections s' ! j))
    \<and> (\<forall>i line. waits_db s i line \<longrightarrow> waits_db s' i line)"

lemma unable_thread:
  assumes "process_to_network other (True, c) = (lock, c')" "unable c"
  shows "lock \<and> unable c'"
  using assms polite_step [of c other True lock c'] process_lock [of other True c lock c']
    process_passes_test [of other True c lock c']
  unfolding unable_def by auto

lemma unable_sel:
  "unable c \<Longrightarrow> unable (network_to_process c)" "unable c \<Longrightarrow> unable (c\<lparr>is_open := b\<rparr>)"
  "polite False ls \<Longrightarrow> unable (new_connection ls ns)"
  by (simp_all add: unable_def) (simp add: polite_connection_def)

lemma lost_update:
  assumes "lost s h t" "k < length (connections t)" "lock"
    and "k = h \<Longrightarrow> thread_phase c = Ended" "k \<noteq> h \<Longrightarrow> unable c"
    and "\<And>line. waits_db t k line \<Longrightarrow> thread_phase c = Testing line"
  shows "lost s h (t\<lparr>lock_db := lock, connections := (connections t)[k := c]\<rparr>)"
proof -
  have "waits_db (t\<lparr>lock_db := lock, connections := (connections t)[k := c]\<rparr>) i line" if "waits_db t i line" for i line
    using that assms(2,6) by (cases "i = k") (auto simp: waits_db_def)
  then show ?thesis using assms(1-5) by (auto simp: lost_def nth_list_update)
qed

lemma lock_stays: "lock_db t \<Longrightarrow> t\<lparr>lock_db := True, connections := cs\<rparr> = t\<lparr>connections := cs\<rparr>"
  by (cases t) simp

lemma lost_step:
  assumes l: "lost s h t" and st: "server_step other (polite False) t u"
  shows "lost s h u"
proof -
  have lock: "lock_db t" and h: "thread_phase (connections t ! h) = Ended"
    and others: "\<And>k. k < length (connections t) \<Longrightarrow> k \<noteq> h \<Longrightarrow> unable (connections t ! k)"
    using l unfolding lost_def by blast+
  from st show ?thesis
  proof cases
    case (Process k lock c)
    note p = Process(3) [unfolded eqTrueI [OF lock]]
    have "lock \<and> (if k = h then thread_phase c = Ended else unable c)"
      using unable_thread [OF p] others [OF Process(2)] p h by (auto simp: process_to_network_def)
    moreover have "thread_phase c = Testing line" if "waits_db t k line" for line
      using that p by (simp add: waits_db_def process_to_network_def is_locked_def)
    ultimately show ?thesis unfolding Process(1) using lost_update [OF l Process(2)] by simp
  next
    case (Network k)
    then show ?thesis
      using lost_update [OF l, of k True "network_to_process (connections t ! k)"] lock h others [of k] unable_sel(1)
        lock_stays [OF lock]
      by (simp add: waits_db_def)
  next
    case (Close k)
    then show ?thesis
      using lost_update [OF l, of k True "(connections t ! k)\<lparr>is_open := False\<rparr>"] lock h others [of k] unable_sel(2)
        lock_stays [OF lock]
      by (simp add: waits_db_def)
  next
    case (Accept ls ns)
    have "unable (connections u ! j)" if "j < length (connections u)" "j \<noteq> h" for j
      using that others [of j] unable_sel(3) [OF Accept(2), of ns] unfolding Accept(1)
      by (cases "j < length (connections t)") (simp_all add: nth_append less_Suc_eq)
    moreover have "waits_db u i line" if "waits_db t i line" for i line
      using that unfolding Accept(1) by (simp add: waits_db_def nth_append)
    moreover have "lock_db u" "h < length (connections u)" "thread_phase (connections u ! h) = Ended"
      using l h lock unfolding Accept(1) by (simp_all add: lost_def nth_append)
    ultimately show ?thesis using l unfolding lost_def by blast
  qed
qed

lemma lost_run: "(server_step other (polite False))\<^sup>*\<^sup>* t u \<Longrightarrow> lost s h t \<Longrightarrow> lost s h u"
  by (induction rule: rtranclp_induct) (auto intro: lost_step)

lemma lost_start:
  assumes "(undisturbed_step other)\<^sup>*\<^sup>* server_start s"
    and "h < length (connections s)" "has_lock (connections s ! h)" "thread_phase (connections s ! h) = Ended"
  shows "lost s h s"
proof -
  note inv = lock_invariant_run [OF assms(1), unfolded lock_invariant_def]
  have lock: "lock_db s" using inv assms(3) nth_mem [OF assms(2)] by blast
  have "unable (connections s ! j)" if "j < length (connections s)" "j \<noteq> h" for j
  proof -
    have "\<not> has_lock (connections s ! j)" using inv assms(2,3) that by blast
    moreover have "polite_connection (connections s ! j)" using inv nth_mem [OF that(1)] by blast
    moreover have "\<forall>line. names_db line \<longrightarrow> thread_phase (connections s ! j) \<noteq> Taking line"
      using inv lock nth_mem [OF that(1)] unfolding calm_def by blast
    ultimately show ?thesis unfolding unable_def by blast
  qed
  then show ?thesis using lock assms(2,4) by (simp add: lost_def)
qed

text \<open>One step of a thread, and the way from reading a request to the moment before the lock is taken.\<close>

lemma thread_step:
  assumes "k < length (connections s)" "process_to_network other (lock_db s, connections s ! k) = (l, c)"
  shows "\<exists>s'. server_step other proc s s' \<and> lock_db s' = l \<and> connections s' = (connections s)[k := c]"
  using server_step.Process [OF assms, of proc] by force

lemma reach_taking:
  assumes "k < length (connections s)" "\<not> lock_db s" "thread_phase (connections s ! k) = Reading"
    "is_open (connections s ! k)" "process_lines (connections s ! k) = l # ls" "takes_db l"
  shows "\<exists>s' c. (server_step other proc)\<^sup>*\<^sup>* s s' \<and> \<not> lock_db s'
    \<and> connections s' = (connections s)[k := c] \<and> thread_phase c = Taking l"
proof -
  let ?c = "(connections s ! k)\<lparr>process_lines := ls, thread_phase := Testing l\<rparr>"
  have "process_to_network other (lock_db s, connections s ! k) = (lock_db s, ?c)"
    using assms by (simp add: process_to_network_def takes_db_def)
  then obtain t where t: "server_step other proc s t" "lock_db t = lock_db s" "connections t = (connections s)[k := ?c]"
    using thread_step [OF assms(1)] by blast
  have "process_to_network other (lock_db t, connections t ! k) = (lock_db t, ?c\<lparr>thread_phase := Taking l\<rparr>)"
    using assms t by (simp add: process_to_network_def is_locked_def takes_db_def)
  then obtain u where u: "server_step other proc t u" "lock_db u = lock_db t"
      "connections u = (connections t)[k := ?c\<lparr>thread_phase := Taking l\<rparr>]"
    using thread_step [of k t] assms(1) t(3) by (metis length_list_update)
  have "(server_step other proc)\<^sup>*\<^sup>* s u"
    using t(1) u(1) by (meson r_into_rtranclp rtranclp.rtrancl_into_rtrancl)
  moreover have "thread_phase (?c\<lparr>thread_phase := Taking l\<rparr>) = Taking l" by simp
  ultimately show ?thesis using u(2,3) t(2,3) assms(2) by (metis list_update_overwrite)
qed

lemma take_lock:
  assumes "k < length (connections s)" "thread_phase (connections s ! k) = Taking l" "starts_with l ''LOCK:''" "names_db l"
  shows "\<exists>s' c. server_step other proc s s' \<and> connections s' = (connections s)[k := c] \<and> has_lock c"
proof -
  let ?c = "write_network l (write_process From_lock l (connections s ! k))"
  have "process_to_network other (lock_db s, connections s ! k) = (True, ?c)"
    using assms by (simp add: process_to_network_def set_locked_def)
  moreover have "has_lock ?c" using assms by (simp add: takes_db_def)
  ultimately show ?thesis using thread_step [OF assms(1)] by blast
qed

section \<open>Properties\<close>

text \<open>C34. When the processes ask for the lock and release it in turn, and no step of another thread comes
  between a connection's last test of the lock and its taking it, then at every moment of a run from the start at
  most one connection has the lock, and the variable tells whether one has it.\<close>

theorem one_holder_without_race:
  assumes "(undisturbed_step other)\<^sup>*\<^sup>* server_start s"
  shows "(lock_db s \<longleftrightarrow> (\<exists>c \<in> set (connections s). has_lock c))
    \<and> (\<forall>i < length (connections s). \<forall>j < length (connections s).
         has_lock (connections s ! i) \<and> has_lock (connections s ! j) \<longrightarrow> i = j)"
  using lock_invariant_run [OF assms] unfolding lock_invariant_def by blast

text \<open>A process that takes the lock and ends, and the run of a client with it.\<close>

definition one_client :: "thread_phase \<Rightarrow> string list \<Rightarrow> bool \<Rightarrow> connection" where
  "one_client ph ls b =
    \<lparr>process_lines = ls, thread_phase = ph, network_lines = [], network_ended = False, is_open = True,
     to_network = (if b then [''LOCK:DB''] else []), to_process = (if b then [(From_lock, ''LOCK:DB'')] else [])\<rparr>"

lemma request_line [simp]: "starts_with ''LOCK:DB'' ''LOCK:''" "names_db ''LOCK:DB''" "takes_db ''LOCK:DB''" "\<not> frees_db ''LOCK:DB''"
  by code_simp+

lemma one_client_thread:
  "process_to_network other (False, new_connection [''LOCK:DB''] []) = (False, one_client (Testing ''LOCK:DB'') [] False)"
  "process_to_network other (False, one_client (Testing ''LOCK:DB'') [] False) = (False, one_client (Taking ''LOCK:DB'') [] False)"
  "process_to_network other (False, one_client (Taking ''LOCK:DB'') [] False) = (True, one_client Reading [] True)"
  by (simp_all add: process_to_network_def one_client_def new_connection_def is_locked_def set_locked_def
      write_network_def write_process_def)

lemma one_client_phase [simp]: "thread_phase (one_client ph ls b) = ph"
  by (simp add: one_client_def)

lemma one_connection_step:
  assumes "process_to_network other (l, c) = (l', c')" "thread_phase c \<noteq> thread_phase c'"
  shows "undisturbed_step other \<lparr>lock_db = l, connections = [c]\<rparr> \<lparr>lock_db = l', connections = [c']\<rparr>"
  using server_step.Process [of 0 "\<lparr>lock_db = l, connections = [c]\<rparr>" other l' c' "polite False"] assms
  by (auto simp: undisturbed_step_def)

lemma accept_step:
  assumes "polite False ls" "\<forall>c \<in> set cs. \<forall>line. thread_phase c \<noteq> Taking line"
  shows "undisturbed_step other \<lparr>lock_db = l, connections = cs\<rparr> \<lparr>lock_db = l, connections = cs @ [new_connection ls ns]\<rparr>"
  using server_step.Accept [of "polite False" ls other "\<lparr>lock_db = l, connections = cs\<rparr>" ns] assms
  by (simp add: undisturbed_step_def)

lemma one_client_run:
  "(undisturbed_step other)\<^sup>*\<^sup>* server_start \<lparr>lock_db = True, connections = [one_client Reading [] True]\<rparr>"
proof -
  have "undisturbed_step other server_start \<lparr>lock_db = False, connections = [new_connection [''LOCK:DB''] []]\<rparr>"
    using accept_step [of "[''LOCK:DB'']" "[]" other False "[]"] by (simp add: server_start_def)
  moreover note one_client_thread [THEN one_connection_step, where other = other]
  ultimately show ?thesis by simp
qed

lemma two_clients_run:
  "(undisturbed_step other)\<^sup>*\<^sup>* server_start \<lparr>lock_db = True, connections = [one_client Reading [] True, new_connection [] []]\<rparr>"
  using rtranclp.rtrancl_into_rtrancl [OF one_client_run accept_step [of "[]" "[one_client Reading [] True]" other True "[]"]]
  by simp

theorem one_holder_without_race_witness:
  "has_lock ([one_client Reading [] True, new_connection [] []] ! 0)
  \<and> \<not> has_lock ([one_client Reading [] True, new_connection [] []] ! Suc 0)"
proof -
  let ?cs = "[one_client Reading [] True, new_connection [] []]"
  from one_holder_without_race [OF two_clients_run]
  have "\<forall>i < 2. \<forall>j < 2. has_lock (?cs ! i) \<and> has_lock (?cs ! j) \<longrightarrow> i = j" by simp
  moreover have "has_lock (?cs ! 0)" by (simp add: has_lock_def one_client_def)
  ultimately show ?thesis by fastforce
qed

text \<open>C35. Testing the lock and taking it are not one step: from every state in which the lock is free and the
  processes of two open connections ask for it next, a state is reached in which both have it.\<close>

theorem lock_is_shared:
  assumes "i < length (connections s)" "j < length (connections s)" "i \<noteq> j" "\<not> lock_db s"
    and "thread_phase (connections s ! i) = Reading" "is_open (connections s ! i)"
    and "process_lines (connections s ! i) = a # as" "takes_db a"
    and "thread_phase (connections s ! j) = Reading" "is_open (connections s ! j)"
    and "process_lines (connections s ! j) = b # bs" "takes_db b"
  shows "\<exists>s'. (server_step other proc)\<^sup>*\<^sup>* s s' \<and> has_lock (connections s' ! i) \<and> has_lock (connections s' ! j)"
proof -
  let ?step = "server_step other proc"
  obtain s1 c1 where s1: "?step\<^sup>*\<^sup>* s s1" "\<not> lock_db s1" "connections s1 = (connections s)[i := c1]" "thread_phase c1 = Taking a"
    using reach_taking [of i s a as] assms by metis
  obtain s2 c2 where s2: "?step\<^sup>*\<^sup>* s1 s2" "\<not> lock_db s2" "connections s2 = (connections s1)[j := c2]" "thread_phase c2 = Taking b"
    using reach_taking [of j s1 b bs] assms s1 by (metis length_list_update nth_list_update_neq)
  obtain s3 c3 where s3: "?step s2 s3" "connections s3 = (connections s2)[i := c3]" "has_lock c3"
    using take_lock [where k = i and s = s2 and l = a and other = other and proc = proc] assms s1 s2
    by (auto simp: takes_db_def)
  obtain s4 c4 where s4: "?step s3 s4" "connections s4 = (connections s3)[j := c4]" "has_lock c4"
    using take_lock [where k = j and s = s3 and l = b and other = other and proc = proc] assms s1 s2 s3
    by (auto simp: takes_db_def)
  have "?step\<^sup>*\<^sup>* s s4"
    using s1(1) s2(1) s3(1) s4(1) by (meson rtranclp.rtrancl_into_rtrancl rtranclp_trans)
  moreover have "has_lock (connections s4 ! i)" "has_lock (connections s4 ! j)"
    using assms(1-3) s1(3) s2(3) s3(2,3) s4(2,3) by simp_all
  ultimately show ?thesis by blast
qed

theorem lock_is_shared_witness:
  "\<exists>s'. (server_step (\<lambda>l. False) (polite False))\<^sup>*\<^sup>*
      \<lparr>lock_db = False, connections = [new_connection [''LOCK:DB''] [], new_connection [''LOCK:DB''] []]\<rparr> s'
    \<and> has_lock (connections s' ! 0) \<and> has_lock (connections s' ! 1)"
  by (rule lock_is_shared [where a = "''LOCK:DB''" and b = "''LOCK:DB''" and as = "[]" and bs = "[]"])
    (simp_all add: new_connection_def)

text \<open>C36. Nothing releases the lock of a process that ended. When a process has taken the lock and ended, then
  whatever steps follow, in any order, of ordinary processes that release only what they took: the lock stays set, no
  other connection gets it, and every connection that waits for it waits for ever.\<close>

theorem lock_is_lost:
  assumes "(undisturbed_step other)\<^sup>*\<^sup>* server_start s"
    and "h < length (connections s)" "has_lock (connections s ! h)" "thread_phase (connections s ! h) = Ended"
    and "(server_step other (polite False))\<^sup>*\<^sup>* s s'"
  shows "lock_db s' \<and> (\<forall>j < length (connections s'). j \<noteq> h \<longrightarrow> \<not> has_lock (connections s' ! j))
    \<and> (\<forall>i < length (connections s). \<forall>line. thread_phase (connections s ! i) = Testing line \<and> names_db line \<longrightarrow>
         thread_phase (connections s' ! i) = Testing line)"
  using lost_run [OF assms(5) lost_start [OF assms(1-4)]] unfolding lost_def unable_def waits_db_def by blast

text \<open>The first client takes the lock and its process ends; the second one asks for the lock and waits. Later the
  first connection is closed.\<close>

lemma ended_client_run:
  "(undisturbed_step other)\<^sup>*\<^sup>* server_start
    \<lparr>lock_db = True, connections = [one_client Ended [] True, one_client (Testing ''LOCK:DB'') [] False]\<rparr>"
proof -
  have end_thread: "process_to_network other (True, one_client Reading [] True) = (True, one_client Ended [] True)"
    by (simp add: process_to_network_def one_client_def)
  have ended: "undisturbed_step other \<lparr>lock_db = True, connections = [one_client Reading [] True]\<rparr>
      \<lparr>lock_db = True, connections = [one_client Ended [] True]\<rparr>"
    using one_connection_step [OF end_thread] by simp
  have accepted: "undisturbed_step other \<lparr>lock_db = True, connections = [one_client Ended [] True]\<rparr>
      \<lparr>lock_db = True, connections = [one_client Ended [] True, new_connection [''LOCK:DB''] []]\<rparr>"
    using accept_step [of "[''LOCK:DB'']" "[one_client Ended [] True]" other True "[]"] by simp
  have "process_to_network other (True, new_connection [''LOCK:DB''] []) = (True, one_client (Testing ''LOCK:DB'') [] False)"
    by (simp add: process_to_network_def one_client_def new_connection_def)
  then have "undisturbed_step other \<lparr>lock_db = True, connections = [one_client Ended [] True, new_connection [''LOCK:DB''] []]\<rparr>
      \<lparr>lock_db = True, connections = [one_client Ended [] True, one_client (Testing ''LOCK:DB'') [] False]\<rparr>"
    using server_step.Process [of 1 "\<lparr>lock_db = True, connections = [one_client Ended [] True, new_connection [''LOCK:DB''] []]\<rparr>"
        other True "one_client (Testing ''LOCK:DB'') [] False" "polite False"]
    by (auto simp: undisturbed_step_def nth_Cons')
  with one_client_run ended accepted show ?thesis by (meson rtranclp.rtrancl_into_rtrancl)
qed

theorem lock_is_lost_witness:
  "thread_phase ([(one_client Ended [] True)\<lparr>is_open := False\<rparr>, one_client (Testing ''LOCK:DB'') [] False] ! 1)
   = Testing ''LOCK:DB''
  \<and> \<not> has_lock ([(one_client Ended [] True)\<lparr>is_open := False\<rparr>, one_client (Testing ''LOCK:DB'') [] False] ! 1)"
proof -
  let ?s = "\<lparr>lock_db = True, connections = [one_client Ended [] True, one_client (Testing ''LOCK:DB'') [] False]\<rparr>"
  let ?s' = "?s\<lparr>connections := [(one_client Ended [] True)\<lparr>is_open := False\<rparr>, one_client (Testing ''LOCK:DB'') [] False]\<rparr>"
  have "(server_step (\<lambda>l. False) (polite False))\<^sup>*\<^sup>* ?s ?s'"
    using server_step.Close [of 0 ?s "\<lambda>l. False" "polite False"] by simp
  from lock_is_lost [OF ended_client_run _ _ _ this, of 0] show ?thesis
    by (simp add: one_client_def has_lock_def nth_Cons' less_Suc_eq)
qed

text \<open>The option for valgrind cannot be switched off: whatever its value and whatever options come
  before it, valgrind is used, and with a value of \<^verbatim>\<open>false\<close> or \<^verbatim>\<open>off\<close> as the name of the tool.\<close>

theorem valgrind_always_on:
  "so_valgrind (server_option ''--valgrind'' value o0)
  \<and> so_valgrind_tool (server_option ''--valgrind'' ''false'' o0) = ''false''
  \<and> so_valgrind_tool (server_option ''--valgrind'' ''off'' o0) = ''off''"
  by (simp add: server_option_def switched_off_def Let_def)

text \<open>C37. A value that the client sends is received as it was sent, if it has no byte 0 and fits into the
  buffer, whatever other answers and empty lines come before it and whatever follows.\<close>

theorem value_received:
  assumes "CHR '':'' \<notin> set s1" "\<forall>c \<in> set v. code c \<noteq> 0" "length v < 1000"
    and "\<forall>line \<in> set before. line \<noteq> [] \<longrightarrow> hd (split (is_any_of '':'') line) \<noteq> ''HERE_IS_'' @ s1"
  shows "get_value_from_socket s1 (before @ (''HERE_IS_'' @ s1 @ '':'' @ v) # rest) = Some v"
proof -
  let ?p = "is_any_of '':''"
  have p: "?p = (\<lambda>c. c = CHR '':'')" by (rule ext) (simp add: is_any_of_def)
  have "split ?p ((''HERE_IS_'' @ s1) @ CHR '':'' # v) = (''HERE_IS_'' @ s1) # split ?p v"
    using assms(1) unfolding p by (intro split_append_sep) auto
  then have parts: "split ?p (''HERE_IS_'' @ s1 @ '':'' @ v) = (''HERE_IS_'' @ s1) # split ?p v" by simp
  have "split ?p v \<noteq> []" by simp
  then have two: "2 \<le> length ((''HERE_IS_'' @ s1) # split ?p v)" by (cases "split ?p v") simp_all
  have "wait_for_value s1 (before @ (''HERE_IS_'' @ s1 @ '':'' @ v) # rest) r = Some ((''HERE_IS_'' @ s1) # split ?p v)" for r
    using assms(4)
  proof (induction before arbitrary: r)
    case Nil
    have "length (''HERE_IS_'' @ s1 @ '':'' @ v) \<noteq> 0" by simp
    then show ?case using two by (simp only: append_Nil wait_for_value.simps parts Let_def list.sel simp_thms if_True)
  next
    case (Cons line ls)
    then show ?case by (auto simp: Let_def)
  qed
  moreover have "map c_str (split ?p v) = split ?p v"
    using assms(2) split_token_subset [of _ ?p v] by (intro map_idI) (auto simp: c_str_def takeWhile_eq_all_conv)
  ultimately show ?thesis
    using assms(3) join_split [of "CHR '':''" v] by (simp add: get_value_from_socket_def Let_def p)
qed

theorem value_received_witness:
  "get_value_from_socket ''name'' [''HERE_IS_age:3'', [], ''HERE_IS_name:a:b'', ''x''] = Some ''a:b''"
proof -
  have "CHR '':'' \<notin> set ''name''" "\<forall>c \<in> set ''a:b''. code c \<noteq> 0"
    "\<forall>line \<in> set [''HERE_IS_age:3'', []]. line \<noteq> [] \<longrightarrow> hd (split (is_any_of '':'') line) \<noteq> ''HERE_IS_'' @ ''name''"
    by code_simp+
  from value_received [OF this(1,2) _ this(3), of "[''x'']"] show ?thesis by simp
qed

end
