(* ===== verification/HalUtil.thy ===== *)
theory HalUtil
  imports Server
begin

text \<open>
  What the older programs share: \<^verbatim>\<open>hal2012-util.cpp\<close> (replacing, ASCII, the configuration file, lines of
  a C stream, the lock of the network) and \<^verbatim>\<open>hal2012-universal-cxx.cpp\<close> (the predicates on words).

  The configuration file and the streams are their contents. Sleeping and console output are not modelled.
  The type \<^verbatim>\<open>char\<close> is signed, as it is on the machines the program is built for.
\<close>

section \<open>Words\<close>

definition is_a_variable :: "string \<Rightarrow> bool" where
  "is_a_variable word \<longleftrightarrow> word \<in> set
   [''$a$'', ''$b$'', ''$c$'', ''$d$'', ''$e$'', ''$f$'', ''$g$'', ''$h$'']"

definition is_a_equal_verb :: "string \<Rightarrow> bool" where
  "is_a_equal_verb word \<longleftrightarrow> starts_with word ''='' \<or> starts_with word ''is-a''"

definition is_a_fact_verb :: "string \<Rightarrow> bool" where
  "is_a_fact_verb word \<longleftrightarrow> starts_with word ''='' \<or> starts_with word ''is-part'' \<or> starts_with word ''is-own''
    \<or> starts_with word ''is-a''"

definition is_a_trivial_word :: "string \<Rightarrow> string \<Rightarrow> bool" where
  "is_a_trivial_word language word \<longleftrightarrow>
    word \<in> set [''(a)'', ''_(a)_'', ''(the)'', ''_(the)_'']
    \<or> language = ''en'' \<and> word \<in> set [''the'', ''a'', ''an'']
    \<or> language = ''de'' \<and> word \<in> set
   [''der'', ''die'', ''das'', ''des'', ''den'', ''dem'', ''ein'', ''eine'', ''einer'', ''einem'', ''einen'',
    ''eines'', ''nicht'']
    \<or> word \<in> set
   [''sehr'', ''viel'', ''viele'', ''weder'', ''noch'', ''schon'', ''bereits'', ''nur'', ''zu'', ''mit'',
    ''ohne'', ''in'', ''von'']"

definition is_conditional_questionword :: "string \<Rightarrow> bool" where
  "is_conditional_questionword word \<longleftrightarrow> word \<in> set [''if'', ''when'', ''wenn'', ''falls'', ''sobald'']"

definition can_be_a_main_synonym :: "string \<Rightarrow> bool" where
  "can_be_a_main_synonym word \<longleftrightarrow> word \<notin> set [''ich'', ''du'', ''_ich_'', ''_du_'']"

definition can_be_a_synonym :: "string \<Rightarrow> string \<Rightarrow> bool" where
  "can_be_a_synonym language word \<longleftrightarrow> \<not> is_a_trivial_word language word
    \<and> word \<notin> set
   [''es'', ''*'', ''in'', ''aus'', ''auf'', ''ab'', ''sich'', ''im'', ''an'', ''am'', ''von'', ''vom'',
    ''auf'', ''so'', ''genau'', ''genauso'', ''$$aswellas$$'', ''$$notaswellas$$'']
    \<and> \<not> str_contains word ''wie''"

definition is_important_word :: "string \<Rightarrow> string \<Rightarrow> bool" where
  "is_important_word language word \<longleftrightarrow>
    (\<not> is_a_trivial_word language word
     \<and> word \<notin> set
   [''es'', ''*'', ''in'', ''im'', ''an'', ''am'', ''von'', ''vom'', ''auf'', ''so'', ''genau'', ''genauso'',
    ''$$aswellas$$'', ''$$notaswellas$$'', ''wie'', ''(a)'', ''(the)'', ''der'', ''die'', ''das'']
     \<and> \<not> str_contains word ''viel'' \<and> \<not> str_contains word ''$'' \<and> \<not> str_contains word ''ein'')
    \<or> word \<in> set [''ich'', ''du'', ''_ich_'', ''_du_'']"

section \<open>ASCII\<close>

text \<open>The first table is written in UTF-8, its first three and last but one entries in UTF-8 that was encoded twice.\<close>

definition ascii_table :: "(string \<times> string) list" where
  "ascii_table =
   [([CHR 0xC3, CHR 0x83, CHR 0xC2, CHR 0xBC], ''ue''),
    ([CHR 0xC3, CHR 0x83, CHR 0xC2, CHR 0x9F], ''ss''),
    ([CHR 0xC3, CHR 0x83, CHR 0xC2, CHR 0xA4], ''ae''),
    ([CHR 0xC3, CHR 0xBC], ''ue''), ([CHR 0xC3, CHR 0x9F], ''ss''), ([CHR 0xC3, CHR 0xA4], ''ae''),
    ([CHR 0xC3, CHR 0xB6], ''oe''), ([CHR 0xC3, CHR 0x9C], ''Ue''), ([CHR 0xC3, CHR 0x84], ''Ae''),
    ([CHR 0xC3, CHR 0x96], ''Oe''),
    ([CHR 0xC3, CHR 0x83, CHR 0xC2, CHR 0xA2, CHR 0xC3, CHR 0x82, CHR 0xC2, CHR 0x80, CHR 0xC3, CHR 0x82, CHR 0xC2,
      CHR 0x9E], [quote]),
    ([CHR 0xC3, CHR 0x83, CHR 0xC2, CHR 0xA2, CHR 0xC3, CHR 0x82, CHR 0xC2, CHR 0x80, CHR 0xC3, CHR 0x82, CHR 0xC2,
      CHR 0x9C], [quote]),
    (''&lt;/br&gt;'', '' '')]"

definition signed_char :: "char \<Rightarrow> int" where
  "signed_char c = (if code c < 128 then int (code c) else int (code c) - 256)"

function ascii_chars :: "string \<Rightarrow> string" where
  "ascii_chars [] = []"
| "ascii_chars (c # s) =
    (let y = signed_char c in
     if y = 228 then ''ae'' @ ascii_chars s
     else if y = 196 then ''Ae'' @ ascii_chars s
     else if y = 252 then ''ue'' @ ascii_chars s
     else if y = 220 then ''Ue'' @ ascii_chars s
     else if y = 246 then ''oe'' @ ascii_chars s
     else if y = 214 then ''Oe'' @ ascii_chars s
     else if y = 223 then ''ss'' @ ascii_chars s
     else if y = 226 then ascii_chars (drop 2 s)
     else if y > 129 then ascii_chars (drop 1 s)
     else c_str [c] @ ascii_chars s)"
  by pat_completeness auto
termination by (relation "measure length") auto

definition ascii :: "string \<Rightarrow> string" where
  "ascii s = ascii_chars (fold (\<lambda>(rep, wit) t. replace_all rep wit t) ascii_table s)"

section \<open>The configuration file\<close>

definition config_value :: "string \<Rightarrow> string \<Rightarrow> string" where
  "config_value name line =
    (let t1 = replace_all '' ='' ''='' line;
         t2 = replace_all ''= '' ''='' t1;
         t3 = replace_all [newline] ''='' t2;
         t4 = replace_all [CHR 0x0D] ''='' t3;
         t5 = replace_all name [] t4;
         t6 = replace_all ''='' [] t5
     in c_str t6)"

text \<open>\<open>content\<close> is the file of the three candidates that could be opened first. The second result is what is
  appended to the file.\<close>

definition check_config :: "string \<Rightarrow> string \<Rightarrow> string option \<Rightarrow> string \<times> string" where
  "check_config name dflt content =
    (case (case content of None \<Rightarrow> None | Some s \<Rightarrow> find (\<lambda>l. str_contains l name) (split_lines s)) of
       Some line \<Rightarrow> (config_value name line, [])
     | None \<Rightarrow> (dflt, name @ '' = '' @ dflt @ [newline]))"

section \<open>Lines of a C stream\<close>

definition line_size :: nat where
  "line_size = 4096"

text \<open>\<^verbatim>\<open>fgetc\<close> is stored in a \<^verbatim>\<open>char\<close>, so the byte 255 is the end of the file. \<open>n\<close> bytes are in the buffer.\<close>

fun getline_bytes :: "nat \<Rightarrow> string \<Rightarrow> string \<times> string" where
  "getline_bytes n [] = ([], [])"
| "getline_bytes n (c # s) =
    (if c = newline then ([c], s)
     else if signed_char c = - 1 then ([], s)
     else if Suc n < line_size - 1 then (let (l, r) = getline_bytes (Suc n) s in (c # l, r))
     else ([c], s))"

definition halgetline :: "string \<Rightarrow> string option \<times> string" where
  "halgetline s =
    (case s of
       [] \<Rightarrow> (None, [])
     | c # t \<Rightarrow>
         if c = newline then (Some [c], t)
         else if signed_char c = - 1 then (None, t)
         else (let (l, r) = getline_bytes 1 t in (Some (c # l), r)))"

section \<open>The lock of the network\<close>

text \<open>What is written to the server, and the result when one of the lines that come in answers; without an
  answer the function returns no value.\<close>

definition network_lock :: "string \<Rightarrow> string list \<Rightarrow> string \<times> int option" where
  "network_lock c lines =
    (let idstr = ''LOCK:'' @ c
     in (idstr, if \<exists>l \<in> set lines. str_contains (c_str l) idstr then Some 1 else None))"

definition network_unlock :: "string \<Rightarrow> string list \<Rightarrow> string \<times> int option" where
  "network_unlock c lines =
    (let idstr = ''UNLOCK:'' @ c
     in (idstr, if \<exists>l \<in> set lines. str_contains (c_str l) idstr then Some 1 else None))"

section \<open>Lemmas\<close>

lemma c_str_id: "\<forall>c \<in> set s. code c \<noteq> 0 \<Longrightarrow> c_str s = s"
  by (simp add: c_str_def takeWhile_eq_all_conv)

text \<open>A signed byte is less than 128, so none of the special bytes is ever found.\<close>

lemma signed_char_less: "signed_char c < 128"
  using code_less [of c] by (simp add: signed_char_def)

lemma ascii_chars_plain: "ascii_chars s = filter (\<lambda>c. code c \<noteq> 0) s"
proof (induction s)
  case (Cons c s)
  have "c_str [c] = (if code c \<noteq> 0 then [c] else [])" by (simp add: c_str_def)
  then show ?case using Cons signed_char_less [of c] by (simp add: Let_def)
qed simp

lemma replace_all_skip: "f \<noteq> [] \<Longrightarrow> \<forall>c \<in> set u. c \<noteq> hd f \<Longrightarrow> replace_all f r (u @ s) = u @ replace_all f r s"
proof (induction u)
  case (Cons c u)
  then have "\<not> prefix f (c # u @ s)" by (cases f) auto
  then show ?case using Cons by (simp add: replace_all.simps [of f r "c # u @ s"])
qed simp

lemma replace_all_prefix: "f \<noteq> [] \<Longrightarrow> replace_all f r (f @ s) = r @ replace_all f r s"
  by (cases f) (simp_all add: replace_all.simps [of _ r "_ # _"])

lemma replace_all_absent: "x \<in> set f \<Longrightarrow> x \<notin> set s \<Longrightarrow> replace_all f r s = s"
  by (rule replace_all_id) (meson set_mono_sublist subsetD)

lemma config_value_written:
  assumes "name \<noteq> []" "\<forall>c \<in> {CHR '' '', CHR ''='', newline, CHR 0x0D}. c \<notin> set name"
    and "\<forall>c \<in> {CHR ''='', newline, CHR 0x0D}. c \<notin> set d" "\<forall>c \<in> set d. code c \<noteq> 0" "\<not> sublist name d"
  shows "config_value name (name @ '' = '' @ d) = d"
proof -
  have "replace_all '' ='' ''='' (name @ '' = '' @ d) = name @ replace_all '' ='' ''='' ('' ='' @ '' '' @ d)"
    using assms(2) by (subst replace_all_skip) auto
  also have "\<dots> = name @ ''= '' @ d"
    using assms(3) by (subst replace_all_prefix) (auto simp: replace_all_absent [of "CHR ''=''"])
  finally have t1: "replace_all '' ='' ''='' (name @ '' = '' @ d) = name @ ''= '' @ d" .
  have "replace_all ''= '' ''='' (name @ ''= '' @ d) = name @ replace_all ''= '' ''='' (''= '' @ d)"
    using assms(2) by (subst replace_all_skip) auto
  also have "\<dots> = name @ ''='' @ d"
    using assms(3) by (subst replace_all_prefix) (auto simp: replace_all_absent [of "CHR ''=''"])
  finally have t2: "replace_all ''= '' ''='' (name @ ''= '' @ d) = name @ ''='' @ d" .
  have nl: "newline \<notin> set (name @ ''='' @ d)" "CHR 0x0D \<notin> set (name @ ''='' @ d)"
    using assms(2,3) by (auto simp: newline_def)
  then have t3: "replace_all [newline] ''='' (name @ ''='' @ d) = name @ ''='' @ d"
      "replace_all [CHR 0x0D] ''='' (name @ ''='' @ d) = name @ ''='' @ d"
    by (auto intro: replace_all_absent [of newline] replace_all_absent [of "CHR 0x0D"])
  have "\<not> prefix name (CHR ''='' # d)" using assms(1,2) by (cases name) auto
  then have "\<not> sublist name (CHR ''='' # d)" using assms(5) by (simp add: sublist_Cons_right)
  then have t5: "replace_all name [] (name @ ''='' @ d) = ''='' @ d"
    using replace_all_prefix [OF assms(1)] by (simp add: replace_all_id)
  have t6: "replace_all ''='' [] (''='' @ d) = d"
    using replace_all_prefix [of "''=''" "[]" d] replace_all_absent [of "CHR ''=''" "''=''" d] assms(3) by simp
  show ?thesis
    unfolding config_value_def Let_def t1 t2 t3 t5 t6 by (rule c_str_id [OF assms(4)])
qed

lemma find_append: "find P (xs @ ys) = (case find P xs of None \<Rightarrow> find P ys | Some x \<Rightarrow> Some x)"
  by (induction xs) simp_all

lemma getline_bytes_split:
  "getline_bytes n s = (l, r) \<Longrightarrow> n < line_size - 1 \<Longrightarrow> CHR 0xFF \<notin> set s \<Longrightarrow>
    l @ r = s \<and> n + length l \<le> line_size - 1 \<and> (\<forall>c \<in> set (butlast l). c \<noteq> newline)"
proof (induction n s arbitrary: l r rule: getline_bytes.induct)
  case (2 n c s)
  have no: "signed_char c \<noteq> - 1"
  proof
    assume "signed_char c = - 1"
    then have "code c = code (CHR 0xFF)"
      using code_less [of c] by (auto simp: signed_char_def code_def split: if_splits)
    then show False using "2.prems"(3) code_inject by auto
  qed
  show ?case
  proof (cases "c \<noteq> newline \<and> Suc n < line_size - 1")
    case True
    obtain l1 r1 where g: "getline_bytes (Suc n) s = (l1, r1)" by fastforce
    then have "l1 @ r1 = s \<and> Suc n + length l1 \<le> line_size - 1 \<and> (\<forall>c \<in> set (butlast l1). c \<noteq> newline)"
      using "2.IH" True no "2.prems"(3) by simp
    then show ?thesis using True g no "2.prems"(1) by (auto split: if_splits)
  next
    case False
    then show ?thesis using "2.prems" no by (auto split: if_splits)
  qed
qed simp

section \<open>Properties\<close>

text \<open>What \<^verbatim>\<open>ascii\<close> does with single bytes is dead: the text only loses its bytes 0 after the table.\<close>

theorem ascii_only_table:
  "ascii s = filter (\<lambda>c. code c \<noteq> 0) (fold (\<lambda>(rep, wit) t. replace_all rep wit t) ascii_table s)"
  by (simp add: ascii_def ascii_chars_plain)

text \<open>A setting that is missing is written with its default, and is found when it is asked for again, whatever
  default is given then.\<close>

theorem config_round_trip:
  assumes "name \<noteq> []" "\<forall>c \<in> {CHR '' '', CHR ''='', newline, CHR 0x0D}. c \<notin> set name"
    and "\<forall>c \<in> {CHR ''='', newline, CHR 0x0D}. c \<notin> set d" "\<forall>c \<in> set d. code c \<noteq> 0" "\<not> sublist name d"
    and "s = [] \<or> last s = newline" "\<forall>l \<in> set (split_lines s). \<not> str_contains l name"
  shows "check_config name other (Some (s @ snd (check_config name d (Some s)))) = (d, [])"
proof -
  let ?line = "name @ '' = '' @ d"
  have none: "find (\<lambda>l. str_contains l name) (split_lines s) = None"
    using assms(7) by (auto simp: find_None_iff)
  then have w: "snd (check_config name d (Some s)) = ?line @ [newline]" by (simp add: check_config_def)
  have "newline \<notin> set ?line" using assms(2,3) by (auto simp: newline_def)
  then have one: "split_lines (?line @ [newline]) = [?line]" using split_lines_unlines [of "[?line]"] by simp
  have "split_lines (s @ t) = split_lines s @ split_lines t" for t
    using assms(6) split_lines_append by auto
  then have "find (\<lambda>l. str_contains l name) (split_lines (s @ ?line @ [newline])) = Some ?line"
    using none one by (simp add: find_append str_contains_sublist)
  then show ?thesis
    unfolding w using config_value_written [OF assms(1-5)] by (simp add: check_config_def)
qed

theorem config_round_trip_witness:
  "check_config ''online'' ''0'' (Some (''limit = 9'' @ [newline] @ snd (check_config ''online'' ''1'' (Some (''limit = 9'' @ [newline])))))
    = (''1'', [])"
proof -
  have "''online'' \<noteq> []" "\<forall>c \<in> {CHR '' '', CHR ''='', newline, CHR 0x0D}. c \<notin> set ''online''"
    "\<forall>c \<in> {CHR ''='', newline, CHR 0x0D}. c \<notin> set ''1''" "\<forall>c \<in> set ''1''. code c \<noteq> 0" "\<not> sublist ''online'' ''1''"
    "''limit = 9'' @ [newline] = [] \<or> last (''limit = 9'' @ [newline]) = newline"
    "\<forall>l \<in> set (split_lines (''limit = 9'' @ [newline])). \<not> str_contains l ''online''"
    by code_simp+
  from config_round_trip [OF this, of "''0''"] show ?thesis by simp
qed

text \<open>A line that is read is a nonempty start of the stream that fits into the buffer, and has at most one
  line break, at its end; the rest of the stream stays.\<close>

theorem halgetline_splits:
  assumes "halgetline s = (Some l, r)" "CHR 0xFF \<notin> set s"
  shows "l @ r = s \<and> l \<noteq> [] \<and> length l < line_size \<and> (\<forall>c \<in> set (butlast l). c \<noteq> newline)"
proof (cases s)
  case (Cons c t)
  show ?thesis
  proof (cases "c = newline \<or> signed_char c = - 1")
    case True
    then show ?thesis using assms(1) Cons by (auto simp: halgetline_def line_size_def split: if_splits)
  next
    case False
    obtain l1 r1 where g: "getline_bytes 1 t = (l1, r1)" by fastforce
    then have "l1 @ r1 = t \<and> 1 + length l1 \<le> line_size - 1 \<and> (\<forall>c \<in> set (butlast l1). c \<noteq> newline)"
      using getline_bytes_split [of 1 t] assms(2) Cons by (simp add: line_size_def)
    then show ?thesis using False assms(1) Cons g by (auto simp: halgetline_def split: if_splits)
  qed
qed (use assms in \<open>simp add: halgetline_def\<close>)

theorem halgetline_splits_witness:
  "halgetline (''ab'' @ [newline] @ ''c'') = (Some (''ab'' @ [newline]), ''c'')
    \<and> (''ab'' @ [newline]) @ ''c'' = ''ab'' @ [newline] @ ''c''"
proof -
  have "halgetline (''ab'' @ [newline] @ ''c'') = (Some (''ab'' @ [newline]), ''c'')" "CHR 0xFF \<notin> set (''ab'' @ [newline] @ ''c'')"
    by code_simp+
  then show ?thesis using halgetline_splits by blast
qed

lemma network_lock_answer:
  assumes "(w, l) \<in> set ls" "str_contains (c_str l) (''LOCK:'' @ c)"
  shows "snd (network_lock c (map snd ls)) = Some 1"
  using assms by (force simp: network_lock_def Let_def)

text \<open>A process gets the lock it asks for when the server has taken it. But any line of the client that has the
  request in it counts as the answer, too, while the lock stays as it is.\<close>

theorem lock_granted_or_spoofed:
  assumes "\<forall>x \<in> set c. code x \<noteq> 0" "\<forall>x \<in> set line. code x \<noteq> 0"
    and "thread_phase con = Taking (fst (network_lock c [])) "
    and "is_open spoof" "\<not> network_ended spoof" "network_lines spoof = line # rest"
    and "str_contains line (''LOCK:'' @ c)" "\<not> str_contains line ''HOLD:''"
  shows "snd (network_lock c (map snd (to_process (snd (process_to_network other (lock, con)))))) = Some 1
    \<and> snd (network_lock c (map snd (to_process (network_to_process spoof)))) = Some 1"
proof
  have id: "c_str (''LOCK:'' @ c) = ''LOCK:'' @ c" "c_str line = line"
    using assms(1,2) by (auto intro!: c_str_id simp: code_def)
  have self: "str_contains t t" for t :: string by (simp add: str_contains_sublist)
  have "(From_lock, ''LOCK:'' @ c) \<in> set (to_process (snd (process_to_network other (lock, con))))"
    using assms(3) by (simp add: process_to_network_def network_lock_def Let_def write_process_def write_network_def)
  then show "snd (network_lock c (map snd (to_process (snd (process_to_network other (lock, con)))))) = Some 1"
    using id(1) self by (simp add: network_lock_answer)
  have "line \<noteq> []" using assms(7) by auto
  then have "(From_network, line) \<in> set (to_process (network_to_process spoof))"
    using assms(4-8) id(2) by (simp add: network_to_process_def Let_def write_process_def)
  then show "snd (network_lock c (map snd (to_process (network_to_process spoof)))) = Some 1"
    using id(2) assms(7) by (simp add: network_lock_answer)
qed

theorem lock_granted_or_spoofed_witness:
  "snd (network_lock ''DB'' (map snd (to_process (snd (process_to_network (\<lambda>l. False) (True, one_client (Taking ''LOCK:DB'') [] False))))))
    = Some 1
  \<and> snd (network_lock ''DB'' (map snd (to_process (network_to_process (new_connection [] [''LOCK:DB'']))))) = Some 1"
  by (rule lock_granted_or_spoofed [where line = "''LOCK:DB''" and rest = "[]"])
    (simp_all add: one_client_def new_connection_def network_lock_def code_def)

end
