(* ===== verification/Talk.thy ===== *)
theory Talk
  imports HalUtil
begin

text \<open>
  \<^verbatim>\<open>hal2012-talk.cpp\<close>: what the older programs do for the user. Facts are replaced, deleted and read in the
  files they come from, a query in CSV becomes a record, the answer of the store becomes CSV, a verb is
  widened to its forms, and the start script of the interpreter is written.

  Files are a map from names to contents. The store and the interpreters are not called here: a query ends
  with the record that is handed to \<^verbatim>\<open>sql_get_records\<close>, a start with the script. An access behind the end
  of a vector, or a text that does not fit into its buffer, is an error value. Console output, threads and
  freeing are not modelled.
\<close>

section \<open>Facts in their files\<close>

type_synonym file_map = "string \<Rightarrow> string option"

text \<open>A source is the name of a file and the number of a fact in it. \<^const>\<open>None\<close> is a source without a colon.\<close>

definition source_parts :: "string \<Rightarrow> (string \<times> int) option" where
  "source_parts source =
    (case split (is_any_of '':'') source of
       filename # line # rest \<Rightarrow> Some (filename, stream_int line)
     | _ \<Rightarrow> None)"

definition opens_fact :: "string \<Rightarrow> bool" where
  "opens_fact line \<longleftrightarrow> str_contains (c_str line) ''<fact>''"

definition backslash_n :: string where
  "backslash_n = [CHR 0x5C, CHR ''n'']"

text \<open>\<open>added\<close> is the static variable of that name; it keeps its value from call to call.\<close>

fun replace_lines :: "string option \<Rightarrow> int \<Rightarrow> int \<Rightarrow> bool \<Rightarrow> string list \<Rightarrow> string list \<times> bool" where
  "replace_lines replacement line_int fact_number added [] = ([], added)"
| "replace_lines replacement line_int fact_number added (l # ls) =
    (let fact_number = (if opens_fact l then fact_number + 1 else fact_number) in
     if fact_number = line_int then
       (if replacement \<noteq> None \<and> added then
          (let (ds, a) = replace_lines replacement line_int fact_number True ls
           in (replace_all backslash_n [newline] (the replacement @ [newline]) # ds, a))
        else replace_lines replacement line_int fact_number added ls)
     else
       (let (ds, a) = replace_lines replacement line_int fact_number added ls
        in (replace_all [newline] [] l # ds, a)))"

definition file_lines :: "string \<Rightarrow> string list" where
  "file_lines content =
    split (is_any_of [newline]) (replace_all [CHR 0x0D] [] (replace_all [CHR 0x0D, newline] [newline] content))"

definition fact_replace_in_source ::
  "string \<Rightarrow> string option \<Rightarrow> bool \<Rightarrow> file_map \<Rightarrow> (file_map \<times> bool) option"
where
  "fact_replace_in_source source replacement added files =
    (case source_parts source of
       None \<Rightarrow> None
     | Some (filename, line_int) \<Rightarrow>
         (case files filename of
            None \<Rightarrow> Some (files, added)
          | Some content \<Rightarrow>
              (let (ds, a) = replace_lines replacement line_int 0 added (file_lines content)
               in Some (files(filename \<mapsto> concat (map (\<lambda>l. l @ [newline]) ds)), a))))"

definition fact_delete_from_source :: "string \<Rightarrow> bool \<Rightarrow> file_map \<Rightarrow> (file_map \<times> bool) option" where
  "fact_delete_from_source source added files = fact_replace_in_source source None added files"

fun entry_lines :: "int \<Rightarrow> int \<Rightarrow> string list \<Rightarrow> string" where
  "entry_lines line_int fact_number [] = []"
| "entry_lines line_int fact_number (l # ls) =
    (let fact_number = (if opens_fact l then fact_number + 1 else fact_number)
     in (if fact_number = line_int then l @ backslash_n else []) @ entry_lines line_int fact_number ls)"

text \<open>The inner \<^const>\<open>None\<close> is the null pointer for a file that cannot be opened.\<close>

definition fact_read_from_source :: "string \<Rightarrow> file_map \<Rightarrow> string option option" where
  "fact_read_from_source source files =
    (case source_parts source of
       None \<Rightarrow> None
     | Some (filename, line_int) \<Rightarrow>
         Some (case files filename of
                 None \<Rightarrow> None
               | Some content \<Rightarrow>
                   Some (c_str (entry_lines line_int 0 (split (is_any_of [newline, CHR 0x0D]) content)))))"

section \<open>Queries in CSV\<close>

definition filter_empty_str :: "string \<Rightarrow> string" where
  "filter_empty_str s = (if length s \<noteq> 0 \<and> s \<noteq> '' '' \<and> s \<noteq> ''*'' then s else [])"

definition filter_empty_int :: "string \<Rightarrow> int" where
  "filter_empty_int s0 = (let s = filter_empty_str s0 in if length s = 0 then 0 else stream_int s)"

record csv_query =
  cq_verb :: string
  cq_subjects :: string
  cq_objects :: string
  cq_adverbs :: string
  cq_extra :: string
  cq_context :: string
  cq_pkey :: string
  cq_flags :: "int list"

datatype talk_error = Too_few_fields | Field_too_long

definition copy_field :: "string \<Rightarrow> string" where
  "copy_field s = c_str (filter_empty_str s)"

definition or_text :: "string \<Rightarrow> string \<Rightarrow> string" where
  "or_text s dflt = (if length s = 0 then dflt else s)"

text \<open>The branch for the thirteenth field stands where there are at most twelve; \<^verbatim>\<open>everything_q\<close> is never set.\<close>

definition get_csv :: "string \<Rightarrow> talk_error + csv_query" where
  "get_csv csv_request =
    (let buffer = split (is_any_of ''^'') csv_request;
         q = (if 13 \<le> length buffer then
                Inr \<lparr>cq_verb = [], cq_subjects = [], cq_objects = [], cq_adverbs = [], cq_extra = [], cq_context = [],
                     cq_pkey = [], cq_flags = [0, 0, 0, 0, 0]\<rparr>
              else if length buffer < 12 then Inl Too_few_fields
              else if \<exists>s \<in> set (take 7 buffer). line_size \<le> length (copy_field s) then Inl Field_too_long
              else
                Inr \<lparr>cq_verb = copy_field (buffer ! 0), cq_subjects = copy_field (buffer ! 1),
                     cq_objects = copy_field (buffer ! 2), cq_adverbs = copy_field (buffer ! 3),
                     cq_extra = copy_field (buffer ! 4), cq_context = copy_field (buffer ! 5),
                     cq_pkey = copy_field (buffer ! 6),
                     cq_flags = map (\<lambda>k. as_short (filter_empty_int (buffer ! k))) [7, 8, 9, 10, 11]\<rparr>)
     in case q of
          Inl err \<Rightarrow> Inl err
        | Inr r \<Rightarrow>
            Inr \<lparr>cq_verb = or_text (cq_verb r) ''0'', cq_subjects = or_text (cq_subjects r) ''0'',
                 cq_objects = or_text (cq_objects r) ''0'', cq_adverbs = or_text (cq_adverbs r) ''0'',
                 cq_extra = or_text (cq_extra r) ''0'', cq_context = or_text (cq_context r) ''default'',
                 cq_pkey = or_text (cq_pkey r) ''0'', cq_flags = cq_flags r\<rparr>)"

section \<open>Answers in CSV\<close>

text \<open>A row is an array of cells whose rest is null.\<close>

record dataset =
  ds_data :: "string option list option list"
  ds_column_count :: nat
  ds_toomuch :: bool

definition cell :: "string option list \<Rightarrow> nat \<Rightarrow> string option" where
  "cell row m = (if m < length row then row ! m else None)"

definition cell_text :: "string option \<Rightarrow> string" where
  "cell_text c = (case c of None \<Rightarrow> [] | Some s \<Rightarrow> s)"

definition is_written :: "string option list \<Rightarrow> bool" where
  "is_written row \<longleftrightarrow> (case cell row 0 of None \<Rightarrow> False | Some s \<Rightarrow> s \<noteq> [])"

text \<open>The size of the buffer that is allocated, and the text that is written into it.\<close>

definition csv_size :: "dataset \<Rightarrow> nat" where
  "csv_size set0 =
    4096 + length (ds_data set0)
    + sum_list (map (\<lambda>r. case r of None \<Rightarrow> 0
        | Some row \<Rightarrow> sum_list (map (\<lambda>m. case cell row m of None \<Rightarrow> 0 | Some s \<Rightarrow> length s + 10) [0..<ds_column_count set0]))
        (ds_data set0))"

definition csv_row :: "nat \<Rightarrow> string option list \<Rightarrow> string" where
  "csv_row columns row =
    concat (map (\<lambda>m. cell_text (cell row m) @ (if m + 1 < columns then ''^'' else [])) [0..<columns]) @ [newline]"

definition make_csv :: "dataset \<Rightarrow> string" where
  "make_csv set0 =
    (if ds_toomuch set0 then ''/err:TOOMUCH'' @ [newline]
     else concat (map (\<lambda>r. case r of None \<Rightarrow> [] | Some row \<Rightarrow>
        if is_written row then csv_row (ds_column_count set0) row else []) (ds_data set0)))"

section \<open>Language, verbs and scripts\<close>

text \<open>The result is \<^verbatim>\<open>INVALID\<close> or 0, with the new language.\<close>

definition set_text_language :: "string \<Rightarrow> string \<Rightarrow> int \<times> string" where
  "set_text_language s language = (if length s = 0 then (253, language) else (0, s))"

definition get_text_language :: "string \<Rightarrow> string" where
  "get_text_language language = (if length language = 0 then ''de'' else language)"

definition be_forms :: string where
  "be_forms = ''=|bi|is|bin|bist|ist|sind|seid|heisst|heisse|heissen|sei|war|wurde|wurden|werden|werde|wirst|wurdest|wurde|wuerdet|werdet|is|am|are''"

definition generalize_verb :: "string option \<Rightarrow> string \<Rightarrow> string" where
  "generalize_verb verbs_csv verb =
    (if str_contains (''|'' @ be_forms @ ''|'') (''|'' @ verb) then be_forms
     else
       (case find (\<lambda>l. str_contains ('','' @ l @ '','') ('','' @ verb @ '',''))
               (map trim (case verbs_csv of None \<Rightarrow> [] | Some s \<Rightarrow> split_lines s)) of
          Some l \<Rightarrow> replace_all '','' ''|'' l
        | None \<Rightarrow> verb))"

definition sources_script :: "string \<Rightarrow> string \<Rightarrow> string list" where
  "sources_script language base_dir =
    [''compile source hal2012-lang-'' @ language @ ''.hal'', ''require source hal2012-lang-'' @ language @ ''.hal'',
     ''compile source hal2012.hal'', ''require source hal2012.hal'',
     ''set new var current_language to '' @ [CHR 0x27] @ language @ [CHR 0x27],
     ''set new var path to '' @ [CHR 0x27] @ base_dir @ [CHR 0x27]]"

definition script_text :: "string list \<Rightarrow> string" where
  "script_text ls = concat (map (\<lambda>l. l @ [newline]) ls)"

definition init_script :: "string \<Rightarrow> string \<Rightarrow> string" where
  "init_script language base_dir =
    script_text (sources_script language base_dir @ [''do init with var current_language, var path''])"

text \<open>The script of \<^verbatim>\<open>hal2012_answer_thread\<close> with its name; the types of a start are \<^verbatim>\<open>SINGLE\<close>, 1, and
  \<^verbatim>\<open>MULTI\<close>, 2. \<^const>\<open>None\<close> is the early return.\<close>

definition start_script :: "string \<Rightarrow> string \<Rightarrow> string \<Rightarrow> int \<Rightarrow> (string \<times> string) option" where
  "start_script planguage tlanguage base_dir start_type =
    (if length planguage = 0 \<or> length tlanguage = 0 then None
     else
       Some (base_dir @ ''/temp_'' @ tlanguage @ ''_'' @ show_int start_type @ ''.hal'',
         script_text (sources_script tlanguage base_dir
           @ (if start_type = 1 then [''do init with var current_language, var path''] else [])
           @ [''do shell with var current_language, var path'', ''do exit with 0''])))"

datatype interpreter = Perl5 | Perl6

definition interpreter_of :: "string \<Rightarrow> interpreter option" where
  "interpreter_of planguage = (if planguage = ''perl6'' then Some Perl6 else if planguage = ''perl5'' then Some Perl5 else None)"

text \<open>What \<^verbatim>\<open>hal2012_compile\<close> converts and \<^verbatim>\<open>hal2012_execute_file\<close> executes, with which interpreter.\<close>

definition file_to_run :: "string \<Rightarrow> string \<Rightarrow> (interpreter \<times> string) option" where
  "file_to_run file_name planguage =
    map_option (\<lambda>i. (i, if 0 < length file_name then file_name else ''hal2012.hal'')) (interpreter_of planguage)"

definition execute_code :: "string \<Rightarrow> string \<Rightarrow> file_map \<Rightarrow> (interpreter \<times> string) option \<times> file_map" where
  "execute_code code_text planguage files =
    (map_option (\<lambda>i. (i, ''temp.hal'')) (interpreter_of planguage), files(''temp.hal'' \<mapsto> code_text))"

definition files_to_delete :: "string list" where
  "files_to_delete =
    [''_check_files'', ''_output'', ''_output__pos'', ''_input__pos'', ''_output__add_pro_file'', ''_input__add_pro_file'',
     ''_output__get_csv'', ''_input__get_csv'', ''_exit'', ''_exit_by_user'', ''_exit_hal2012_signal_handler'',
     ''_do_not_need_a_signal_handler'', ''_input_server'', ''_change_text_language'']"

definition clean_files :: "file_map \<Rightarrow> file_map" where
  "clean_files files = fold (\<lambda>f m. m(f := None)) (take 13 files_to_delete) files"

section \<open>Lemmas: facts in their files\<close>

text \<open>Every line with the number of the fact it belongs to; 0 before the first.\<close>

fun number_lines :: "int \<Rightarrow> string list \<Rightarrow> (int \<times> string) list" where
  "number_lines n [] = []"
| "number_lines n (l # ls) =
    (let n = (if opens_fact l then n + 1 else n) in (n, l) # number_lines n ls)"

fun last_number :: "int \<Rightarrow> string list \<Rightarrow> int" where
  "last_number n [] = n"
| "last_number n (l # ls) = last_number (if opens_fact l then n + 1 else n) ls"

text \<open>The lines that are kept, and the number they get when a fact before them is gone.\<close>

definition kept :: "int \<Rightarrow> (int \<times> string) list \<Rightarrow> (int \<times> string) list" where
  "kept k nls = filter (\<lambda>(i, l). i \<noteq> k) nls"

definition renumber :: "int \<Rightarrow> int \<Rightarrow> int" where
  "renumber k i = (if k < i then i - 1 else i)"

lemma replace_lines_kept:
  "\<forall>l \<in> set ls. newline \<notin> set l \<Longrightarrow>
    replace_lines replacement k n False ls = (map snd (kept k (number_lines n ls)), False)"
proof (induction ls arbitrary: n)
  case (Cons l ls)
  have "replace_all [newline] [] l = l" using Cons.prems by (intro replace_all_absent [of newline]) auto
  then show ?case using Cons by (simp add: kept_def Let_def)
qed (simp add: kept_def)

lemma number_append: "number_lines n (xs @ ys) = number_lines n xs @ number_lines (last_number n xs) ys"
  by (induction xs arbitrary: n) (simp_all add: Let_def)

text \<open>Numbering what is left. Inside and behind the deleted fact the new number is one less than the old one.\<close>

definition lowered :: "int \<Rightarrow> int \<Rightarrow> int" where
  "lowered k n = (if k \<le> n then n - 1 else n)"

lemma lowered_step:
  fixes l :: string and k n :: int
  defines "m \<equiv> (if opens_fact l then n + 1 else n)"
  shows "number_lines n (l # ls) = (m, l) # number_lines m ls"
    "kept k (number_lines n (l # ls)) = (if m = k then [] else [(m, l)]) @ kept k (number_lines m ls)"
    "m = k \<Longrightarrow> lowered k n = lowered k m"
    "m \<noteq> k \<Longrightarrow> (if opens_fact l then lowered k n + 1 else lowered k n) = lowered k m"
    "m \<noteq> k \<Longrightarrow> renumber k m = lowered k m"
    "last_number n (l # ls) = last_number m ls"
  by (simp_all add: m_def kept_def Let_def lowered_def renumber_def) (simp_all split: if_splits)

lemma number_kept:
  "number_lines (lowered k n) (map snd (kept k (number_lines n ls))) =
    map (\<lambda>(i, l). (renumber k i, l)) (kept k (number_lines n ls))"
proof (induction ls arbitrary: n)
  case (Cons l ls)
  note step = lowered_step [where l = l and n = n]
  show ?case
  proof (cases "(if opens_fact l then n + 1 else n) = k")
    case True
    then show ?thesis using Cons [of k] step(3) by (simp add: step(2) del: number_lines.simps)
  next
    case False
    then show ?thesis
      using Cons by (simp add: step(2,5) lowered_step(1) [where n = "lowered k n" and l = l] step(4) del: number_lines.simps)
  qed
qed (simp add: kept_def)

lemma last_number_kept:
  "last_number (lowered k n) (map snd (kept k (number_lines n ls))) = lowered k (last_number n ls)"
proof (induction ls arbitrary: n)
  case (Cons l ls)
  note step = lowered_step [where l = l and n = n]
  show ?case
  proof (cases "(if opens_fact l then n + 1 else n) = k")
    case True
    then show ?thesis using Cons [of k] step(3) by (simp add: step(2,6) del: number_lines.simps last_number.simps)
  next
    case False
    then show ?thesis
      using Cons by (simp add: step(2,6) lowered_step(6) [where n = "lowered k n" and l = l] step(4) del: number_lines.simps last_number.simps)
  qed
qed (simp add: kept_def)

lemma entry_lines_number:
  "entry_lines k n ls = concat (map (\<lambda>(i, l). if i = k then l @ backslash_n else []) (number_lines n ls))"
  by (induction ls arbitrary: n) (simp_all add: Let_def)

lemma entry_lines_kept:
  assumes "0 < k" "0 \<le> j"
  shows "entry_lines j 0 (map snd (kept k (number_lines 0 ls)) @ [[]]) =
    entry_lines (if j < k then j else j + 1) 0 ls
    @ (if j = last_number 0 (map snd (kept k (number_lines 0 ls))) then backslash_n else [])"
proof -
  let ?nls = "number_lines 0 ls"
  have "number_lines 0 (map snd (kept k ?nls)) = map (\<lambda>(i, l). (renumber k i, l)) (kept k ?nls)"
    using number_kept [of k 0 ls] assms(1) by (simp add: lowered_def)
  moreover have "concat (map (\<lambda>(i, l). if i = j then l @ backslash_n else []) (map (\<lambda>(i, l). (renumber k i, l)) (kept k nls))) =
      concat (map (\<lambda>(i, l). if i = (if j < k then j else j + 1) then l @ backslash_n else []) nls)" for nls
    by (induction nls) (auto simp: kept_def renumber_def)
  moreover have "\<not> opens_fact []" by code_simp
  ultimately show ?thesis by (simp add: entry_lines_number number_append)
qed

lemma split_cong: "\<forall>c \<in> set s. p c = q c \<Longrightarrow> split p s = split q s"
  by (induction s) simp_all

lemma split_unlines:
  "\<forall>l \<in> set ls. newline \<notin> set l \<Longrightarrow> split (is_any_of [newline]) (concat (map (\<lambda>l. l @ [newline]) ls)) = ls @ [[]]"
proof (induction ls)
  case (Cons l ls)
  then have "split (is_any_of [newline]) (l @ newline # concat (map (\<lambda>l. l @ [newline]) ls))
      = l # split (is_any_of [newline]) (concat (map (\<lambda>l. l @ [newline]) ls))"
    by (intro split_append_sep) (auto simp: is_any_of_def)
  then show ?case using Cons by simp
qed (simp add: is_any_of_def)

lemma source_parts_shown:
  assumes "CHR '':'' \<notin> set f" "int k \<le> int_max"
  shows "source_parts (f @ '':'' @ show_nat k) = Some (f, int k)"
proof -
  have d: "\<forall>c \<in> set (show_nat k). \<not> is_any_of '':'' c"
    using show_nat_digits by (fastforce simp: is_any_of_def is_digit_def code_def)
  have "split (is_any_of '':'') (f @ CHR '':'' # show_nat k) = f # split (is_any_of '':'') (show_nat k)"
    using assms(1) by (intro split_append_sep) (auto simp: is_any_of_def)
  then show ?thesis
    using split_no_sep [OF d] stream_int_show_nat [OF assms(2)] by (simp add: source_parts_def)
qed

section \<open>Properties\<close>

text \<open>The number of facts that are left when one is taken away.\<close>

definition facts_left :: "nat \<Rightarrow> string \<Rightarrow> int" where
  "facts_left k content = last_number 0 (map snd (kept (int k) (number_lines 0 (file_lines content))))"

text \<open>C39. Replacing a fact in its file deletes it, whatever the replacement is: the facts before it stay what they
  were, those behind it move up by one, and the last one gets one more empty line.\<close>

theorem replacing_deletes:
  assumes "files f = Some content" "CHR 0x0D \<notin> set content" "\<forall>c \<in> set content. code c \<noteq> 0" "CHR '':'' \<notin> set f"
    and "0 < k" "int k \<le> int_max" "int j < int_max"
  shows "\<exists>files' e.
    fact_replace_in_source (f @ '':'' @ show_nat k) replacement False files = Some (files', False)
    \<and> fact_read_from_source (f @ '':'' @ show_nat (if j < k then j else j + 1)) files = Some (Some e)
    \<and> fact_read_from_source (f @ '':'' @ show_nat j) files' =
        Some (Some (e @ (if int j = facts_left k content then backslash_n else [])))"
proof -
  let ?p = "is_any_of [newline]" and ?q = "is_any_of [newline, CHR 0x0D]"
  let ?ls = "split ?p content"
  define new where "new = map snd (kept (int k) (number_lines 0 ?ls))"
  have lines: "file_lines content = ?ls" using assms(2) by (simp add: file_lines_def replace_all_absent [of "CHR 0x0D"])
  have nl: "\<forall>l \<in> set ?ls. newline \<notin> set l"
    using split_tokens [of ?p content] by (auto simp: is_any_of_def)
  have sub: "set new \<subseteq> set ?ls"
  proof -
    have "set (map snd (number_lines n ls)) = set ls" for n ls by (induction ls arbitrary: n) (simp_all add: Let_def)
    then show ?thesis by (auto simp: kept_def new_def)
  qed
  let ?text = "concat (map (\<lambda>l. l @ [newline]) new)"
  have chars: "set ?text \<subseteq> insert newline (set content)"
  proof
    fix c assume "c \<in> set ?text"
    then have "c = newline \<or> (\<exists>l \<in> set new. c \<in> set l)" by (auto split: if_splits)
    then show "c \<in> insert newline (set content)" using sub split_token_subset [of _ ?p content] by blast
  qed
  have no: "CHR 0x0D \<notin> set ?text" "\<forall>c \<in> set ?text. code c \<noteq> 0"
  proof -
    have "CHR 0x0D \<noteq> newline" "code newline \<noteq> 0" by (simp_all add: newline_def code_def)
    then show "CHR 0x0D \<notin> set ?text" "\<forall>c \<in> set ?text. code c \<noteq> 0"
      using assms(2,3) chars by blast+
  qed
  have read: "fact_read_from_source (f @ '':'' @ show_nat i) fs = Some (Some (entry_lines (int i) 0 (split ?p t)))"
    if "fs f = Some t" "CHR 0x0D \<notin> set t" "\<forall>c \<in> set t. code c \<noteq> 0" "int i \<le> int_max" for i fs t
  proof -
    have "split ?q t = split ?p t" using that(2) by (intro split_cong) (auto simp: is_any_of_def)
    moreover have "\<forall>c \<in> set (entry_lines i n ls). code c \<noteq> 0" if "\<forall>l \<in> set ls. \<forall>c \<in> set l. code c \<noteq> 0" for i n ls
      using that by (induction ls arbitrary: n) (auto simp: Let_def backslash_n_def code_def)
    then have "c_str (entry_lines (int i) 0 (split ?p t)) = entry_lines (int i) 0 (split ?p t)"
      using that(3) split_token_subset [of _ ?p t] by (intro c_str_id) blast
    ultimately show ?thesis
      using that source_parts_shown [OF assms(4) that(4)] by (simp add: fact_read_from_source_def)
  qed
  have "fact_replace_in_source (f @ '':'' @ show_nat k) replacement False files = Some (files(f \<mapsto> ?text), False)"
    using source_parts_shown [OF assms(4,6)] assms(1) replace_lines_kept [OF nl]
    by (simp add: fact_replace_in_source_def lines new_def)
  moreover have "fact_read_from_source (f @ '':'' @ show_nat (if j < k then j else j + 1)) files =
      Some (Some (entry_lines (int (if j < k then j else j + 1)) 0 ?ls))"
    using assms by (intro read) auto
  moreover have "fact_read_from_source (f @ '':'' @ show_nat j) (files(f \<mapsto> ?text)) =
      Some (Some (entry_lines (int j) 0 (new @ [[]])))"
  proof -
    have "split ?p ?text = new @ [[]]" using nl sub by (intro split_unlines) blast
    then show ?thesis using read [of "files(f \<mapsto> ?text)" ?text j] no assms(7) by simp
  qed
  ultimately show ?thesis
    using entry_lines_kept [of "int k" "int j" ?ls] assms(5)
    by (intro exI conjI) (assumption | simp add: facts_left_def lines new_def add.commute [of 1])+
qed

definition three_facts :: string where
  "three_facts = ''<fact>'' @ [newline] @ ''a'' @ [newline] @ ''<fact>'' @ [newline] @ ''b'' @ [newline] @ ''<fact>'' @ [newline] @ ''c''"

theorem replacing_deletes_witness:
  "\<exists>files'. fact_replace_in_source ''f:2'' (Some ''new'') False [''f'' \<mapsto> three_facts] = Some (files', False)
    \<and> fact_read_from_source ''f:1'' files' = Some (Some (''<fact>'' @ backslash_n @ ''a'' @ backslash_n))"
proof -
  have f: "CHR 0x0D \<notin> set three_facts" "\<forall>c \<in> set three_facts. code c \<noteq> 0" "CHR '':'' \<notin> set ''f''"
    "''f'' @ '':'' @ show_nat 2 = ''f:2''" "''f'' @ '':'' @ show_nat 1 = ''f:1''" "facts_left 2 three_facts = 2"
    by code_simp+
  have "fact_read_from_source ''f:1'' [''f'' \<mapsto> three_facts] = Some (Some (''<fact>'' @ backslash_n @ ''a'' @ backslash_n))"
    by code_simp
  then show ?thesis
    using replacing_deletes [OF _ f(1-3), of "[''f'' \<mapsto> three_facts]" 2 1 "Some ''new''"] f(4-6)
    by (auto simp: int_max_def)
qed

section \<open>CSV\<close>

text \<open>A query of twelve fields is understood field by field, with the defaults for empty ones; a query of more
  fields, whatever they are, becomes the query for nothing in particular.\<close>

definition csv_field :: "string \<Rightarrow> bool" where
  "csv_field t \<longleftrightarrow> CHR ''^'' \<notin> set t \<and> (\<forall>c \<in> set t. code c \<noteq> 0) \<and> length t < line_size"

theorem csv_query_fields:
  assumes "length texts = 7" "length flags = 5" "\<forall>t \<in> set texts. csv_field t" "\<forall>n \<in> set flags. n < 32768" "rest \<noteq> []"
    and "query = join ''^'' (texts @ map show_nat flags)"
  shows "get_csv query =
      Inr \<lparr>cq_verb = or_text (filter_empty_str (texts ! 0)) ''0'', cq_subjects = or_text (filter_empty_str (texts ! 1)) ''0'',
           cq_objects = or_text (filter_empty_str (texts ! 2)) ''0'', cq_adverbs = or_text (filter_empty_str (texts ! 3)) ''0'',
           cq_extra = or_text (filter_empty_str (texts ! 4)) ''0'', cq_context = or_text (filter_empty_str (texts ! 5)) ''default'',
           cq_pkey = or_text (filter_empty_str (texts ! 6)) ''0'', cq_flags = map int flags\<rparr>
    \<and> get_csv (query @ ''^'' @ rest) =
      Inr \<lparr>cq_verb = ''0'', cq_subjects = ''0'', cq_objects = ''0'', cq_adverbs = ''0'', cq_extra = ''0'',
           cq_context = ''default'', cq_pkey = ''0'', cq_flags = [0, 0, 0, 0, 0]\<rparr>"
proof
  let ?p = "is_any_of ''^''" and ?ws = "texts @ map show_nat flags"
  have digits: "CHR ''^'' \<notin> set (show_nat n)" for n
    using show_nat_digits by (fastforce simp: is_digit_def code_def)
  then have "split ?p (join [CHR ''^''] ?ws) = ?ws"
    using assms(1,3) by (intro split_join) (auto simp: is_any_of_def csv_field_def)
  then have buffer: "split ?p query = ?ws" using assms(6) by simp
  have copy: "copy_field t = filter_empty_str t \<and> length (copy_field t) < line_size" if "t \<in> set texts" for t
  proof -
    have "c_str t = t" "length t < line_size" using assms(3) that by (auto simp: csv_field_def intro: c_str_id)
    then show ?thesis by (simp add: copy_field_def filter_empty_str_def line_size_def c_str_def [of "[]"])
  qed
  have flag: "as_short (filter_empty_int (show_nat n)) = int n" if "n \<in> set flags" for n
  proof -
    have "filter_empty_str (show_nat n) = show_nat n"
      using show_nat_digits [of _ n] by (auto simp: filter_empty_str_def is_digit_def code_def)
    moreover have "n < 32768" using assms(4) that by blast
    ultimately show ?thesis
      using stream_int_show_nat [of n] by (simp add: filter_empty_int_def as_short_def int_max_def)
  qed
  have "map (\<lambda>k. as_short (filter_empty_int (?ws ! k))) [7, 8, 9, 10, 11] = map (\<lambda>i. as_short (filter_empty_int (show_nat (flags ! i)))) [0, 1, 2, 3, 4]"
    using assms(1,2) by (simp add: nth_append)
  also have "\<dots> = map (\<lambda>i. int (flags ! i)) [0, 1, 2, 3, 4]"
    using flag assms(2) by simp
  also have "\<dots> = map int flags"
    using assms(2) by (intro nth_equalityI) (auto simp: less_Suc_eq nth_Cons' eval_nat_numeral)
  finally have flags: "map (\<lambda>k. as_short (filter_empty_int (?ws ! k))) [7, 8, 9, 10, 11] = map int flags" .
  have "\<not> (\<exists>s \<in> set (take 7 ?ws). line_size \<le> length (copy_field s))"
    using copy assms(1) by (fastforce simp: not_le [symmetric])
  then show "get_csv query =
      Inr \<lparr>cq_verb = or_text (filter_empty_str (texts ! 0)) ''0'', cq_subjects = or_text (filter_empty_str (texts ! 1)) ''0'',
           cq_objects = or_text (filter_empty_str (texts ! 2)) ''0'', cq_adverbs = or_text (filter_empty_str (texts ! 3)) ''0'',
           cq_extra = or_text (filter_empty_str (texts ! 4)) ''0'', cq_context = or_text (filter_empty_str (texts ! 5)) ''default'',
           cq_pkey = or_text (filter_empty_str (texts ! 6)) ''0'', cq_flags = map int flags\<rparr>"
    using assms(1,2) copy flags unfolding get_csv_def buffer Let_def by (simp add: nth_append)
  have "12 < length (split ?p (query @ CHR ''^'' # rest))"
    using assms(1,2) buffer split_append [of ?p "CHR ''^''" query rest] by (cases "split ?p rest") (simp_all add: is_any_of_def)
  then show "get_csv (query @ ''^'' @ rest) =
      Inr \<lparr>cq_verb = ''0'', cq_subjects = ''0'', cq_objects = ''0'', cq_adverbs = ''0'', cq_extra = ''0'',
           cq_context = ''default'', cq_pkey = ''0'', cq_flags = [0, 0, 0, 0, 0]\<rparr>"
    by (simp add: get_csv_def or_text_def)
qed

theorem csv_query_fields_witness:
  "get_csv ''is-a^cat^*^^^what^ ^1^0^0^0^20'' =
    Inr \<lparr>cq_verb = ''is-a'', cq_subjects = ''cat'', cq_objects = ''0'', cq_adverbs = ''0'', cq_extra = ''0'',
         cq_context = ''what'', cq_pkey = ''0'', cq_flags = [1, 0, 0, 0, 20]\<rparr>
  \<and> get_csv ''is-a^cat^*^^^what^ ^1^0^0^0^20^everything'' =
    Inr \<lparr>cq_verb = ''0'', cq_subjects = ''0'', cq_objects = ''0'', cq_adverbs = ''0'', cq_extra = ''0'',
         cq_context = ''default'', cq_pkey = ''0'', cq_flags = [0, 0, 0, 0, 0]\<rparr>"
proof -
  let ?texts = "[''is-a'', ''cat'', ''*'', [], [], ''what'', '' '']" and ?flags = "[1, 0, 0, 0, 20 :: nat]"
  have q: "''is-a^cat^*^^^what^ ^1^0^0^0^20'' = join ''^'' (?texts @ map show_nat ?flags)" by code_simp
  have "\<forall>t \<in> set ?texts. csv_field t" by (simp add: csv_field_def line_size_def code_def)
  from csv_query_fields [OF _ _ this _ _ q, of "''everything''"] show ?thesis
    by (simp add: filter_empty_str_def or_text_def)
qed

text \<open>The number of cells of a row that are not null, and the length of a row that is written.\<close>

definition filled :: "nat \<Rightarrow> string option list \<Rightarrow> nat" where
  "filled columns row = length (filter (\<lambda>m. cell row m \<noteq> None) [0..<columns])"

lemma length_csv_row: "length (csv_row columns row) \<le> sum_list (map (\<lambda>m. length (cell_text (cell row m))) [0..<columns]) + max 1 columns"
proof -
  have "length (concat (map (\<lambda>m. cell_text (cell row m) @ (if m + 1 < columns then ''^'' else [])) [0..<k]))
      \<le> sum_list (map (\<lambda>m. length (cell_text (cell row m))) [0..<k]) + min k (columns - 1)" if "k \<le> columns" for k
    using that by (induction k) auto
  from this [of columns] show ?thesis by (simp add: csv_row_def)
qed

lemma reserved_for_row:
  "sum_list (map (\<lambda>m. case cell row m of None \<Rightarrow> 0 | Some s \<Rightarrow> length s + 10) ms) =
    sum_list (map (\<lambda>m. length (cell_text (cell row m))) ms) + 10 * length (filter (\<lambda>m. cell row m \<noteq> None) ms)"
  by (induction ms) (auto simp: cell_text_def split: option.splits)

text \<open>C40. The text of an answer fits into the buffer that is allocated for it when at least one in ten cells of
  every row is filled.\<close>

theorem csv_fits:
  assumes "\<not> ds_toomuch s" "\<forall>row. Some row \<in> set (ds_data s) \<longrightarrow> ds_column_count s \<le> 10 * filled (ds_column_count s) row + 1"
  shows "length (make_csv s) < csv_size s"
proof -
  let ?n = "ds_column_count s"
  let ?text = "\<lambda>r. case r of None \<Rightarrow> [] | Some row \<Rightarrow> if is_written row then csv_row ?n row else []"
  let ?space = "\<lambda>r. case r of None \<Rightarrow> 0
    | Some row \<Rightarrow> sum_list (map (\<lambda>m. case cell row m of None \<Rightarrow> 0 | Some s \<Rightarrow> length s + 10) [0..<?n])"
  have one: "length (?text r) \<le> ?space r + 1" if "r \<in> set (ds_data s)" for r
  proof (cases r)
    case (Some row)
    then have "?n \<le> 10 * filled ?n row + 1" using assms(2) that by blast
    then have "length (csv_row ?n row) \<le> ?space (Some row) + 1"
      using length_csv_row [of ?n row] reserved_for_row [of row "[0..<?n]"] by (simp add: filled_def)
    then show ?thesis using Some by simp
  qed simp
  have "length (concat (map ?text rs)) \<le> length rs + sum_list (map ?space rs)" if "set rs \<subseteq> set (ds_data s)" for rs
    using that
  proof (induction rs)
    case (Cons r rs)
    then show ?case using one [of r] by simp
  qed simp
  from this [of "ds_data s"] show ?thesis using assms(1) by (simp add: make_csv_def csv_size_def)
qed

text \<open>Rows with nine cells beside one that has ninety-nine: behind the 512th the buffer is full.\<close>

definition nine_cells :: "string option list" where
  "nine_cells = replicate 9 (Some ''x'')"

theorem csv_fits_witness:
  "length (make_csv \<lparr>ds_data = [Some nine_cells, None], ds_column_count = 10, ds_toomuch = False\<rparr>) < 4197"
proof -
  let ?s = "\<lparr>ds_data = [Some nine_cells, None], ds_column_count = 10, ds_toomuch = False\<rparr>"
  have "filled 10 nine_cells = 9" "csv_size ?s = 4197" by code_simp+
  then show ?thesis using csv_fits [of ?s] by simp
qed

theorem csv_overflows:
  assumes "512 \<le> n"
  shows "csv_size \<lparr>ds_data = replicate n (Some nine_cells), ds_column_count = 99, ds_toomuch = False\<rparr>
    \<le> length (make_csv \<lparr>ds_data = replicate n (Some nine_cells), ds_column_count = 99, ds_toomuch = False\<rparr>)"
proof -
  let ?s = "\<lparr>ds_data = replicate n (Some nine_cells), ds_column_count = 99, ds_toomuch = False\<rparr>"
  have row: "length (csv_row 99 nine_cells) = 108" "is_written nine_cells" by code_simp+
  have "sum_list (map (\<lambda>m. case cell nine_cells m of None \<Rightarrow> 0 | Some s \<Rightarrow> length s + 10) [0..<99]) = 99"
    by code_simp
  then have "csv_size ?s = 4096 + n + n * 99"
    unfolding csv_size_def dataset.select_convs by (simp add: map_replicate sum_list_replicate del: upt.simps)
  moreover have "length (make_csv ?s) = n * 108"
    unfolding make_csv_def dataset.select_convs
    by (simp only: map_replicate option.case row if_True if_False length_concat sum_list_replicate of_nat_id)
  ultimately show ?thesis using assms by simp
qed

text \<open>The test for the forms of \<^verbatim>\<open>sein\<close> has no bar behind the verb: every beginning of a form counts, and so
  does the empty verb.\<close>

lemma be_form: "str_contains (''|'' @ be_forms @ ''|'') (''|'' @ v) \<Longrightarrow> generalize_verb csv v = be_forms"
  by (simp only: generalize_verb_def if_True)

theorem be_forms_by_prefix:
  "generalize_verb csv [] = be_forms \<and> generalize_verb csv ''we'' = be_forms \<and> generalize_verb csv ''heiss'' = be_forms"
proof (intro conjI be_form)
  show "str_contains (''|'' @ be_forms @ ''|'') (''|'' @ [])" by code_simp
  show "str_contains (''|'' @ be_forms @ ''|'') (''|'' @ ''we'')" by code_simp
  show "str_contains (''|'' @ be_forms @ ''|'') (''|'' @ ''heiss'')" by code_simp
qed

text \<open>Of the files that are cleaned up the last one of the list stays.\<close>

lemma fold_erase: "fold (\<lambda>f m. m(f := None)) fs m x = (if x \<in> set fs then None else m x)"
  by (induction fs arbitrary: m) auto

theorem one_file_stays:
  "clean_files files ''_change_text_language'' = files ''_change_text_language''
    \<and> (\<forall>f \<in> set (butlast files_to_delete). clean_files files f = None)"
proof -
  have "''_change_text_language'' \<notin> set (take 13 files_to_delete)" "butlast files_to_delete = take 13 files_to_delete"
    by code_simp+
  then show ?thesis by (simp add: clean_files_def fold_erase)
qed

end
