(* ===== verification/Spec2Isabelle.thy ===== *)
theory Spec2Isabelle
  imports GrammarPrint Consequence Shell HalXml Talk
begin

text \<open>
  A model of the language core of FreeHAL 2012: the C++ files \<^verbatim>\<open>hal2012-*2012.cpp\<close>,
  \<^verbatim>\<open>.hpp\<close> and \<^verbatim>\<open>.h\<close> in \<^verbatim>\<open>src/trunk/hal2012\<close> (namespace \<^verbatim>\<open>grammar2012\<close>).
  The directories \<^verbatim>\<open>src/trunk/grammar2012\<close> and \<^verbatim>\<open>src/trunk/boinc-app\<close> hold copies of
  these files, which are not modelled again. The copies are equal but for the following. In both directories
  \<^verbatim>\<open>database2012.hpp\<close> overwrites the recorded size of a file where the modelled one inserts it, and \<^verbatim>\<open>prepare\<close> can take
  a second name. In \<^verbatim>\<open>grammar2012\<close>, with which \<^verbatim>\<open>shell.cpp\<close> is built, line 198 of \<^verbatim>\<open>filterfacts2012.cpp\<close> tests the name of
  the second object for \<^verbatim>\<open>synonyms\<close> where the modelled one tests that of the first, \<^verbatim>\<open>xml2012.cpp\<close> initialises a
  counter whose value nobody uses, and \<^verbatim>\<open>grammar2012.h\<close> lacks a declaration.

  The program answers German sentences. A text is cleaned, cut into sentences and rewritten by several
  hundred rules; a sentence is cut into words, a tagger gives every word its part of speech, a grammar
  builds a parse tree bottom up, the tree is printed as an XML fact and read back as a fact tree. Facts
  are kept in an index on the disk; a sentence is answered by the stored fact with the best score, which
  the phraser says, or by a predefined answer.

  The theories, from the bottom up:

  \<^item> \<open>Prelude\<close>: bytes, the string algorithms of Boost that the program calls, the hashed containers
    as insertion-ordered lists, and two locales for tables: \<open>insert_only\<close> (the first entry of a key
    stays) and \<open>overwriting\<close> (the last one wins). They are interpreted on \<^verbatim>\<open>unordered_map\<close> with
    \<^verbatim>\<open>insert\<close>, on \<^verbatim>\<open>unordered_map\<close> with \<^verbatim>\<open>operator[]\<close>, on the symbol table and on
    the disk.
  \<^item> \<open>Util2012\<close> (\<^verbatim>\<open>hal2012-util2012\<close>): case conversion, lines, the wrappers around regular
    expressions, the settings class \<^verbatim>\<open>freehal_base\<close>.
  \<^item> \<open>Entity\<close>, \<open>Grammar\<close>, \<open>Reduce\<close>, \<open>GrammarPrint\<close> (\<^verbatim>\<open>hal2012-grammar2012\<close>): symbols, the grammar
    file, the expansion of replacement symbols, the index of rules, the bottom-up search, the printers.
  \<^item> \<open>ExpandEnd\<close>: for which grammars the expansion ends, and for which it never does.
  \<^item> \<open>TaggerTables\<close>, \<open>Tagger2012\<close> (\<^verbatim>\<open>hal2012-tagger2012\<close>): dictionaries, lookup, guessing, forms of
    verbs and articles.
  \<^item> \<open>Xml2012\<close>, \<open>XmlReader\<close> (\<^verbatim>\<open>hal2012-xml2012\<close>): fact trees with cached words, their printers and
    the reader.
  \<^item> \<open>FilterFacts\<close> (\<^verbatim>\<open>hal2012-filterfacts2012\<close>): comparing words, texts and facts, the filter rules,
    the ranking.
  \<^item> \<open>Disk\<close>, \<open>DiskDb\<close>, \<open>Database\<close> (\<^verbatim>\<open>hal2012-diskdb2012\<close>, \<^verbatim>\<open>hal2012-database2012.hpp\<close>): the
    files of the cache, the index with its synonym sets, preparing fact files and queries.
  \<^item> \<open>Consequence\<close> (\<^verbatim>\<open>hal2012-consequence2012\<close>): rules read from if-sentences.
  \<^item> \<open>Sentence\<close>, \<open>ParserRules\<close>, \<open>Parser2012\<close>, \<open>ParserRun\<close> (\<^verbatim>\<open>hal2012-parser2012\<close>): class
    \<^verbatim>\<open>sentence\<close>, the tables of the rewriting rules, class \<^verbatim>\<open>parser\<close> with \<^verbatim>\<open>simplify_input\<close> in
    its stages, and what a whole run guarantees.
  \<^item> \<open>Phrase2012\<close> (\<^verbatim>\<open>hal2012-phrase2012\<close>), \<open>Predefined2012\<close> (\<^verbatim>\<open>hal2012-predefined2012\<close>): saying a
    fact, and the predefined answers.
  \<^item> \<open>Shell\<close> (\<^verbatim>\<open>grammar2012/shell.cpp\<close>): the program that connects all of them, from \<^verbatim>\<open>main\<close> to the
    answer of a sentence. It is put on the classes as modelled here; its loop is the one compiled without
    \<^verbatim>\<open>READLINE\<close>, which the build file sets.
  \<^item> \<open>Server\<close> (\<^verbatim>\<open>hal2012-server.cpp\<close>): the threads that copy lines between a client and its process,
    interleaved as a step relation over the shared lock of the database.
  \<^item> \<open>HalUtil\<close>, \<open>HalXml\<close>, \<open>Talk\<close> (\<^verbatim>\<open>hal2012-util\<close>, \<^verbatim>\<open>hal2012-universal-cxx\<close>, \<^verbatim>\<open>hal2012-xml\<close>,
    \<^verbatim>\<open>hal2012-talk\<close>): the C++ part of the older program around the core in C, which is a parameter: words,
    the configuration, records as XML and back, facts in their source files, CSV.

  Conventions. A C++ string is a list of bytes. An object that an operation changes is passed in and
  returned. Objects that are shared by pointers are values where they are not changed after sharing;
  the synonym sets, which are, live in an explicit store. Whatever a container, a directory or
  \<^verbatim>\<open>random_shuffle\<close> leaves open (the order of hashed keys, of directory entries, of equal ranks) is
  a parameter. The regular expression engine and the user who is asked for unknown words are
  parameters, too. An exception, and an access behind the end of a vector, is a value of
  a sum type.

  Bounds. The search of \<^verbatim>\<open>reduce\<close> has a fixed number of steps in the code; it is the fuel of the
  model. The loop of \<^verbatim>\<open>expand\<close> may run forever and is a partial function. Every other loop is a
  total function. Integers of the tagger's guesses wrap at 32 bits; doubles are rational numbers with
  NaN, without rounding. The rewriting loops have fixed counts: 51 for quoted words, 19 for lists.

  What the lemmas show. Of each container and printer: that what is stored is found, that what is
  printed is read back. Of the grammar: the trees of a sentence are trees of the rules over exactly its
  words, and when the expansion returns. Of fact trees: the cached words are those of the texts. Of
  the database: facts that were learnt are found by their words. Of the comparison of trees: which words two trees must have in common, with
  their conjunctions. Of the parser: how each sentence comes from its part of the text, and the only ways in which
  it can fail. Of the shell: an answer comes from a fact with the best score; a conversation ends by a line that ends
  it, by an exception of one line, or does not begin because the expansion of the grammar never ends, and every
  line before that gets an answer that is not empty. Of the server: when the lock of the database has one holder,
  how two can get it, and that a process which ends with it keeps all others waiting. Of the older program: which
  records survive their XML, what replacing a fact does, and when an answer fits into its buffer.

  Not modelled: the regular expression engine (its results are parameters, so the effect of a single
  rewriting rule is not fixed), what undefined reads of match objects return (\<open>stale\<close>), console output,
  boost serialization, sockets and processes, the threads of the older programs, the Perl interpreter,
  the older core in C with its storage, the search in Wikipedia, the older database that the 2012 core
  replaces, the Java applications, the Qt window, and the vendored compilers and libraries.
\<close>

end
